(* ===== verification/Prelude.thy ===== *)
theory Prelude
  imports Main "HOL-Library.Word"
begin

text \<open>
  Shared vocabulary of the development: the result type of a Go call, the type of a byte, the
  collections of rewrite rules the component theories extend, and the generic facts on lists,
  integers and bytes that several components use.
\<close>

unbundle bit_operations_syntax

section \<open>Results of Go functions\<close>

text \<open>
  A Go call either returns a result, or returns with a non-nil error, or panics at run time (an
  index or a slice bound out of range, a division by zero). The three ways to end are the three
  constructors; a function that has no error result never uses \<open>Err\<close>.
\<close>

datatype ('e, 'a) outcome = Ok 'a | Err 'e | Panic

fun bind_outcome :: "('e, 'a) outcome \<Rightarrow> ('a \<Rightarrow> ('e, 'b) outcome) \<Rightarrow> ('e, 'b) outcome" where
  "bind_outcome (Ok x) f = f x"
| "bind_outcome (Err e) f = Err e"
| "bind_outcome Panic f = Panic"

fun panics :: "('e, 'a) outcome \<Rightarrow> bool" where
  "panics Panic = True"
| "panics (Ok x) = False"
| "panics (Err e) = False"

lemma bind_outcome_Ok_iff:
  "bind_outcome r f = Ok y \<longleftrightarrow> (\<exists>x. r = Ok x \<and> f x = Ok y)"
  by (cases r) auto

lemma panics_iff [simp]: "panics r \<longleftrightarrow> r = Panic"
  by (cases r) auto

type_synonym byte = "8 word"

named_theorems gofield \<open>how the Go field operations act on the values they represent\<close>
named_theorems goeval \<open>equations that evaluate the model on concrete inputs\<close>

text \<open>The slice expression \<open>xs[i:j]\<close>, at indices that are in range where it is used.\<close>

definition subslice :: "'a list \<Rightarrow> nat \<Rightarrow> nat \<Rightarrow> 'a list" where
  "subslice xs i j = take (j - i) (drop i xs)"

lemma length_subslice: "j \<le> length xs \<Longrightarrow> length (subslice xs i j) = j - i"
  by (simp add: subslice_def)

text \<open>The built-in \<open>copy(dst[off:], src)\<close>: as much of \<open>src\<close> as there is room for, at an offset in range.\<close>

definition go_copy :: "'a list \<Rightarrow> nat \<Rightarrow> 'a list \<Rightarrow> 'a list" where
  "go_copy dst off src = take off dst @ take (length dst - off) src @ drop (off + length src) dst"

lemma length_go_copy [simp]: "off \<le> length dst \<Longrightarrow> length (go_copy dst off src) = length dst"
  by (simp add: go_copy_def)

lemma go_copy_middle:
  "length xs = length ys \<Longrightarrow> off = length as \<Longrightarrow> go_copy (as @ xs @ bs) off ys = as @ ys @ bs"
  by (simp add: go_copy_def)

section \<open>Integers\<close>

lemma mod_eq_dvd_int: "(a::int) mod m = b mod m \<longleftrightarrow> m dvd a - b"
  by (simp add: mod_eq_dvd_iff)

lemma mult_mod_cong:
  "(a::int) mod m = b mod m \<Longrightarrow> c mod m = d mod m \<Longrightarrow> a * c mod m = b * d mod m"
  by (metis mod_mult_eq)

lemma mod_mult_right_right: "a * (b * (c mod m)) mod m = a * (b * c) mod (m :: int)"
  by (metis mod_mult_right_eq mult.assoc)

lemma power_mod_cong: "(a::int) mod m = b mod m \<Longrightarrow> a ^ n mod m = b ^ n mod m"
  by (metis power_mod)

lemma mod_cancel_coprime:
  fixes a b k m :: int
  assumes "coprime k m" and "a * k mod m = b * k mod m"
  shows "a mod m = b mod m"
proof -
  have "m dvd (a - b) * k"
    using assms(2) by (simp add: mod_eq_dvd_int left_diff_distrib)
  with assms(1) have "m dvd a - b"
    by (simp add: coprime_dvd_mult_left_iff coprime_commute)
  then show ?thesis by (simp add: mod_eq_dvd_int)
qed

section \<open>Bytes\<close>

lemma uint_byte_less [simp]: "uint (b :: byte) < 256"
  using uint_lt2p [of b] by simp

lemma unat_byte_less [simp]: "unat (b :: byte) < 256"
  using uint_byte_less [of b] by (simp add: nat_less_iff flip: nat_uint_eq)

lemma uint_of_nat_byte: "uint (of_nat n :: byte) = int n mod 256"
  by (simp add: unsigned_of_nat take_bit_eq_mod zmod_int)

lemma byte_high_bit: "(b :: byte) AND 128 \<noteq> 0 \<longleftrightarrow> 128 \<le> uint b"
proof -
  have "(b AND 128 \<noteq> 0) = bit b 7"
  proof -
    have "(128 :: byte) = push_bit 7 1" by (simp add: push_bit_eq_mult)
    then show ?thesis
      by (metis and_exp_eq_0_iff_not_bit mult_1 push_bit_eq_mult)
  qed
  also have "\<dots> = odd (uint b div 2 ^ 7)"
    by (metis bit_iff_odd bit_uint_iff bit_imp_le_length not_le)
  also have "\<dots> \<longleftrightarrow> 128 \<le> uint b"
  proof -
    have "uint b div 128 = 0 \<or> uint b div 128 = 1"
      using uint_byte_less [of b] uint_nonnegative [of b] by presburger
    then have "odd (uint b div 128) \<longleftrightarrow> 128 \<le> uint b"
      using uint_byte_less [of b] uint_nonnegative [of b] by presburger
    then show ?thesis by simp
  qed
  finally show ?thesis .
qed

lemma uint_flip_byte: "uint ((b :: byte) XOR 255) = 255 - uint b"
proof -
  have "b XOR 255 = NOT b"
    by (rule bit_word_eqI) (auto simp: bit_simps numeral_eq_Suc less_Suc_eq bit_Suc)
  also have "\<dots> = - b - 1" by (simp add: not_eq_complement)
  finally have "b XOR 255 = 255 - b" by simp
  moreover have "b \<le> 255"
    using uint_byte_less [of b] by (simp add: word_le_def del: uint_byte_less)
  ultimately show ?thesis
    by (simp add: uint_minus_simple_alt)
qed

end
