(* ===== verification/GoBig.thy ===== *)
theory GoBig
  imports Prelude
begin

text \<open>
  The part of Go's \<open>math/big\<close> that the modelled code calls, on mathematical integers: a
  \<open>*big.Int\<close> is an \<^typ>\<open>int\<close>. \<open>SetBytes\<close> and \<open>Bytes\<close> read and
  write the absolute value as an unsigned big-endian byte string; \<open>Mod\<close> and
  \<open>Div\<close> are the Euclidean ones; \<open>Exp\<close> ignores the sign of the modulus and
  takes the modulus 0 to mean no reduction; \<open>ModInverse\<close> is the extended Euclidean
  algorithm of the Go 1.7 to 1.9 library, which the build files of the repository select: it
  returns the inverse for relatively prime arguments, and 0 where one argument is 0.
\<close>

section \<open>Operations\<close>

fun nat_bitlen :: "nat \<Rightarrow> nat" where
  "nat_bitlen n = (if n = 0 then 0 else Suc (nat_bitlen (n div 2)))"

declare nat_bitlen.simps [simp del]

definition big_BitLen :: "int \<Rightarrow> nat" where
  "big_BitLen x = nat_bitlen (nat \<bar>x\<bar>)"

definition big_SetBytes :: "byte list \<Rightarrow> int" where
  "big_SetBytes bs = foldl (\<lambda>acc b. acc * 256 + uint b) 0 bs"

fun nat_bytes :: "nat \<Rightarrow> byte list" where
  "nat_bytes n = (if n = 0 then [] else nat_bytes (n div 256) @ [of_nat (n mod 256)])"

declare nat_bytes.simps [simp del]

definition big_Bytes :: "int \<Rightarrow> byte list" where
  "big_Bytes x = nat_bytes (nat \<bar>x\<bar>)"

text \<open>The last \<open>k\<close> bytes of the two's-complement form, most significant first.\<close>

fun be_bytes :: "nat \<Rightarrow> int \<Rightarrow> byte list" where
  "be_bytes 0 x = []"
| "be_bytes (Suc k) x = be_bytes k (x div 256) @ [word_of_int x]"

definition big_Mod :: "int \<Rightarrow> int \<Rightarrow> int" where
  "big_Mod x y = x mod \<bar>y\<bar>"

definition big_Exp :: "int \<Rightarrow> int \<Rightarrow> int \<Rightarrow> int" where
  "big_Exp x y m = x ^ nat y mod \<bar>m\<bar>"

text \<open>The loop of \<open>GCD\<close>: remainders and the coefficient of the first argument.\<close>

function gcd_loop :: "int \<Rightarrow> int \<Rightarrow> int \<Rightarrow> int \<Rightarrow> int" where
  "gcd_loop A B X lastX =
     (if B = 0 then lastX
      else gcd_loop B (A mod B) (lastX - (A div B) * X) X)"
  by pat_completeness auto
termination
  by (relation "measure (\<lambda>(A, B, X, lastX). nat \<bar>B\<bar>)") (auto simp: abs_mod_less)

declare gcd_loop.simps [simp del]

definition big_GCD_x :: "int \<Rightarrow> int \<Rightarrow> int" where
  "big_GCD_x a b = (if a \<le> 0 \<or> b \<le> 0 then 0 else gcd_loop a b 0 1)"

definition big_ModInverse :: "int \<Rightarrow> int \<Rightarrow> int" where
  "big_ModInverse g n =
     (let g' = (if g < 0 then big_Mod g n else g); z = big_GCD_x g' n
      in if z < 0 then z + n else z)"

definition big_Bit :: "int \<Rightarrow> nat \<Rightarrow> bool" where
  "big_Bit x i = odd (x div 2 ^ i)"

definition big_Lsh :: "int \<Rightarrow> nat \<Rightarrow> int" where
  "big_Lsh x n = x * 2 ^ n"

definition big_Int64 :: "int \<Rightarrow> 64 word" where
  "big_Int64 x = (if x < 0 then - word_of_int (- x) else word_of_int x)"

definition big_Uint64 :: "int \<Rightarrow> 64 word" where
  "big_Uint64 x = word_of_int \<bar>x\<bar>"

text \<open>
  Binary recursions on integers that evaluate \<open>Exp\<close>, \<open>BitLen\<close> and \<open>Bytes\<close> on concrete inputs.
\<close>

function powmod :: "int \<Rightarrow> int \<Rightarrow> int \<Rightarrow> int" where
  "powmod x n m =
     (if n \<le> 0 then 1 mod m
      else let h = powmod x (n div 2) m; s = h * h mod m
           in if even n then s else s * x mod m)"
  by pat_completeness auto
termination
  by (relation "measure (\<lambda>(x, n, m). nat n)") auto

declare powmod.simps [simp del]

function int_bitlen :: "int \<Rightarrow> nat" where
  "int_bitlen n = (if n \<le> 0 then 0 else Suc (int_bitlen (n div 2)))"
  by pat_completeness auto
termination
  by (relation "measure nat") auto

declare int_bitlen.simps [simp del]

function int_bytes :: "int \<Rightarrow> byte list" where
  "int_bytes n = (if n \<le> 0 then [] else int_bytes (n div 256) @ [word_of_int (n mod 256)])"
  by pat_completeness auto
termination
  by (relation "measure nat") auto

declare int_bytes.simps [simp del]

section \<open>Bit length\<close>

lemma nat_bitlen_0 [simp]: "nat_bitlen 0 = 0"
  by (simp add: nat_bitlen.simps)

lemma nat_bitlen_bounds: "0 < n \<Longrightarrow> 2 ^ (nat_bitlen n - 1) \<le> n \<and> n < 2 ^ nat_bitlen n"
proof (induction n rule: nat_bitlen.induct)
  case (1 n)
  show ?case
  proof (cases "n = 1")
    case True
    then show ?thesis by (simp add: nat_bitlen.simps)
  next
    case False
    with "1.prems" have pos: "0 < n div 2" by simp
    with "1.IH" "1.prems" have
      ih: "2 ^ (nat_bitlen (n div 2) - 1) \<le> n div 2" "n div 2 < 2 ^ nat_bitlen (n div 2)" by auto
    from pos obtain k where k: "nat_bitlen (n div 2) = Suc k"
      by (metis gr0_conv_Suc nat_bitlen.simps zero_less_Suc)
    with ih have "2 ^ k \<le> n div 2" "n div 2 < 2 * 2 ^ k" by simp_all
    then have "2 * 2 ^ k \<le> n" "n < 2 * (2 * 2 ^ k)" by linarith+
    then show ?thesis
      using "1.prems" k by (simp add: nat_bitlen.simps [of n])
  qed
qed

lemma nat_bitlen_less: "n < 2 ^ nat_bitlen n"
  by (cases "n = 0") (auto simp: nat_bitlen_bounds)

lemma nat_bitlen_le_iff: "nat_bitlen n \<le> k \<longleftrightarrow> n < 2 ^ k"
proof (cases "n = 0")
  case False
  then have b: "2 ^ (nat_bitlen n - 1) \<le> n" "n < 2 ^ nat_bitlen n"
    using nat_bitlen_bounds by auto
  show ?thesis
  proof
    assume "nat_bitlen n \<le> k"
    with b(2) show "n < 2 ^ k"
      by (meson less_le_trans one_le_numeral power_increasing)
  next
    assume "n < 2 ^ k"
    with b(1) have "(2::nat) ^ (nat_bitlen n - 1) < 2 ^ k" by linarith
    then have "nat_bitlen n - 1 < k"
      by (meson nat_power_less_imp_less zero_less_numeral)
    then show "nat_bitlen n \<le> k" by linarith
  qed
qed simp

section \<open>Byte strings\<close>

lemma SetBytes_Nil [simp]: "big_SetBytes [] = 0"
  by (simp add: big_SetBytes_def)

lemma SetBytes_snoc [simp]: "big_SetBytes (bs @ [b]) = big_SetBytes bs * 256 + uint b"
  by (simp add: big_SetBytes_def)

lemma SetBytes_append:
  "big_SetBytes (xs @ ys) = big_SetBytes xs * 256 ^ length ys + big_SetBytes ys"
  by (induction ys rule: rev_induct) (simp_all add: algebra_simps flip: append_assoc)

lemma SetBytes_Cons: "big_SetBytes (b # bs) = uint b * 256 ^ length bs + big_SetBytes bs"
  using SetBytes_append [of "[b]" bs] by (simp add: big_SetBytes_def)

lemma SetBytes_nonneg [simp]: "0 \<le> big_SetBytes bs"
  by (induction bs rule: rev_induct) auto

lemma SetBytes_less: "big_SetBytes bs < 256 ^ length bs"
proof (induction bs rule: rev_induct)
  case (snoc b bs)
  then have "big_SetBytes bs + 1 \<le> 256 ^ length bs" by linarith
  moreover have "uint b < 256" by simp
  ultimately have "big_SetBytes bs * 256 + uint b < 256 ^ length bs * 256" by linarith
  then show ?case by simp
qed simp

lemma SetBytes_replicate_0 [simp]: "big_SetBytes (replicate n 0) = 0"
  by (induction n) (simp_all add: SetBytes_Cons)

lemma length_be_bytes [simp]: "length (be_bytes k x) = k"
  by (induction k arbitrary: x) auto

lemma SetBytes_be_bytes: "big_SetBytes (be_bytes k x) = x mod 256 ^ k"
proof (induction k arbitrary: x)
  case (Suc k)
  have "uint (word_of_int x :: byte) = x mod 256" by (simp add: uint_word_of_int)
  then show ?case
    using Suc zmod_zmult2_eq [of "256 ^ k" x 256] by (simp add: algebra_simps)
qed simp

lemma be_bytes_SetBytes: "be_bytes (length bs) (big_SetBytes bs) = bs"
proof (induction bs rule: rev_induct)
  case (snoc b bs)
  define v where "v = big_SetBytes bs"
  have "uint (word_of_int (v * 256 + uint b) :: byte) = uint b"
    by (simp only: uint_word_of_int) (simp add: mod_pos_pos_trivial)
  then have "(word_of_int (v * 256 + uint b) :: byte) = b" by (rule word_uint_eqI)
  moreover have "(v * 256 + uint b) div 256 = v" by (simp add: div_pos_pos_trivial)
  ultimately show ?case using snoc by (simp add: v_def)
qed simp

lemma SetBytes_inj: "length xs = length ys \<Longrightarrow> big_SetBytes xs = big_SetBytes ys \<Longrightarrow> xs = ys"
  by (metis be_bytes_SetBytes)

lemma nat_bytes_0 [simp]: "nat_bytes 0 = []"
  by (simp add: nat_bytes.simps)

lemma Bytes_0 [simp]: "big_Bytes 0 = []"
  by (simp add: big_Bytes_def)

lemma SetBytes_nat_bytes: "big_SetBytes (nat_bytes n) = int n"
proof (induction n rule: nat_bytes.induct)
  case (1 n)
  show ?case
  proof (cases "n = 0")
    case False
    with 1 have "big_SetBytes (nat_bytes (n div 256)) = int (n div 256)" by simp
    with False show ?thesis
      by (subst nat_bytes.simps)
        (simp add: uint_of_nat_byte zdiv_int zmod_int)
  qed simp
qed

lemma SetBytes_Bytes [simp]: "big_SetBytes (big_Bytes x) = \<bar>x\<bar>"
  by (simp add: big_Bytes_def SetBytes_nat_bytes)

lemma nat_bytes_snoc:
  "0 < n \<or> b \<noteq> 0 \<Longrightarrow> nat_bytes (n * 256 + unat b) = nat_bytes n @ [b]"
  by (subst nat_bytes.simps) (auto simp: unat_eq_0)

lemma SetBytes_eq_0_iff: "big_SetBytes bs = 0 \<longleftrightarrow> set bs \<subseteq> {0}"
proof (induction bs rule: rev_induct)
  case (snoc b bs)
  have "big_SetBytes bs * 256 + uint b = 0 \<longleftrightarrow> big_SetBytes bs = 0 \<and> uint b = 0"
    using SetBytes_nonneg [of bs] uint_nonnegative [of b] by linarith
  with snoc show ?case by (auto simp: uint_0_iff)
qed simp

lemma dropWhile_all_zero: "set bs \<subseteq> {0::byte} \<Longrightarrow> dropWhile (\<lambda>b. b = 0) bs = []"
  by (auto simp: dropWhile_eq_Nil_conv)

lemma Bytes_SetBytes: "big_Bytes (big_SetBytes bs) = dropWhile (\<lambda>b. b = 0) bs"
proof (induction bs rule: rev_induct)
  case (snoc b bs)
  let ?n = "nat (big_SetBytes bs)"
  have eq: "nat (big_SetBytes (bs @ [b])) = ?n * 256 + unat b"
    by (simp add: nat_add_distrib nat_mult_distrib)
  show ?case
  proof (cases "set bs \<subseteq> {0}")
    case True
    then have "?n = 0" by (simp add: SetBytes_eq_0_iff [THEN iffD2])
    with True eq show ?thesis
      using nat_bytes_snoc [of 0 b] by (cases "b = 0") (auto simp: big_Bytes_def dropWhile_append)
  next
    case False
    then have "0 < ?n"
      using SetBytes_nonneg [of bs] SetBytes_eq_0_iff [of bs] by linarith
    moreover have "dropWhile (\<lambda>b. b = 0) (bs @ [b]) = dropWhile (\<lambda>b. b = 0) bs @ [b]"
      using False by (auto simp: dropWhile_append)
    ultimately show ?thesis
      using snoc eq nat_bytes_snoc [of ?n b] by (simp add: big_Bytes_def)
  qed
qed simp

lemma hd_nat_bytes: "0 < n \<Longrightarrow> nat_bytes n \<noteq> [] \<and> hd (nat_bytes n) \<noteq> 0"
proof (induction n rule: nat_bytes.induct)
  case (1 n)
  show ?case
  proof (cases "n div 256 = 0")
    case True
    then have "n < 256" by simp
    then have "(of_nat n :: byte) \<noteq> 0"
      using "1.prems" by (metis mod_less of_nat_0 of_nat_0_less_iff of_nat_less_iff of_nat_mod
          uint_of_nat_byte unsigned_0 zmod_int less_irrefl of_nat_numeral)
    with True \<open>n < 256\<close> "1.prems" show ?thesis by (subst (1 2) nat_bytes.simps) simp
  next
    case False
    with 1 show ?thesis by (subst (1 2) nat_bytes.simps) auto
  qed
qed

lemma Bytes_hd: "big_Bytes x = b # bs \<Longrightarrow> b \<noteq> 0"
  using hd_nat_bytes [of "nat \<bar>x\<bar>"] by (cases "x = 0") (auto simp: big_Bytes_def)

lemma Bytes_eq_Nil_iff [simp]: "big_Bytes x = [] \<longleftrightarrow> x = 0"
  using hd_nat_bytes [of "nat \<bar>x\<bar>"] by (auto simp: big_Bytes_def)

lemma Bytes_length_le_iff: "length (big_Bytes x) \<le> k \<longleftrightarrow> \<bar>x\<bar> < 256 ^ k"
proof
  assume "length (big_Bytes x) \<le> k"
  then have "(256::int) ^ length (big_Bytes x) \<le> 256 ^ k" by (intro power_increasing) auto
  moreover have "\<bar>x\<bar> < 256 ^ length (big_Bytes x)"
    using SetBytes_less [of "big_Bytes x"] by simp
  ultimately show "\<bar>x\<bar> < 256 ^ k" by linarith
next
  assume less: "\<bar>x\<bar> < 256 ^ k"
  show "length (big_Bytes x) \<le> k"
  proof (cases "big_Bytes x")
    case (Cons b bs)
    then have "1 \<le> uint b"
      using Bytes_hd uint_nonnegative [of b] by (metis One_nat_def uint_0_iff zero_less_one_class.zero_le_one
          order_le_less int_one_le_iff_zero_less)
    then have "1 * 256 ^ length bs \<le> uint b * (256 :: int) ^ length bs"
      by (intro mult_right_mono) auto
    also have "\<dots> \<le> \<bar>x\<bar>"
      using Cons SetBytes_Bytes [of x] SetBytes_Cons [of b bs] SetBytes_nonneg [of bs]
      by (metis le_add_same_cancel1)
    finally have "(256::int) ^ length bs < 256 ^ k" using less by linarith
    then have "length bs < k" by (simp add: power_less_imp_less_exp)
    with Cons show ?thesis by simp
  qed simp
qed

section \<open>Modular arithmetic\<close>

lemma big_Mod_pos [simp]: "0 < m \<Longrightarrow> big_Mod x m = x mod m"
  by (simp add: big_Mod_def)

lemma powmod_eq: "powmod x n m = x ^ nat n mod m"
proof (induction x n m rule: powmod.induct)
  case (1 x n m)
  show ?case
  proof (cases "n \<le> 0")
    case False
    let ?h = "nat (n div 2)"
    from 1 False have ih: "powmod x (n div 2) m = x ^ ?h mod m" by simp
    have sq: "x ^ ?h mod m * (x ^ ?h mod m) mod m = x ^ (2 * ?h) mod m"
      by (simp add: mod_mult_eq power_add mult_2)
    show ?thesis
    proof (cases "even n")
      case True
      with False have "nat n = 2 * ?h" by auto
      with True False ih sq show ?thesis by (subst powmod.simps) (simp add: Let_def)
    next
      case odd: False
      with False have n: "nat n = Suc (2 * ?h)" by (auto elim!: oddE simp: nat_add_distrib nat_mult_distrib)
      have "x ^ (2 * ?h) mod m * x mod m = x ^ nat n mod m"
        unfolding n by (simp add: mod_mult_right_eq mult.commute)
      with False odd ih sq show ?thesis by (subst powmod.simps) (simp add: Let_def)
    qed
  qed (simp add: powmod.simps)
qed

lemma big_Exp_code [code]: "big_Exp x y m = powmod x y \<bar>m\<bar>"
  by (simp add: big_Exp_def powmod_eq)

lemma int_bitlen_eq: "int_bitlen n = nat_bitlen (nat n)"
proof (induction n rule: int_bitlen.induct)
  case (1 n)
  then show ?case
    by (cases "n \<le> 0") (simp_all add: int_bitlen.simps [of n] nat_bitlen.simps [of "nat n"] nat_div_distrib)
qed

lemma big_BitLen_code [code]: "big_BitLen x = int_bitlen \<bar>x\<bar>"
  by (simp add: big_BitLen_def int_bitlen_eq)

lemma int_bytes_eq: "int_bytes n = nat_bytes (nat n)"
proof (induction n rule: int_bytes.induct)
  case (1 n)
  show ?case
  proof (cases "n \<le> 0")
    case False
    then have "(of_nat (nat n mod 256) :: byte) = word_of_int (n mod 256)"
      by (simp add: nat_mod_distrib word_of_int_nat)
    with False 1 show ?thesis
      by (simp add: int_bytes.simps [of n] nat_bytes.simps [of "nat n"] nat_div_distrib)
  qed (simp add: int_bytes.simps)
qed

lemma big_Bytes_code [code]: "big_Bytes x = int_bytes \<bar>x\<bar>"
  by (simp add: big_Bytes_def int_bytes_eq)

lemma big_Exp_pos: "0 < m \<Longrightarrow> big_Exp x y m = x ^ nat y mod m"
  by (simp add: big_Exp_def)

lemma gcd_loop_cong:
  fixes a n :: int
  assumes "0 \<le> A" and "0 \<le> B"
    and "lastX * a mod n = A mod n" and "X * a mod n = B mod n"
  shows "gcd_loop A B X lastX * a mod n = gcd A B mod n"
  using assms
proof (induction A B X lastX rule: gcd_loop.induct)
  case (1 A B X lastX)
  show ?case
  proof (cases "B = 0")
    case True
    with 1 show ?thesis by (simp add: gcd_loop.simps)
  next
    case False
    have "(lastX - A div B * X) * a mod n = (lastX * a - A div B * (X * a)) mod n"
      by (simp add: algebra_simps)
    also have "\<dots> = (A - A div B * B) mod n"
      using "1.prems" by (metis mod_diff_cong mod_mult_right_eq)
    also have "\<dots> = A mod B mod n"
      by (simp add: minus_div_mult_eq_mod)
    finally have "(lastX - A div B * X) * a mod n = A mod B mod n" .
    with False "1.IH" "1.prems"
    have "gcd_loop B (A mod B) (lastX - A div B * X) X * a mod n = gcd B (A mod B) mod n" by simp
    with False show ?thesis
      by (subst gcd_loop.simps) (simp add: gcd.commute [of A B] gcd_red_int [symmetric])
  qed
qed

lemma ModInverse_correct:
  assumes "coprime g n" and "0 < n"
  shows "big_ModInverse g n * g mod n = 1 mod n"
proof -
  define g' where "g' = (if g < 0 then g mod n else g)"
  have nonneg: "0 \<le> g'" using assms by (simp add: g'_def)
  have cong: "g' mod n = g mod n" by (simp add: g'_def)
  have cop: "coprime g' n"
    using assms by (simp add: g'_def)
  have "big_GCD_x g' n * g' mod n = 1 mod n"
  proof (cases "g' = 0")
    case True
    with cop assms(2) have "n = 1" by simp
    then show ?thesis by simp
  next
    case False
    with nonneg have "0 < g'" by simp
    then show ?thesis
      using gcd_loop_cong [of g' n 1 g' n 0] assms(2) cop
      by (simp add: big_GCD_x_def)
  qed
  moreover have "big_ModInverse g n mod n = big_GCD_x g' n mod n"
    using assms(2) by (simp add: big_ModInverse_def Let_def g'_def)
  ultimately show ?thesis
    using cong by (metis mod_mult_eq)
qed

lemma coprime_ModInverse:
  assumes "coprime g n" and "0 < n"
  shows "coprime (big_ModInverse g n) n"
proof -
  have "(big_ModInverse g n * g) mod n = 1 mod n"
    using assms by (rule ModInverse_correct)
  then have "coprime (big_ModInverse g n * g) n"
    by (metis coprime_1_left coprime_mod_left_iff assms(2) less_irrefl)
  then show ?thesis by simp
qed

lemma ModInverse_0 [simp]: "big_ModInverse 0 n = 0"
  by (simp add: big_ModInverse_def big_GCD_x_def)

end
