(* ===== verification/ByteConversion.thy ===== *)
theory ByteConversion
  imports GoBig
begin

text \<open>
  Package \<open>byteconversion\<close>: \<open>conversion.go\<close> turns integers into the two's-complement byte
  strings of Java's \<open>BigInteger\<close> and back, \<open>parse.go\<close> reads a comma-separated list of decimal
  integers. The parser's \<open>SetString\<close> leaves its receiver undefined where the text is not a
  number, so what such a field is worth is the parameter \<open>undef\<close> of the parser's model.
\<close>

section \<open>conversion.go\<close>

datatype conv_error = ErrEmptyArray

definition FlipBytes :: "byte list \<Rightarrow> byte list" where
  "FlipBytes bytesIn = map (\<lambda>b. b XOR 255) bytesIn"

definition FromByteArray :: "byte list \<Rightarrow> (conv_error, int) outcome" where
  "FromByteArray bytesIn =
     (case bytesIn of
        [] \<Rightarrow> Err ErrEmptyArray
      | highestByte # _ \<Rightarrow>
          if highestByte AND 128 \<noteq> 0 then
            (let tmpBytes = big_Bytes (big_SetBytes bytesIn - 1)
             in case tmpBytes of
                  [] \<Rightarrow> Panic
                | first # _ \<Rightarrow>
                    (let convertedBytes =
                           (if first = 255 then tl (FlipBytes tmpBytes) else FlipBytes tmpBytes)
                     in Ok (big_SetBytes convertedBytes * - 1)))
          else Ok (big_SetBytes bytesIn))"

definition ToByteArray :: "int \<Rightarrow> byte list" where
  "ToByteArray x =
     (let isNegative = x < 0; bytes = big_Bytes x
      in case bytes of
           [] \<Rightarrow> [0]
         | highestByte # _ \<Rightarrow>
             if \<not> isNegative then
               (if highestByte AND 128 \<noteq> 0 then 0 # bytes else bytes)
             else
               (let convertedBytes =
                      (if highestByte AND 128 \<noteq> 0 then 255 # FlipBytes bytes
                       else FlipBytes bytes)
                in big_Bytes (big_SetBytes convertedBytes + 1)))"

section \<open>parse.go\<close>

datatype parse_error = ErrInvalidBigInteger

definition is_digit :: "byte \<Rightarrow> bool" where
  "is_digit element \<longleftrightarrow> 48 \<le> element \<and> element \<le> 57"

text \<open>The validation loop, with the index of the element it looks at.\<close>

fun valid_from :: "nat \<Rightarrow> byte list \<Rightarrow> bool" where
  "valid_from index [] = True"
| "valid_from index (element # rest) =
     ((is_digit element \<or> index = 0 \<and> element = 45) \<and> valid_from (Suc index) rest)"

text \<open>
  \<open>SetString(s, 10)\<close> of \<open>math/big\<close> on the texts that pass the validation: an optional minus
  sign and at least one digit; it fails on the empty text and on the sign alone.
\<close>

definition digits_value :: "byte list \<Rightarrow> int" where
  "digits_value ds = foldl (\<lambda>acc d. acc * 10 + (uint d - 48)) 0 ds"

definition big_SetString :: "byte list \<Rightarrow> int option" where
  "big_SetString s =
     (case s of
        [] \<Rightarrow> None
      | c # ds \<Rightarrow>
          if c = 45 then (if ds = [] then None else Some (- digits_value ds))
          else Some (digits_value s))"

definition ConvertToBigInt :: "(byte list \<Rightarrow> int) \<Rightarrow> byte list \<Rightarrow> (parse_error, int) outcome" where
  "ConvertToBigInt undef s =
     (if valid_from 0 s
      then Ok (case big_SetString s of Some i \<Rightarrow> i | None \<Rightarrow> undef s)
      else Err ErrInvalidBigInteger)"

text \<open>
  The loop of \<open>ParseInput\<close>: \<open>field\<close> holds \<open>in[prevIndex:index]\<close>, the bytes since the last
  comma, and \<open>output\<close> the numbers found so far.
\<close>

fun parse_loop ::
  "(byte list \<Rightarrow> int) \<Rightarrow> byte list \<Rightarrow> int list \<Rightarrow> byte list \<Rightarrow> (parse_error, int list) outcome" where
  "parse_loop undef field output [] =
     (case ConvertToBigInt undef field of
        Ok newInt \<Rightarrow> Ok (output @ [newInt])
      | Err e \<Rightarrow> Err e
      | Panic \<Rightarrow> Panic)"
| "parse_loop undef field output (element # rest) =
     (if element = 44 then
        (case ConvertToBigInt undef field of
           Ok newInt \<Rightarrow> parse_loop undef [] (output @ [newInt]) rest
         | Err e \<Rightarrow> Err e
         | Panic \<Rightarrow> Panic)
      else parse_loop undef (field @ [element]) output rest)"

definition ParseInput :: "(byte list \<Rightarrow> int) \<Rightarrow> byte list \<Rightarrow> (parse_error, int list) outcome" where
  "ParseInput undef s = parse_loop undef [] [] s"

section \<open>Two's complement\<close>

text \<open>The value of a byte string read as a signed big-endian number.\<close>

definition signed_value :: "byte list \<Rightarrow> int" where
  "signed_value bs =
     (if 128 * 256 ^ (length bs - 1) \<le> big_SetBytes bs
      then big_SetBytes bs - 256 ^ length bs else big_SetBytes bs)"

lemma length_FlipBytes [simp]: "length (FlipBytes bs) = length bs"
  by (simp add: FlipBytes_def)

lemma FlipBytes_Cons [simp]: "FlipBytes (b # bs) = (b XOR 255) # FlipBytes bs"
  by (simp add: FlipBytes_def)

lemma FlipBytes_Nil [simp]: "FlipBytes [] = []"
  by (simp add: FlipBytes_def)

lemma SetBytes_FlipBytes: "big_SetBytes (FlipBytes bs) = 256 ^ length bs - 1 - big_SetBytes bs"
  by (induction bs) (simp_all add: SetBytes_Cons uint_flip_byte algebra_simps)

lemma high_bit_SetBytes:
  "(b AND 128 \<noteq> 0) \<longleftrightarrow> 128 * 256 ^ length bs \<le> big_SetBytes (b # bs)"
proof
  assume "b AND 128 \<noteq> 0"
  then have "128 \<le> uint b" by (simp add: byte_high_bit)
  then have "128 * 256 ^ length bs \<le> uint b * 256 ^ length bs" by (intro mult_right_mono) auto
  then show "128 * 256 ^ length bs \<le> big_SetBytes (b # bs)"
    using SetBytes_nonneg [of bs] unfolding SetBytes_Cons by linarith
next
  assume le: "128 * 256 ^ length bs \<le> big_SetBytes (b # bs)"
  show "b AND 128 \<noteq> 0"
  proof (rule ccontr)
    assume "\<not> b AND 128 \<noteq> 0"
    then have "uint b + 1 \<le> 128" using byte_high_bit [of b] by linarith
    then have "(uint b + 1) * 256 ^ length bs \<le> 128 * 256 ^ length bs"
      by (intro mult_right_mono) auto
    with le SetBytes_less [of bs] show False
      unfolding SetBytes_Cons distrib_right by linarith
  qed
qed

lemma FromByteArray_signed:
  assumes "bs \<noteq> []"
  shows "FromByteArray bs = Ok (signed_value bs)"
proof (cases bs)
  case (Cons b r)
  show ?thesis
  proof (cases "b AND 128 \<noteq> 0")
    case True
    define v where "v = big_SetBytes bs - 1"
    have big: "128 * 256 ^ length r \<le> big_SetBytes bs"
      using True high_bit_SetBytes Cons by auto
    have pos: "0 < (256::int) ^ length r" by simp
    with big have v: "0 < v" unfolding v_def by linarith
    obtain f t where ft: "big_Bytes v = f # t"
      using v by (cases "big_Bytes v") auto
    have fv: "big_SetBytes (f # t) = v"
      using ft v by (metis SetBytes_Bytes abs_of_pos)
    have "length (f # t) = length bs"
    proof (rule antisym)
      show "length (f # t) \<le> length bs"
        using Bytes_length_le_iff [of v "length bs"] SetBytes_less [of bs] ft v
        by (simp add: v_def)
      have "\<not> \<bar>v\<bar> < 256 ^ length r"
        using big pos unfolding v_def by linarith
      then have "\<not> length (f # t) \<le> length r"
        using Bytes_length_le_iff [of v "length r"] ft by simp
      then show "length bs \<le> length (f # t)" using Cons by simp
    qed
    then have len: "length t = length r" using Cons by simp
    have flip: "big_SetBytes (FlipBytes (f # t)) = 256 ^ length bs - big_SetBytes bs"
      unfolding SetBytes_FlipBytes fv using len Cons by (simp add: v_def)
    have "big_SetBytes (if f = 255 then tl (FlipBytes (f # t)) else FlipBytes (f # t))
      = 256 ^ length bs - big_SetBytes bs"
    proof (cases "f = 255")
      case True
      then have "big_SetBytes (tl (FlipBytes (f # t))) = big_SetBytes (FlipBytes (f # t))"
        by (simp add: SetBytes_Cons)
      with True flip show ?thesis by simp
    next
      case False
      with flip show ?thesis by simp
    qed
    moreover have "signed_value bs = big_SetBytes bs - 256 ^ length bs"
      using big Cons by (simp add: signed_value_def)
    ultimately show ?thesis
      using True Cons ft by (simp add: FromByteArray_def Let_def v_def del: FlipBytes_Cons)
  next
    case False
    with high_bit_SetBytes [of b r] Cons have "\<not> 128 * 256 ^ length r \<le> big_SetBytes bs" by simp
    with False Cons show ?thesis by (simp add: FromByteArray_def signed_value_def)
  qed
qed (use assms in simp)

lemma ToByteArray_0 [simp]: "ToByteArray 0 = [0]"
  by (simp add: ToByteArray_def)

lemma SetBytes_plus_1 [simp]: "big_SetBytes bs + 1 \<noteq> 0"
  using SetBytes_nonneg [of bs] by linarith

lemma ToByteArray_nonempty [simp]: "ToByteArray x \<noteq> []"
  by (auto simp: ToByteArray_def Let_def split: list.split)

lemma Bytes_high_bit:
  assumes "big_Bytes x = b # bs"
  shows "b AND 128 \<noteq> 0 \<longleftrightarrow> 128 * 256 ^ length bs \<le> \<bar>x\<bar>"
    and "\<bar>x\<bar> < 256 ^ length (b # bs)" and "256 ^ length bs \<le> \<bar>x\<bar>"
proof -
  have v: "big_SetBytes (b # bs) = \<bar>x\<bar>"
    using assms SetBytes_Bytes [of x] by simp
  show "b AND 128 \<noteq> 0 \<longleftrightarrow> 128 * 256 ^ length bs \<le> \<bar>x\<bar>"
    using high_bit_SetBytes [of b bs] v by simp
  show "\<bar>x\<bar> < 256 ^ length (b # bs)"
    using SetBytes_less [of "b # bs"] v by simp
  show "256 ^ length bs \<le> \<bar>x\<bar>"
    using Bytes_length_le_iff [of x "length bs"] assms by simp
qed

lemma complement_Bytes:
  assumes "0 < v" and "v \<le> 128 * 256 ^ k"
  shows "length (big_Bytes (256 ^ Suc k - v)) = Suc k"
    and "signed_value (big_Bytes (256 ^ Suc k - v)) = - v"
proof -
  let ?w = "256 ^ Suc k - v"
  have pos: "0 < (256::int) ^ k" by simp
  have bounds: "128 * 256 ^ k \<le> ?w" "?w < 256 ^ Suc k"
    using assms by simp_all
  have "length (big_Bytes ?w) \<le> Suc k"
    using Bytes_length_le_iff [of ?w "Suc k"] bounds pos by simp
  moreover have "\<not> length (big_Bytes ?w) \<le> k"
    using Bytes_length_le_iff [of ?w k] bounds pos by linarith
  ultimately show len: "length (big_Bytes ?w) = Suc k" by simp
  have "big_SetBytes (big_Bytes ?w) = ?w" using bounds pos by simp
  with len bounds show "signed_value (big_Bytes ?w) = - v"
    by (simp add: signed_value_def)
qed

text \<open>The three shapes of the result, by the sign of the number and the high bit of its magnitude.\<close>

lemma ToByteArray_cases:
  assumes "big_Bytes x = b # bs"
  shows "ToByteArray x =
    (if 0 < x then (if 128 * 256 ^ length bs \<le> x then 0 # b # bs else b # bs)
     else if 128 * 256 ^ length bs \<le> - x then big_Bytes (256 ^ Suc (Suc (length bs)) - (- x))
     else big_Bytes (256 ^ Suc (length bs) - (- x)))"
proof -
  note hb = Bytes_high_bit(1) [OF assms]
  have x: "x \<noteq> 0" using assms by auto
  have v: "big_SetBytes (b # bs) = \<bar>x\<bar>"
    using assms SetBytes_Bytes [of x] by simp
  have flip: "big_SetBytes (FlipBytes (b # bs)) = 256 ^ Suc (length bs) - 1 - \<bar>x\<bar>"
    unfolding SetBytes_FlipBytes v by simp
  have flip': "big_SetBytes (255 # FlipBytes (b # bs)) = 256 ^ Suc (Suc (length bs)) - 1 - \<bar>x\<bar>"
    unfolding SetBytes_Cons [of 255] flip by simp
  show ?thesis
    using assms x hb flip flip'
    by (cases "0 < x") (auto simp: ToByteArray_def Let_def algebra_simps simp del: FlipBytes_Cons)
qed

lemma ToByteArray_signed_length:
  shows "signed_value (ToByteArray x) = x"
    and "length (ToByteArray x) \<le> Suc k \<longleftrightarrow> \<bar>x\<bar> < 128 * 256 ^ k"
proof -
  have "signed_value (ToByteArray x) = x \<and> (length (ToByteArray x) \<le> Suc k \<longleftrightarrow> \<bar>x\<bar> < 128 * 256 ^ k)"
  proof (cases "big_Bytes x")
    case Nil
    then show ?thesis by (simp add: signed_value_def SetBytes_Cons)
  next
    case (Cons b bs)
    note hb = Bytes_high_bit [OF Cons] and shape = ToByteArray_cases [OF Cons]
    have v: "big_SetBytes (b # bs) = \<bar>x\<bar>"
      using Cons SetBytes_Bytes [of x] by simp
    have x: "x \<noteq> 0" using Cons by auto
    have len: "length (ToByteArray x) = (if 128 * 256 ^ length bs \<le> \<bar>x\<bar> then Suc (Suc (length bs)) else Suc (length bs))"
      using shape hb x complement_Bytes(1) [of "- x" "length bs"] complement_Bytes(1) [of "- x" "Suc (length bs)"]
      by (simp split: if_splits)
    have "signed_value (ToByteArray x) = x"
      using shape hb x v complement_Bytes(2) [of "- x" "length bs"] complement_Bytes(2) [of "- x" "Suc (length bs)"]
      by (simp add: signed_value_def SetBytes_Cons [of 0] split: if_splits)
    moreover have "length (ToByteArray x) \<le> Suc k \<longleftrightarrow> \<bar>x\<bar> < 128 * 256 ^ k"
    proof (cases "128 * 256 ^ length bs \<le> \<bar>x\<bar>")
      case True
      have "\<bar>x\<bar> < 128 * 256 ^ k" if "Suc (length bs) \<le> k"
        using power_increasing [OF that, of "256::int"] hb(2) by simp
      moreover have "128 * 256 ^ k \<le> \<bar>x\<bar>" if "k \<le> length bs"
        using power_increasing [OF that, of "256::int"] True by linarith
      ultimately show ?thesis
        using True len by (cases "k \<le> length bs") auto
    next
      case False
      have "\<bar>x\<bar> < 128 * 256 ^ k" if "length bs \<le> k"
        using power_increasing [OF that, of "256::int"] False by linarith
      moreover have "128 * 256 ^ k \<le> \<bar>x\<bar>" if "Suc k \<le> length bs"
        using power_increasing [OF that, of "256::int"] hb(3) by simp
      ultimately show ?thesis
        using False len by (cases "length bs \<le> k") auto
    qed
    ultimately show ?thesis by simp
  qed
  then show "signed_value (ToByteArray x) = x"
    and "length (ToByteArray x) \<le> Suc k \<longleftrightarrow> \<bar>x\<bar> < 128 * 256 ^ k" by auto
qed

section \<open>Fields and decimal text\<close>

text \<open>
  A reference reading of the input: the fields between the commas, and the number a field stands
  for. Printing is the decimal notation of Java's \<open>BigInteger.toString\<close>.
\<close>

fun split_commas :: "byte list \<Rightarrow> byte list list" where
  "split_commas [] = [[]]"
| "split_commas (c # cs) =
     (if c = 44 then [] # split_commas cs
      else (c # hd (split_commas cs)) # tl (split_commas cs))"

definition field_value :: "(byte list \<Rightarrow> int) \<Rightarrow> byte list \<Rightarrow> int" where
  "field_value undef f = (case big_SetString f of Some i \<Rightarrow> i | None \<Rightarrow> undef f)"

fun dec_digits :: "nat \<Rightarrow> byte list" where
  "dec_digits n = (if n < 10 then [] else dec_digits (n div 10)) @ [of_nat (48 + n mod 10)]"

declare dec_digits.simps [simp del]

definition print_int :: "int \<Rightarrow> byte list" where
  "print_int x = (if x < 0 then 45 # dec_digits (nat (- x)) else dec_digits (nat x))"

fun join_commas :: "byte list list \<Rightarrow> byte list" where
  "join_commas [] = []"
| "join_commas [f] = f"
| "join_commas (f # fs) = f @ 44 # join_commas fs"

lemma split_commas_nonempty [simp]: "split_commas s \<noteq> []"
  by (cases s) auto

lemma ConvertToBigInt_alt:
  "ConvertToBigInt undef f =
     (if valid_from 0 f then Ok (field_value undef f) else Err ErrInvalidBigInteger)"
  by (simp add: ConvertToBigInt_def field_value_def)

lemma parse_loop_fields:
  "parse_loop undef field out s =
     (let fs = (field @ hd (split_commas s)) # tl (split_commas s)
      in if list_all (valid_from 0) fs then Ok (out @ map (field_value undef) fs)
         else Err ErrInvalidBigInteger)"
proof (induction s arbitrary: field out)
  case Nil
  show ?case by (simp add: ConvertToBigInt_alt)
next
  case (Cons c s)
  show ?case
  proof (cases "c = 44")
    case True
    obtain f fs where "split_commas s = f # fs" by (cases "split_commas s") auto
    with True Cons show ?thesis by (simp add: ConvertToBigInt_alt)
  next
    case False
    then have "parse_loop undef field out (c # s) = parse_loop undef (field @ [c]) out s" by simp
    with False Cons show ?thesis by (simp only: Let_def) simp
  qed
qed

lemma digits_value_snoc [simp]: "digits_value (ds @ [d]) = digits_value ds * 10 + (uint d - 48)"
  by (simp add: digits_value_def)

lemma uint_digit: "n < 10 \<Longrightarrow> uint (of_nat (48 + n) :: byte) = 48 + int n"
  unfolding uint_of_nat_byte by simp

lemma digit_of_nat: "n < 10 \<Longrightarrow> is_digit (of_nat (48 + n))"
  using uint_digit [of n] unfolding is_digit_def by (simp add: word_le_def del: of_nat_add)

lemma digits_value_dec [simp]: "digits_value (dec_digits n) = int n"
proof (induction n rule: dec_digits.induct)
  case (1 n)
  then show ?case
    using uint_digit [of "n mod 10"]
    by (subst dec_digits.simps) (auto simp: digits_value_def zdiv_int zmod_int simp del: of_nat_add)
qed

lemma dec_digits_nonempty [simp]: "dec_digits n \<noteq> []"
  by (subst dec_digits.simps) simp

lemma dec_digits_are_digits: "list_all is_digit (dec_digits n)"
proof (induction n rule: dec_digits.induct)
  case (1 n)
  then show ?case
    using digit_of_nat [of "n mod 10"]
    by (subst dec_digits.simps) (auto simp del: of_nat_add)
qed

lemma valid_from_digits: "list_all is_digit ds \<Longrightarrow> valid_from i ds"
  by (induction ds arbitrary: i) auto

lemma is_digit_not_sign: "is_digit c \<Longrightarrow> c \<noteq> 45 \<and> c \<noteq> 44"
  by (auto simp: is_digit_def)

lemma field_print [simp]: "valid_from 0 (print_int x)" "field_value undef (print_int x) = x"
proof -
  show "valid_from 0 (print_int x)"
    using dec_digits_are_digits by (auto simp: print_int_def valid_from_digits)
  obtain d ds where d: "dec_digits (nat x) = d # ds" by (cases "dec_digits (nat x)") auto
  with dec_digits_are_digits [of "nat x"] have "d \<noteq> 45"
    using is_digit_not_sign by fastforce
  then show "field_value undef (print_int x) = x"
    using d digits_value_dec [of "nat x"]
    by (auto simp: print_int_def field_value_def big_SetString_def)
qed

lemma no_comma_print: "44 \<notin> set (print_int x)"
proof -
  have "44 \<notin> set (dec_digits n)" for n
    using dec_digits_are_digits [of n] is_digit_not_sign by (auto simp: list_all_iff)
  then show ?thesis by (simp add: print_int_def)
qed

lemma split_commas_append:
  "44 \<notin> set f \<Longrightarrow> split_commas (f @ s) = (f @ hd (split_commas s)) # tl (split_commas s)"
  by (induction f) auto

lemma split_join:
  "fs \<noteq> [] \<Longrightarrow> \<forall>f\<in>set fs. 44 \<notin> set f \<Longrightarrow> split_commas (join_commas fs) = fs"
proof (induction fs rule: join_commas.induct)
  case (2 f)
  then show ?case using split_commas_append [of f "[]"] by simp
next
  case (3 f g fs)
  then show ?case using split_commas_append [of f "44 # join_commas (g # fs)"] by simp
qed simp

lemma parse_printed:
  assumes "xs \<noteq> []"
  shows "ParseInput undef (join_commas (map print_int xs)) = Ok xs"
proof -
  have "split_commas (join_commas (map print_int xs)) = map print_int xs"
    using assms by (intro split_join) (auto simp: no_comma_print)
  then show ?thesis
    using assms by (cases xs) (simp_all add: ParseInput_def parse_loop_fields list_all_iff comp_def)
qed

section \<open>Properties\<close>

text \<open>C29: Decoding the two's-complement encoding of an integer gives the integer back, for every
  integer, and the decoder does not fail on it.\<close>

theorem from_to_roundtrip: "FromByteArray (ToByteArray x) = Ok x"
  using FromByteArray_signed [of "ToByteArray x"] by (simp add: ToByteArray_signed_length)

text \<open>\<open>FromByteArray\<close> reads every non-empty byte string as the signed big-endian number it
  denotes, leading sign bytes included, and returns the error exactly for the empty string; the
  access \<open>tmpBytes[0]\<close> is never out of range.\<close>

theorem from_byte_array_spec:
  "FromByteArray bs = (if bs = [] then Err ErrEmptyArray else Ok (signed_value bs))"
  using FromByteArray_signed [of bs] by (auto simp: FromByteArray_def)

text \<open>The encoding has at most \<open>k + 1\<close> bytes exactly when the magnitude is below
  \<open>2^(8k+7)\<close>. The bound is symmetric: \<open>- 2^(8k+7)\<close> also takes \<open>k + 2\<close> bytes, one more than the
  minimum the comment on \<open>ToByteArray\<close> promises.\<close>

theorem to_byte_array_length: "length (ToByteArray x) \<le> Suc k \<longleftrightarrow> \<bar>x\<bar> < 128 * 256 ^ k"
  by (rule ToByteArray_signed_length)

text \<open>\<open>ParseInput\<close> splits its input at the commas and converts each field; it returns an
  error exactly when some field holds a byte that is neither a digit nor a leading minus sign, and
  otherwise one number for each field, in order.\<close>

theorem parse_input_spec:
  "ParseInput undef s =
     (if list_all (valid_from 0) (split_commas s) then Ok (map (field_value undef) (split_commas s))
      else Err ErrInvalidBigInteger)"
  by (simp add: ParseInput_def parse_loop_fields)

text \<open>C30: Parsing the comma-separated decimal text of a non-empty list of integers gives the
  list back.\<close>

theorem parse_print_roundtrip:
  assumes "xs \<noteq> []"
  shows "ParseInput undef (join_commas (map print_int xs)) = Ok xs"
  using assms by (rule parse_printed)

theorem parse_print_roundtrip_witness:
  "ParseInput (\<lambda>_. 0) (join_commas (map print_int [1234, - 5, 0])) = Ok [1234, - 5, 0]"
  by (rule parse_print_roundtrip) simp

end
