(* ===== verification/ZKRangeProof.thy ===== *)
theory ZKRangeProof
  imports ByteConversion
begin

text \<open>
  Package \<open>zkrangeproof\<close> (\<open>zkp_validator.go\<close>): the validator of Boudot's range proofs. The
  digest of \<open>crypto/sha256\<close> is the parameter \<open>sha\<close> of the definitions that hash. Commitments and
  proofs are slices of integers; \<open>ValidateRangeProof\<close> writes to the subslice it is given, so its
  model also returns the commitment as the caller sees it afterwards. The diagnostic output is not
  modelled.
\<close>

section \<open>Integer helpers\<close>

definition Add :: "int \<Rightarrow> int \<Rightarrow> int" where
  "Add x y = x + y"

definition Sub :: "int \<Rightarrow> int \<Rightarrow> int" where
  "Sub x y = x - y"

definition Div :: "int \<Rightarrow> int \<Rightarrow> (conv_error, int) outcome" where
  "Div x y = (if y = 0 then Panic else Ok (if 0 < y then x div y else - (x div (- y))))"

definition Mod :: "int \<Rightarrow> int \<Rightarrow> (conv_error, int) outcome" where
  "Mod base modulus = (if modulus = 0 then Panic else Ok (big_Mod base modulus))"

definition Multiply :: "int \<Rightarrow> int \<Rightarrow> int" where
  "Multiply factor1 factor2 = factor1 * factor2"

definition ModInverse :: "int \<Rightarrow> int \<Rightarrow> int" where
  "ModInverse base modulus = big_ModInverse base modulus"

text \<open>\<open>big.Int.Exp\<close> does not reduce for modulus 0; the model gives the mathematical power there, which the program cannot compute for
  large exponents.\<close>

definition ModPow :: "int \<Rightarrow> int \<Rightarrow> int \<Rightarrow> int" where
  "ModPow base exponent modulus =
     (if 0 \<le> exponent then big_Exp base exponent modulus
      else ModInverse (big_Exp base \<bar>exponent\<bar> modulus) modulus)"

definition DivMod :: "int \<Rightarrow> int \<Rightarrow> int \<Rightarrow> (conv_error, int) outcome" where
  "DivMod a b N = Mod (Multiply a (ModInverse b N)) N"

definition ShiftLeft :: "int \<Rightarrow> nat \<Rightarrow> int" where
  "ShiftLeft a b = Multiply a (2 ^ b)"

section \<open>Integer square root\<close>

text \<open>
  The reference: the largest number whose square does not exceed \<open>n\<close>. It also measures how far the
  loop is from its end.
\<close>

definition isqrt :: "nat \<Rightarrow> nat" where
  "isqrt n = (GREATEST s. s * s \<le> n)"

lemma isqrt_bounds: "isqrt n * isqrt n \<le> n" "n < Suc (isqrt n) * Suc (isqrt n)"
proof -
  have bound: "y \<le> n" if "y * y \<le> n" for y :: nat
    using that by (metis le_square le_trans)
  show "isqrt n * isqrt n \<le> n"
    unfolding isqrt_def by (rule GreatestI_nat [of "\<lambda>s. s * s \<le> n" 0 n]) (simp, erule bound)
  show "n < Suc (isqrt n) * Suc (isqrt n)"
  proof (rule ccontr)
    assume "\<not> n < Suc (isqrt n) * Suc (isqrt n)"
    then have "Suc (isqrt n) * Suc (isqrt n) \<le> n" by (simp only: not_less)
    then have "Suc (isqrt n) \<le> (GREATEST s. s * s \<le> n)"
      by (rule Greatest_le_nat) (erule bound)
    then show False by (simp add: isqrt_def)
  qed
qed

lemma isqrt_unique: "s * s \<le> n \<Longrightarrow> n < Suc s * Suc s \<Longrightarrow> isqrt n = s"
proof -
  assume s: "s * s \<le> n" "n < Suc s * Suc s"
  have "isqrt n < Suc s"
    using isqrt_bounds(1) [of n] s(2) by (metis le_less_trans mult_le_mono not_less)
  moreover have "s < Suc (isqrt n)"
    using isqrt_bounds(2) [of n] s(1) by (metis le_less_trans mult_le_mono not_less)
  ultimately show ?thesis by simp
qed

text \<open>One step of the Babylonian method, and where it leads from either side of the root.\<close>

definition sqrt_step :: "nat \<Rightarrow> nat \<Rightarrow> nat" where
  "sqrt_step n x = (n div x + x) div 2"

lemma sqrt_step_ge:
  assumes "0 < x"
  shows "isqrt n \<le> sqrt_step n x"
proof (rule ccontr)
  define y where "y = sqrt_step n x"
  assume "\<not> isqrt n \<le> sqrt_step n x"
  then have y: "int y + 1 \<le> int (isqrt n)" by (simp add: y_def)
  have "n div x + x \<le> 2 * y + 1" by (simp add: y_def sqrt_step_def)
  then have "int (n div x) + 1 \<le> 2 * int y + 2 - int x" by linarith
  then have "(int (n div x) + 1) * int x \<le> (2 * int y + 2 - int x) * int x"
    by (intro mult_right_mono) auto
  moreover have "int n < (int (n div x) + 1) * int x"
    using assms dividend_less_div_times [of x n] by (simp add: distrib_right flip: of_nat_mult of_nat_add)
  ultimately have "int n < (2 * int y + 2 - int x) * int x" by linarith
  also have "\<dots> \<le> (int y + 1) * (int y + 1)"
    using zero_le_square [of "int y + 1 - int x"] by (simp add: algebra_simps)
  also have "\<dots> \<le> int (isqrt n) * int (isqrt n)"
    using y by (intro mult_mono) auto
  also have "\<dots> \<le> int n"
    using isqrt_bounds(1) [of n] by (metis of_nat_le_iff of_nat_mult)
  finally show False by simp
qed

lemma sqrt_step_less:
  assumes "isqrt n < x"
  shows "sqrt_step n x < x"
proof -
  have "Suc (isqrt n) * Suc (isqrt n) \<le> x * x" using assms by (intro mult_le_mono) auto
  then have "n < x * x" using isqrt_bounds(2) [of n] by linarith
  then have "n div x < x" by (simp add: less_mult_imp_div_less)
  then show ?thesis by (simp add: sqrt_step_def)
qed

lemma sqrt_step_root:
  assumes "0 < isqrt n"
  shows "sqrt_step n (isqrt n) \<in> {isqrt n, Suc (isqrt n)}"
proof -
  let ?s = "isqrt n"
  have "n < (?s + 3) * ?s"
    using isqrt_bounds(2) [of n] assms by (simp add: algebra_simps)
  then have "n div ?s < ?s + 3" by (simp add: less_mult_imp_div_less)
  then have "sqrt_step n ?s \<le> Suc ?s" by (simp add: sqrt_step_def)
  with sqrt_step_ge [OF assms, of n] show ?thesis by auto
qed

lemma sqrt_step_above: "sqrt_step n (Suc (isqrt n)) = isqrt n"
  using sqrt_step_ge [of "Suc (isqrt n)" n] sqrt_step_less [of n "Suc (isqrt n)"] by simp

lemma sqrt_step_le: "0 < x \<Longrightarrow> x \<le> n \<Longrightarrow> sqrt_step n x \<le> n"
proof -
  assume "0 < x" "x \<le> n"
  then have "n div x + x \<le> 2 * n" using div_le_dividend [of n x] by linarith
  then show "sqrt_step n x \<le> n" by (simp add: sqrt_step_def)
qed

text \<open>
  How far the loop is from its end, in the state \<open>(input, prev2, prev, approx)\<close>: it is done when
  \<open>approx\<close> repeats one of the two values before it, it descends while it is above the root, and it
  may alternate once between the root and its successor.
\<close>

definition sqrt_distance :: "nat \<times> nat \<times> nat \<times> nat \<Rightarrow> nat" where
  "sqrt_distance = (\<lambda>(n, p2, p, x).
     if x = p \<or> x = p2 then 0
     else if p = isqrt n \<and> x = Suc (isqrt n) then 1
     else if x = isqrt n then 2
     else if isqrt n < x then 3 + (x - isqrt n)
     else 4 + n)"

lemma sqrt_distance_step:
  assumes stop: "x \<noteq> p" "x \<noteq> p2" and x: "x \<noteq> 0"
  shows "sqrt_distance (n, p, x, sqrt_step n x) < sqrt_distance (n, p2, p, x)"
proof -
  let ?s = "isqrt n" and ?y = "sqrt_step n x"
  have ge: "?s \<le> ?y" using x by (simp add: sqrt_step_ge)
  consider "x < ?s" | "x = ?s" | "?s < x" by linarith
  then show ?thesis
  proof cases
    case 1
    then have "x \<le> n"
      using isqrt_bounds(1) [of n] le_square [of ?s] by linarith
    with x have "?y \<le> n" by (simp add: sqrt_step_le)
    with 1 ge stop show ?thesis by (auto simp: sqrt_distance_def)
  next
    case 2
    with x sqrt_step_root [of n] stop show ?thesis by (auto simp: sqrt_distance_def)
  next
    case 3
    with ge sqrt_step_less [OF 3] stop sqrt_step_above [of n] show ?thesis
      by (auto simp: sqrt_distance_def)
  qed
qed

text \<open>
  The loop of \<open>FloorSquareRoot\<close>. It runs on a non-negative input, so its variables are natural
  numbers; the division by \<open>approx\<close> panics when \<open>approx\<close> is 0.
\<close>

function sqrt_loop :: "nat \<Rightarrow> nat \<Rightarrow> nat \<Rightarrow> nat \<Rightarrow> (conv_error, nat) outcome" where
  "sqrt_loop input prev2 prev approx =
     (if approx \<noteq> prev \<and> approx \<noteq> prev2 then
        (if approx = 0 then Panic
         else sqrt_loop input prev approx ((input div approx + approx) div 2))
      else Ok approx)"
  by pat_completeness auto
termination
proof (relation "measure sqrt_distance")
  fix n p2 p x :: nat
  assume "x \<noteq> p \<and> x \<noteq> p2" and "x \<noteq> 0"
  then show "((n, p, x, (n div x + x) div 2), (n, p2, p, x)) \<in> measure sqrt_distance"
    using sqrt_distance_step [of x p p2 n] by (simp add: sqrt_step_def)
qed simp

declare sqrt_loop.simps [simp del]

definition FloorSquareRoot :: "int \<Rightarrow> (conv_error, int) outcome" where
  "FloorSquareRoot input =
     (if input < 0 then Ok 0
      else bind_outcome (sqrt_loop (nat input) 0 0 (2 ^ (big_BitLen input div 2)))
        (\<lambda>approx. Ok (if input < Multiply (int approx) (int approx) then Sub (int approx) 1
                      else int approx)))"

section \<open>The validator\<close>

definition t_param :: nat where
  "t_param = 128"

definition l_param :: nat where
  "l_param = 40"

type_synonym digest = "byte list \<Rightarrow> byte list"

definition CalculateHash :: "digest \<Rightarrow> int \<Rightarrow> int option \<Rightarrow> (conv_error, int) outcome" where
  "CalculateHash sha b1 b2 =
     FromByteArray (sha (ToByteArray b1 @ (case b2 of None \<Rightarrow> [] | Some b \<Rightarrow> ToByteArray b)))"

fun HPAKEEqualityConstraintValidateZeroKnowledgeProof ::
  "digest \<Rightarrow> int \<Rightarrow> int \<Rightarrow> int \<Rightarrow> int \<Rightarrow> int \<Rightarrow> int \<Rightarrow> int \<Rightarrow> int list \<Rightarrow> (conv_error, bool) outcome" where
  "HPAKEEqualityConstraintValidateZeroKnowledgeProof sha N g1 g2 h1 h2 E F (C # D # D1 # D2 # _) =
     bind_outcome (Mod (Multiply (Multiply (ModPow g1 D N) (ModPow h1 D1 N))
                                 (ModPow E (Multiply C (- 1)) N)) N) (\<lambda>W1.
     bind_outcome (Mod (Multiply (Multiply (ModPow g2 D N) (ModPow h2 D2 N))
                                 (ModPow F (Multiply C (- 1)) N)) N) (\<lambda>W2.
     case CalculateHash sha W1 (Some W2) of
       Ok hashW \<Rightarrow> Ok (C = hashW)
     | Err _ \<Rightarrow> Ok False
     | Panic \<Rightarrow> Panic))"
| "HPAKEEqualityConstraintValidateZeroKnowledgeProof sha N g1 g2 h1 h2 E F _ = Panic"

fun HPAKESquareValidateZeroKnowledgeProof ::
  "digest \<Rightarrow> int \<Rightarrow> int \<Rightarrow> int \<Rightarrow> int \<Rightarrow> int list \<Rightarrow> (conv_error, bool) outcome" where
  "HPAKESquareValidateZeroKnowledgeProof sha N g h E (F # ecProof) =
     HPAKEEqualityConstraintValidateZeroKnowledgeProof sha N g F h h F E ecProof"
| "HPAKESquareValidateZeroKnowledgeProof sha N g h E [] = Panic"

fun CFTValidateZeroKnowledgeProof ::
  "digest \<Rightarrow> int \<Rightarrow> int \<Rightarrow> int \<Rightarrow> int \<Rightarrow> int \<Rightarrow> int list \<Rightarrow> (conv_error, bool) outcome" where
  "CFTValidateZeroKnowledgeProof sha b N g h E (C # D1 # D2 # _) =
     bind_outcome (Mod C (2 ^ t_param)) (\<lambda>c.
     bind_outcome (Mod (Multiply (Multiply (ModPow g D1 N) (ModPow h D2 N))
                                 (ModPow E (Multiply c (- 1)) N)) N) (\<lambda>W.
     case CalculateHash sha W None of
       Ok hashW \<Rightarrow> Ok (C = hashW \<and> Multiply b c \<le> D1 \<and> D1 \<le> Multiply b (2 ^ (t_param + l_param)))
     | Err _ \<Rightarrow> Ok False
     | Panic \<Rightarrow> Panic))"
| "CFTValidateZeroKnowledgeProof sha b N g h E _ = Panic"

definition ValidateProofWithTolerance ::
  "digest \<Rightarrow> int \<Rightarrow> int \<Rightarrow> int list \<Rightarrow> int list \<Rightarrow> (conv_error, bool) outcome" where
  "ValidateProofWithTolerance sha lowerLimit upperLimit commitment proof =
     (if length commitment < 4 \<or> length proof < 18 then Ok False
      else
        let c = commitment ! 0; N = commitment ! 1; g = commitment ! 2; h = commitment ! 3
        in if N \<le> 0 then Ok False
        else
          let cLeftSquare = proof ! 0;
              cRightSquare = proof ! 1;
              squareProofLeft = subslice proof 2 7;
              squareProofRight = subslice proof 7 12;
              cftProofLeft = subslice proof 12 15;
              cftProofRight = subslice proof 15 18
          in
          bind_outcome (DivMod c (ModPow g lowerLimit N) N) (\<lambda>cLeft.
          bind_outcome (DivMod (ModPow g upperLimit N) c N) (\<lambda>cRight.
          bind_outcome (DivMod cLeft cLeftSquare N) (\<lambda>cLeftRemaining.
          bind_outcome (DivMod cRight cRightSquare N) (\<lambda>cRightRemaining.
          bind_outcome (HPAKESquareValidateZeroKnowledgeProof sha N g h cLeftSquare squareProofLeft) (\<lambda>ok1.
          if \<not> ok1 then Ok False else
          bind_outcome (HPAKESquareValidateZeroKnowledgeProof sha N g h cRightSquare squareProofRight) (\<lambda>ok2.
          if \<not> ok2 then Ok False else
          bind_outcome (FloorSquareRoot (ShiftLeft (Sub upperLimit lowerLimit) 2)) (\<lambda>CFT_maxCommitment.
          bind_outcome (CFTValidateZeroKnowledgeProof sha CFT_maxCommitment N g h cLeftRemaining cftProofLeft) (\<lambda>ok3.
          if \<not> ok3 then Ok False else
          bind_outcome (CFTValidateZeroKnowledgeProof sha CFT_maxCommitment N g h cRightRemaining cftProofRight) (\<lambda>ok4.
          if \<not> ok4 then Ok False else Ok True))))))))))"

text \<open>
  \<open>commitmentPrime := commitment[:]\<close> shares the caller's array, so the scaled commitment value is
  written there; the second component of the result is the array after the call.
\<close>

definition ValidateRangeProof ::
  "digest \<Rightarrow> int \<Rightarrow> int \<Rightarrow> int list \<Rightarrow> int list \<Rightarrow> (conv_error, bool \<times> int list) outcome" where
  "ValidateRangeProof sha lowerLimit upperLimit commitment proof =
     (if length commitment < 4 \<or> length proof < 18 then Ok (False, commitment)
      else
        let T = 2 * (t_param + l_param + 1) + big_BitLen (Sub upperLimit lowerLimit);
            lowerLimitPrime = ShiftLeft lowerLimit T;
            upperLimitPrime = ShiftLeft upperLimit T;
            commitmentPrime =
              commitment[0 := ModPow (commitment ! 0) (ShiftLeft 1 T) (commitment ! 1)]
        in bind_outcome (ValidateProofWithTolerance sha lowerLimitPrime upperLimitPrime commitmentPrime proof)
             (\<lambda>r. Ok (r, commitmentPrime)))"

section \<open>The square root is exact\<close>

lemma sqrt_step_fixed: "0 < x \<Longrightarrow> sqrt_step n x = x \<Longrightarrow> x = isqrt n"
  using sqrt_step_ge [of x n] sqrt_step_less [of n x] by (cases "isqrt n < x") auto

lemma sqrt_step_alternating:
  assumes "0 < x" and "0 < sqrt_step n x" and "sqrt_step n (sqrt_step n x) = x"
  shows "x \<in> {isqrt n, Suc (isqrt n)}"
proof (cases "isqrt n < x")
  case True
  then have less: "sqrt_step n x < x" by (rule sqrt_step_less)
  have ge: "isqrt n \<le> sqrt_step n x" using assms(1) by (rule sqrt_step_ge)
  show ?thesis
  proof (cases "isqrt n < sqrt_step n x")
    case True
    then have "sqrt_step n (sqrt_step n x) < sqrt_step n x" by (rule sqrt_step_less)
    with less assms(3) show ?thesis by simp
  next
    case False
    with ge assms sqrt_step_root [of n] show ?thesis by simp
  qed
next
  case False
  with sqrt_step_ge [OF assms(2), of n] assms(3) show ?thesis by simp
qed

text \<open>
  The states the loop goes through: both earlier values are 0, or the last one is and the current
  value comes from a step, or all three are consecutive steps.
\<close>

lemma sqrt_loop_result:
  assumes "0 < n" and "0 < x"
    and "p = 0 \<and> p2 = 0 \<or> 0 < p \<and> x = sqrt_step n p \<and> (p2 = 0 \<or> 0 < p2 \<and> p = sqrt_step n p2)"
  shows "\<exists>r. sqrt_loop n p2 p x = Ok r \<and> r \<in> {isqrt n, Suc (isqrt n)}"
  using assms
proof (induction n p2 p x rule: sqrt_loop.induct)
  case (1 n p2 p x)
  show ?case
  proof (cases "x \<noteq> p \<and> x \<noteq> p2")
    case True
    have "0 < isqrt n" using "1.prems"(1) isqrt_bounds(2) [of n] by (cases "isqrt n") auto
    with sqrt_step_ge [of x n] "1.prems"(2) have "0 < sqrt_step n x" by simp
    then have "\<exists>r. sqrt_loop n p x (sqrt_step n x) = Ok r \<and> r \<in> {isqrt n, Suc (isqrt n)}"
      using True "1.prems" "1.IH" unfolding sqrt_step_def [symmetric] by blast
    with True "1.prems"(2) show ?thesis
      by (simp add: sqrt_loop.simps [of n p2 p x] sqrt_step_def)
  next
    case False
    then have "sqrt_loop n p2 p x = Ok x" by (auto simp: sqrt_loop.simps [of n p2 p x])
    moreover have "x \<in> {isqrt n, Suc (isqrt n)}"
      using False "1.prems" sqrt_step_fixed [of p n] sqrt_step_alternating [of p2 n] by auto
    ultimately show ?thesis by simp
  qed
qed

lemma FloorSquareRoot_isqrt:
  "FloorSquareRoot n = Ok (if n < 0 then 0 else int (isqrt (nat n)))"
proof (cases "0 < n")
  case True
  then obtain r where r: "sqrt_loop (nat n) 0 0 (2 ^ (big_BitLen n div 2)) = Ok r"
    "r \<in> {isqrt (nat n), Suc (isqrt (nat n))}"
    using sqrt_loop_result [of "nat n" "2 ^ (big_BitLen n div 2)" 0 0] by auto
  have "int (isqrt (nat n)) * int (isqrt (nat n)) \<le> n"
    using isqrt_bounds(1) [of "nat n"] True by (metis nat_0_le nat_int_comparison(3) of_nat_mult order_less_imp_le)
  moreover have "n < int (Suc (isqrt (nat n))) * int (Suc (isqrt (nat n)))"
    using isqrt_bounds(2) [of "nat n"] True by (metis nat_0_le nat_int_comparison(2) of_nat_mult order_less_imp_le)
  ultimately show ?thesis
    using True r by (auto simp: FloorSquareRoot_def Multiply_def Sub_def)
next
  case False
  have "isqrt 0 = 0" by (rule isqrt_unique) auto
  with False show ?thesis
    by (cases "n = 0") (simp_all add: FloorSquareRoot_def Multiply_def big_BitLen_def sqrt_loop.simps)
qed

section \<open>Powers modulo N\<close>

text \<open>
  What the validator relies on of \<open>ModPow\<close>, as an interface: exponents of either sign add, multiply
  and distribute modulo \<open>N\<close>. Completeness and special soundness of the two proofs are consequences
  of these laws alone.
\<close>

locale mod_group =
  fixes pow :: "int \<Rightarrow> int \<Rightarrow> int \<Rightarrow> int"
  assumes pow_0: "0 < N \<Longrightarrow> coprime x N \<Longrightarrow> pow x 0 N mod N = 1 mod N"
    and pow_add: "0 < N \<Longrightarrow> coprime x N \<Longrightarrow> pow x (a + b) N mod N = pow x a N * pow x b N mod N"
    and pow_times: "0 < N \<Longrightarrow> coprime x N \<Longrightarrow> pow x (a * b) N mod N = pow (pow x a N) b N mod N"
    and pow_mult: "0 < N \<Longrightarrow> coprime x N \<Longrightarrow> coprime y N \<Longrightarrow> pow (x * y) a N mod N = pow x a N * pow y a N mod N"
    and pow_cong: "0 < N \<Longrightarrow> coprime x N \<Longrightarrow> x mod N = y mod N \<Longrightarrow> pow x a N mod N = pow y a N mod N"
    and pow_unit: "0 < N \<Longrightarrow> coprime x N \<Longrightarrow> coprime (pow x a N) N"
begin

lemma pow_cancel: "0 < N \<Longrightarrow> coprime x N \<Longrightarrow> pow x a N * pow x (- a) N mod N = 1 mod N"
  using pow_add [of N x a "- a"] pow_0 [of N x] by simp

lemma commitment_pow:
  assumes "0 < N" "coprime g N" "coprime h N" and "E mod N = pow g x N * pow h r N mod N"
  shows "pow E a N mod N = pow g (x * a) N * pow h (r * a) N mod N"
proof -
  have "coprime (pow g x N * pow h r N) N" using assms by (simp add: pow_unit)
  then have "pow E a N mod N = pow (pow g x N * pow h r N) a N mod N"
    using pow_cong assms(1,4) by metis
  also have "\<dots> = pow (pow g x N) a N * pow (pow h r N) a N mod N"
    using assms by (simp add: pow_mult pow_unit)
  also have "\<dots> = pow g (x * a) N * pow h (r * a) N mod N"
    using assms pow_times by (metis mod_mult_eq)
  finally show ?thesis .
qed

lemma response_opens:
  assumes N: "0 < N" and g: "coprime g N" and h: "coprime h N" and E: "E mod N = pow g x N * pow h r N mod N"
  shows "pow g (w + c * x) N * pow h (n + c * r) N * pow E (c * - 1) N mod N = pow g w N * pow h n N mod N"
proof -
  have "pow g (w + c * x) N * pow h (n + c * r) N * pow E (c * - 1) N mod N
      = (pow g w N * pow g (c * x) N) * (pow h n N * pow h (c * r) N) * (pow g (- (c * x)) N * pow h (- (c * r)) N) mod N"
    using pow_add [OF N g, of w "c * x"] pow_add [OF N h, of n "c * r"] commitment_pow [OF N g h E, of "c * - 1"]
    by (intro mult_mod_cong) (simp_all add: mult.commute)
  also have "\<dots> = (pow g w N * pow h n N) * ((pow g (c * x) N * pow g (- (c * x)) N) * (pow h (c * r) N * pow h (- (c * r)) N)) mod N"
    by (simp add: ac_simps)
  also have "\<dots> = (pow g w N * pow h n N) * (1 * 1) mod N"
    using pow_cancel [OF N g] pow_cancel [OF N h] by (intro mult_mod_cong) simp_all
  finally show ?thesis by simp
qed

lemma extract_opening:
  assumes N: "0 < N" and g: "coprime g N" and h: "coprime h N" and E: "coprime E N"
    and eq: "pow g D N * pow h R N * pow E (c * - 1) N mod N = pow g D' N * pow h R' N * pow E (c' * - 1) N mod N"
  shows "pow g (D - D') N * pow h (R - R') N mod N = pow E (c - c') N mod N"
proof -
  have step: "pow g (D - D') N * pow h (R - R') N mod N
      = (pow g D N * pow h R N * pow E (c * - 1) N) * (pow g (- D') N * pow h (- R') N * pow E c N) mod N"
  proof -
    have "pow g (D - D') N * pow h (R - R') N mod N
        = (pow g D N * pow g (- D') N) * (pow h R N * pow h (- R') N) mod N"
      using pow_add [OF N g, of D "- D'"] pow_add [OF N h, of R "- R'"]
      by (intro mult_mod_cong) simp_all
    also have "\<dots> = (pow g D N * pow g (- D') N) * (pow h R N * pow h (- R') N) * 1 mod N" by simp
    also have "\<dots> = (pow g D N * pow g (- D') N) * (pow h R N * pow h (- R') N) * (pow E c N * pow E (- c) N) mod N"
      using pow_cancel [OF N E, of c] by (intro mult_mod_cong) simp_all
    also have "\<dots> = (pow g D N * pow h R N * pow E (c * - 1) N) * (pow g (- D') N * pow h (- R') N * pow E c N) mod N"
      by (simp add: ac_simps)
    finally show ?thesis .
  qed
  also have "\<dots> = (pow g D' N * pow h R' N * pow E (c' * - 1) N) * (pow g (- D') N * pow h (- R') N * pow E c N) mod N"
    by (rule mult_mod_cong [OF eq refl])
  also have "\<dots> = (pow g D' N * pow g (- D') N) * (pow h R' N * pow h (- R') N) * (pow E c N * pow E (- c') N) mod N"
    by (simp add: ac_simps)
  also have "\<dots> = 1 * 1 * pow E (c - c') N mod N"
    using pow_cancel [OF N g] pow_cancel [OF N h] pow_add [OF N E, of c "- c'"]
    by (intro mult_mod_cong) simp_all
  finally show ?thesis by simp
qed

end

text \<open>The laws hold for \<open>ModPow\<close>.\<close>

lemma ModPow_nonneg: "0 < N \<Longrightarrow> ModPow g (int n) N = g ^ n mod N"
  by (simp add: ModPow_def big_Exp_pos)

lemma ModPow_shift:
  assumes "0 < N" "coprime g N" and "0 \<le> e + int m"
  shows "ModPow g e N * g ^ m mod N = g ^ nat (e + int m) mod N"
proof (cases "0 \<le> e")
  case True
  then show ?thesis
    using assms by (simp add: ModPow_def big_Exp_pos nat_add_distrib power_add mod_mult_left_eq)
next
  case False
  define k where "k = nat (- e)"
  have e: "e = - int k" using False by (simp add: k_def)
  with assms(3) have km: "k \<le> m" by simp
  have m: "g ^ m = g ^ k * g ^ nat (e + int m)"
    using km e by (simp add: nat_diff_distrib flip: power_add)
  have "coprime (g ^ k mod N) N" using assms by simp
  then have "ModPow g e N * g ^ k mod N = 1 mod N"
    using ModInverse_correct [of "g ^ k mod N" N] assms(1) False e
    by (simp add: ModPow_def ModInverse_def big_Exp_pos mod_mult_right_eq)
  then have "ModPow g e N * g ^ k * g ^ nat (e + int m) mod N = 1 * g ^ nat (e + int m) mod N"
    by (intro mult_mod_cong) simp_all
  then show ?thesis by (simp add: m mult.assoc)
qed

lemma ModPow_unit:
  assumes "0 < N" "coprime g N"
  shows "coprime (ModPow g e N) N"
  using assms by (auto simp: ModPow_def big_Exp_pos ModInverse_def coprime_ModInverse)

lemma ModPow_unique:
  assumes "0 < N" "coprime g N" and "z * g ^ m mod N = g ^ nat (e + int m) mod N" and "0 \<le> e + int m"
  shows "z mod N = ModPow g e N mod N"
proof (rule mod_cancel_coprime [of "g ^ m"])
  show "coprime (g ^ m) N" using assms(2) by simp
  show "z * g ^ m mod N = ModPow g e N * g ^ m mod N"
    using ModPow_shift [OF assms(1,2,4)] assms(3) by simp
qed

lemma ModPow_add:
  assumes "0 < N" "coprime g N"
  shows "ModPow g (a + b) N mod N = ModPow g a N * ModPow g b N mod N"
proof -
  let ?i = "nat \<bar>a\<bar>" and ?j = "nat \<bar>b\<bar>"
  have "ModPow g a N * ModPow g b N * g ^ (?i + ?j) mod N
      = (ModPow g a N * g ^ ?i) * (ModPow g b N * g ^ ?j) mod N"
    by (simp add: power_add ac_simps)
  also have "\<dots> = g ^ nat (a + int ?i) * g ^ nat (b + int ?j) mod N"
    using assms by (intro mult_mod_cong ModPow_shift) auto
  also have "\<dots> = g ^ nat (a + b + int (?i + ?j)) mod N"
    by (simp add: flip: power_add nat_add_distrib) (simp add: ac_simps)
  finally show ?thesis
    using assms by (intro ModPow_unique [where m = "?i + ?j", symmetric]) auto
qed

lemma ModPow_mult:
  assumes "0 < N" "coprime x N" "coprime y N"
  shows "ModPow (x * y) a N mod N = ModPow x a N * ModPow y a N mod N"
proof -
  let ?i = "nat \<bar>a\<bar>"
  have "ModPow x a N * ModPow y a N * (x * y) ^ ?i mod N
      = (ModPow x a N * x ^ ?i) * (ModPow y a N * y ^ ?i) mod N"
    by (simp add: power_mult_distrib ac_simps)
  also have "\<dots> = x ^ nat (a + int ?i) * y ^ nat (a + int ?i) mod N"
    using assms by (intro mult_mod_cong ModPow_shift) auto
  finally show ?thesis
    using assms by (intro ModPow_unique [where m = ?i, symmetric]) (auto simp: power_mult_distrib)
qed

lemma ModPow_cong:
  assumes "x mod N = y mod N" and "0 < N"
  shows "ModPow x a N = ModPow y a N"
  using power_mod_cong [OF assms(1)] assms(2) by (simp add: ModPow_def big_Exp_pos)

lemma ModPow_0: "0 < N \<Longrightarrow> ModPow x 0 N mod N = 1 mod N"
  using ModPow_nonneg [of N x 0] by simp

lemma ModPow_power:
  assumes "0 < N" "coprime g N"
  shows "ModPow g (a * int n) N mod N = ModPow g a N ^ n mod N"
proof (induction n)
  case 0
  then show ?case using assms by (simp add: ModPow_0)
next
  case (Suc n)
  have "ModPow g (a * int (Suc n)) N mod N = ModPow g a N * ModPow g (a * int n) N mod N"
    using ModPow_add [OF assms, of a "a * int n"] by (simp add: algebra_simps)
  also have "\<dots> = ModPow g a N * ModPow g a N ^ n mod N"
    using Suc by (intro mult_mod_cong) simp_all
  finally show ?case by simp
qed

lemma ModPow_times:
  assumes "0 < N" "coprime g N"
  shows "ModPow g (a * b) N mod N = ModPow (ModPow g a N) b N mod N"
proof -
  let ?m = "nat \<bar>b\<bar>"
  have "ModPow g (a * b) N * ModPow g a N ^ ?m mod N = ModPow g (a * b) N * ModPow g (a * int ?m) N mod N"
    using ModPow_power [OF assms, of a ?m] by (intro mult_mod_cong) simp_all
  also have "\<dots> = ModPow g (a * int (nat (b + int ?m))) N mod N"
    using ModPow_add [OF assms, of "a * b" "a * int ?m"] by (simp add: distrib_left)
  also have "\<dots> = ModPow g a N ^ nat (b + int ?m) mod N"
    using ModPow_power [OF assms, of a "nat (b + int ?m)"] by simp
  finally show ?thesis
    using assms by (intro ModPow_unique [where m = ?m]) (auto simp: ModPow_unit)
qed

lemma ModPow_cong_mod:
  "0 < N \<Longrightarrow> coprime x N \<Longrightarrow> x mod N = y mod N \<Longrightarrow> ModPow x a N mod N = ModPow y a N mod N"
  using ModPow_cong [of x N y a] by simp

interpretation zn: mod_group ModPow
  by unfold_locales
    (erule ModPow_0, erule (1) ModPow_add, erule (1) ModPow_times, erule (2) ModPow_mult,
      erule (2) ModPow_cong_mod, erule (1) ModPow_unit)

section \<open>What the validator checks\<close>

text \<open>
  The checks without the sequencing of the code: the first messages recomputed from a transcript,
  the challenge that hashing them must give, and the interval for the response of the CFT proof.
\<close>

definition first_message :: "int \<Rightarrow> int \<Rightarrow> int \<Rightarrow> int \<Rightarrow> int \<Rightarrow> int \<Rightarrow> int \<Rightarrow> int" where
  "first_message N g h E c D R = ModPow g D N * ModPow h R N * ModPow E (c * - 1) N mod N"

definition challenge :: "digest \<Rightarrow> byte list \<Rightarrow> int option" where
  "challenge sha bs = (if sha bs = [] then None else Some (signed_value (sha bs)))"

definition ec_accepts :: "digest \<Rightarrow> int \<Rightarrow> int \<Rightarrow> int \<Rightarrow> int \<Rightarrow> int \<Rightarrow> int \<Rightarrow> int \<Rightarrow> int list \<Rightarrow> bool" where
  "ec_accepts sha N g1 g2 h1 h2 E F pf \<longleftrightarrow>
     challenge sha (ToByteArray (first_message N g1 h1 E (pf ! 0) (pf ! 1) (pf ! 2)) @
                    ToByteArray (first_message N g2 h2 F (pf ! 0) (pf ! 1) (pf ! 3))) = Some (pf ! 0)"

definition cft_accepts :: "digest \<Rightarrow> int \<Rightarrow> int \<Rightarrow> int \<Rightarrow> int \<Rightarrow> int \<Rightarrow> int list \<Rightarrow> bool" where
  "cft_accepts sha b N g h E pf \<longleftrightarrow>
     challenge sha (ToByteArray (first_message N g h E (pf ! 0 mod 2 ^ 128) (pf ! 1) (pf ! 2)))
       = Some (pf ! 0) \<and>
     b * (pf ! 0 mod 2 ^ 128) \<le> pf ! 1 \<and> pf ! 1 \<le> b * 2 ^ 168"

definition quot_mod :: "int \<Rightarrow> int \<Rightarrow> int \<Rightarrow> int" where
  "quot_mod a b N = a * big_ModInverse b N mod N"

definition tolerance_accepts :: "digest \<Rightarrow> int \<Rightarrow> int \<Rightarrow> int list \<Rightarrow> int list \<Rightarrow> bool" where
  "tolerance_accepts sha lo up com pf \<longleftrightarrow>
     (let c = com ! 0; N = com ! 1; g = com ! 2; h = com ! 3;
          b = (if up < lo then 0 else int (isqrt (nat (4 * (up - lo)))))
      in 4 \<le> length com \<and> 18 \<le> length pf \<and> 0 < N \<and>
         ec_accepts sha N g (pf ! 2) h h (pf ! 2) (pf ! 0) (subslice pf 3 7) \<and>
         ec_accepts sha N g (pf ! 7) h h (pf ! 7) (pf ! 1) (subslice pf 8 12) \<and>
         cft_accepts sha b N g h (quot_mod (quot_mod c (ModPow g lo N) N) (pf ! 0) N) (subslice pf 12 15) \<and>
         cft_accepts sha b N g h (quot_mod (quot_mod (ModPow g up N) c N) (pf ! 1) N) (subslice pf 15 18))"

lemma CalculateHash_alt:
  "CalculateHash sha b1 b2 =
     (case challenge sha (ToByteArray b1 @ (case b2 of None \<Rightarrow> [] | Some b \<Rightarrow> ToByteArray b)) of
        None \<Rightarrow> Err ErrEmptyArray | Some c \<Rightarrow> Ok c)"
  by (simp add: CalculateHash_def challenge_def FromByteArray_signed) (simp add: FromByteArray_def)

lemma DivMod_quot_mod: "0 < N \<Longrightarrow> DivMod a b N = Ok (quot_mod a b N)"
  by (simp add: DivMod_def Mod_def Multiply_def ModInverse_def quot_mod_def)

lemma HPAKE_EC_accepts:
  assumes "0 < N" and "4 \<le> length pf"
  shows "HPAKEEqualityConstraintValidateZeroKnowledgeProof sha N g1 g2 h1 h2 E F pf
    = Ok (ec_accepts sha N g1 g2 h1 h2 E F pf)"
proof -
  obtain C D D1 D2 r where "pf = C # D # D1 # D2 # r"
    using assms(2) by (auto simp: numeral_eq_Suc Suc_le_length_iff)
  with assms(1) show ?thesis
    by (auto simp: Mod_def Multiply_def CalculateHash_alt ec_accepts_def first_message_def
        split: option.split)
qed

lemma HPAKESquare_accepts:
  assumes "0 < N" and "5 \<le> length pf"
  shows "HPAKESquareValidateZeroKnowledgeProof sha N g h E pf
    = Ok (ec_accepts sha N g (pf ! 0) h h (pf ! 0) E (tl pf))"
  using assms HPAKE_EC_accepts by (cases pf) auto

lemma CFT_accepts:
  assumes "0 < N" and "3 \<le> length pf"
  shows "CFTValidateZeroKnowledgeProof sha b N g h E pf = Ok (cft_accepts sha b N g h E pf)"
proof -
  obtain C D1 D2 r where "pf = C # D1 # D2 # r"
    using assms(2) by (auto simp: numeral_eq_Suc Suc_le_length_iff)
  with assms(1) show ?thesis
    by (auto simp: Mod_def Multiply_def CalculateHash_alt cft_accepts_def first_message_def
        t_param_def l_param_def split: option.split)
qed

lemma subslice_facts:
  assumes "18 \<le> length pf"
  shows "subslice pf 2 7 ! 0 = pf ! 2" "tl (subslice pf 2 7) = subslice pf 3 7"
    and "subslice pf 7 12 ! 0 = pf ! 7" "tl (subslice pf 7 12) = subslice pf 8 12"
    and "length (subslice pf 2 7) = 5" "length (subslice pf 7 12) = 5"
    and "length (subslice pf 12 15) = 3" "length (subslice pf 15 18) = 3"
proof -
  show "subslice pf 2 7 ! 0 = pf ! 2" "subslice pf 7 12 ! 0 = pf ! 7"
    using assms by (simp_all add: subslice_def)
  show "tl (subslice pf 2 7) = subslice pf 3 7" "tl (subslice pf 7 12) = subslice pf 8 12"
    by (simp_all add: subslice_def tl_take tl_drop numeral_eq_Suc drop_Suc)
qed (use assms in \<open>simp_all add: length_subslice\<close>)

lemma ValidateProofWithTolerance_accepts:
  "ValidateProofWithTolerance sha lo up com pf = Ok (tolerance_accepts sha lo up com pf)"
proof (cases "4 \<le> length com \<and> 18 \<le> length pf \<and> 0 < com ! 1")
  case True
  then show ?thesis
    by (simp add: ValidateProofWithTolerance_def tolerance_accepts_def Let_def DivMod_quot_mod
        HPAKESquare_accepts CFT_accepts subslice_facts FloorSquareRoot_isqrt ShiftLeft_def Multiply_def
        Sub_def) (simp add: mult.commute)
next
  case False
  then show ?thesis
    by (auto simp: ValidateProofWithTolerance_def tolerance_accepts_def Let_def)
qed

text \<open>The scaling of \<open>ValidateRangeProof\<close>.\<close>

definition scale :: "int \<Rightarrow> int \<Rightarrow> nat" where
  "scale lo up = 338 + big_BitLen (up - lo)"

definition scaled_commitment :: "int \<Rightarrow> int \<Rightarrow> int list \<Rightarrow> int list" where
  "scaled_commitment lo up com = com[0 := (com ! 0) ^ (2 ^ scale lo up) mod \<bar>com ! 1\<bar>]"

lemma ValidateRangeProof_alt:
  "ValidateRangeProof sha lo up com pf =
     (if length com < 4 \<or> length pf < 18 then Ok (False, com)
      else Ok (tolerance_accepts sha (lo * 2 ^ scale lo up) (up * 2 ^ scale lo up)
                 (scaled_commitment lo up com) pf, scaled_commitment lo up com))"
  by (simp add: ValidateRangeProof_def Let_def ValidateProofWithTolerance_accepts ShiftLeft_def
      Multiply_def Sub_def scale_def scaled_commitment_def ModPow_def big_Exp_def t_param_def l_param_def
      nat_power_eq)

lemma BitLen_power:
  assumes "2 \<le> c"
  shows "n < big_BitLen (c ^ n)"
proof (rule ccontr)
  assume "\<not> n < big_BitLen (c ^ n)"
  then have "nat \<bar>c ^ n\<bar> < 2 ^ n"
    by (simp add: big_BitLen_def not_less nat_bitlen_le_iff)
  moreover have "2 ^ n \<le> c ^ n" using assms by (intro power_mono) auto
  ultimately show False
    using assms by (simp add: nat_less_iff power_abs)
qed

section \<open>Zero as a group element\<close>

text \<open>
  Zero has no inverse, and the arithmetic of the validator takes 0 for it: so 0 absorbs every first
  message it occurs in, and the quotient by 0 is 0.
\<close>

lemma ModPow_zero: "0 < N \<Longrightarrow> c \<noteq> 0 \<Longrightarrow> ModPow 0 c N = 0"
  by (auto simp: ModPow_def big_Exp_pos ModInverse_def ModInverse_0 power_0_left)

lemma first_message_zero: "0 < N \<Longrightarrow> c \<noteq> 0 \<Longrightarrow> first_message N g h 0 c D R = 0"
  by (simp add: first_message_def ModPow_zero)

lemma quot_mod_zero: "quot_mod a 0 N = 0"
  by (simp add: quot_mod_def ModInverse_0)

definition forged_proof :: "int \<Rightarrow> int \<Rightarrow> int \<Rightarrow> int list" where
  "forged_proof C C' D1 = [0, 0, 0, C, 0, 0, 0, 0, C, 0, 0, 0, C', D1, 0, C', D1, 0]"

lemma forged_tolerance:
  assumes "0 < N" and "challenge sha [0, 0] = Some C" "C \<noteq> 0" and "challenge sha [0] = Some C'" "C' mod 2 ^ 128 \<noteq> 0"
    and b: "b = (if up < lo then 0 else int (isqrt (nat (4 * (up - lo)))))"
  shows "tolerance_accepts sha lo up [c, N, g, h] (forged_proof C C' (b * (C' mod 2 ^ 128)))"
proof -
  have "0 \<le> b" unfolding b by simp
  moreover have "C' mod 2 ^ 128 \<le> 2 ^ 168"
    using pos_mod_bound [of "2 ^ 128" C'] by simp
  ultimately have "b * (C' mod 2 ^ 128) \<le> b * 2 ^ 168" by (intro mult_left_mono)
  with assms show ?thesis
    unfolding tolerance_accepts_def Let_def b [symmetric]
    by (simp add: forged_proof_def subslice_def ec_accepts_def cft_accepts_def first_message_zero quot_mod_zero)
qed

section \<open>Properties\<close>

text \<open>The bytes that the CFT validator hashes are those of the first message that it recomputes.\<close>

lemma FromByteArray_ToByteArray: "FromByteArray (ToByteArray x) = Ok x"
  using FromByteArray_signed [of "ToByteArray x"] by (simp add: ToByteArray_signed_length)

lemma ToByteArray_inject: "ToByteArray x = ToByteArray y \<longleftrightarrow> x = y"
  by (metis FromByteArray_ToByteArray outcome.inject(1))

lemma cft_query:
  assumes "0 < N" "\<And>sha. CFTValidateZeroKnowledgeProof sha b N g h E [C, D1, D2] = Ok True \<longleftrightarrow> FromByteArray (sha q) = Ok C"
  shows "q = ToByteArray (ModPow g D1 N * ModPow h D2 N * ModPow E (C mod 2 ^ 128 * - 1) N mod N)"
    "b * (C mod 2 ^ 128) \<le> D1" "D1 \<le> b * 2 ^ 168"
proof -
  let ?W = "ModPow g D1 N * ModPow h D2 N * ModPow E (C mod 2 ^ 128 * - 1) N mod N"
  have cft: "CFTValidateZeroKnowledgeProof sha b N g h E [C, D1, D2] = Ok True \<longleftrightarrow>
      FromByteArray (sha (ToByteArray ?W)) = Ok C \<and> b * (C mod 2 ^ 128) \<le> D1 \<and> D1 \<le> b * 2 ^ 168" for sha
    using assms(1) by (cases "FromByteArray (sha (ToByteArray ?W))")
      (auto simp: Mod_def big_Mod_def Multiply_def CalculateHash_def t_param_def l_param_def)
  have "FromByteArray (ToByteArray C) = Ok C" by (rule FromByteArray_ToByteArray)
  then show "b * (C mod 2 ^ 128) \<le> D1" "D1 \<le> b * 2 ^ 168" using cft assms(2) [of "\<lambda>_. ToByteArray C"] by auto
  show "q = ToByteArray ?W"
  proof (rule ccontr)
    assume "q \<noteq> ToByteArray ?W"
    then show False
      using cft [of "\<lambda>x. ToByteArray (if x = q then C else C + 1)"] assms(2) [of "\<lambda>x. ToByteArray (if x = q then C else C + 1)"]
      by (simp add: FromByteArray_ToByteArray)
  qed
qed

lemma cft_bound_nonneg:
  assumes "b * c \<le> D" "D \<le> b * 2 ^ 168" "0 \<le> c" "c < 2 ^ 128"
  shows "0 \<le> (D :: int)"
proof -
  have "b * c \<le> b * 2 ^ 168" using assms by simp
  moreover have "c < 2 ^ 168" using assms(4) by simp
  ultimately have "0 \<le> b" by (metis mult_le_cancel_left not_le)
  then show ?thesis using assms(1,3) by (meson mult_nonneg_nonneg order_trans)
qed

text \<open>C12: The validator can be made to accept without any knowledge: the proof whose commitments are 0
  and whose challenges are the digests of the zero bytes is accepted for every commitment, every
  positive modulus and every range, since no commitment of the proof is tested for being 0 or for
  having an inverse.\<close>

theorem zero_proof_accepted:
  assumes "0 < N" and "FromByteArray (sha [0, 0]) = Ok C" "C \<noteq> 0"
    and "FromByteArray (sha [0]) = Ok C'" "C' mod 2 ^ 128 \<noteq> 0"
  shows "\<exists>D1 com'. ValidateRangeProof sha lo up [c, N, g, h]
    [0, 0, 0, C, 0, 0, 0, 0, C, 0, 0, 0, C', D1, 0, C', D1, 0] = Ok (True, com')"
proof -
  let ?lo = "lo * 2 ^ scale lo up" and ?up = "up * 2 ^ scale lo up"
  define b where "b = (if ?up < ?lo then 0 else int (isqrt (nat (4 * (?up - ?lo)))))"
  have "challenge sha [0, 0] = Some C" "challenge sha [0] = Some C'"
    using assms(2,4) by (auto simp: challenge_def FromByteArray_signed) (simp_all add: FromByteArray_def)
  then have "tolerance_accepts sha ?lo ?up (scaled_commitment lo up [c, N, g, h])
      (forged_proof C C' (b * (C' mod 2 ^ 128)))"
    using forged_tolerance [OF assms(1) _ assms(3) _ assms(5) b_def] by (simp add: scaled_commitment_def)
  then show ?thesis
    unfolding forged_proof_def by (intro exI) (simp add: ValidateRangeProof_alt)
qed

theorem zero_proof_accepted_witness:
  "\<exists>D1 com'. ValidateRangeProof (\<lambda>bs. replicate 32 1) 18 200 [1000, 35, 4, 9]
    [0, 0, 0, big_SetBytes (replicate 32 1), 0, 0, 0, 0, big_SetBytes (replicate 32 1), 0, 0, 0,
     big_SetBytes (replicate 32 1), D1, 0, big_SetBytes (replicate 32 1), D1, 0] = Ok (True, com')"
  by (rule zero_proof_accepted) code_simp+

text \<open>C32: \<open>FloorSquareRoot\<close> returns on every non-negative input, without dividing by zero, and its
  result is the integer part of the square root.\<close>

theorem floor_square_root_exact:
  assumes "0 \<le> n"
  shows "\<exists>r. FloorSquareRoot n = Ok r \<and> 0 \<le> r \<and> r * r \<le> n \<and> n < (r + 1) * (r + 1)"
proof -
  let ?s = "isqrt (nat n)"
  have "int (?s * ?s) \<le> n" "n < int (Suc ?s * Suc ?s)"
    using isqrt_bounds [of "nat n"] assms by (simp_all only: le_nat_iff nat_less_iff)
  then show ?thesis
    using assms by (intro exI [of _ "int ?s"]) (simp add: FloorSquareRoot_isqrt algebra_simps)
qed

theorem floor_square_root_exact_witness:
  "\<exists>r. FloorSquareRoot 99 = Ok r \<and> 0 \<le> r \<and> r * r \<le> 99 \<and> 99 < (r + 1) * (r + 1)"
  by (rule floor_square_root_exact) simp

text \<open>C31: \<open>ValidateRangeProof\<close> returns a verdict on every input whose lists are too short or whose modulus is not zero: no commitment, proof or
  range makes an index, a slice or a division fail, and the number that it writes to the commitment, the power of
  exponent \<open>2\<^sup>T\<close>, is below the modulus. (With modulus zero the power is not reduced, and cannot be computed for commitment values
  other than -1, 0 and 1.)\<close>

theorem validate_returns:
  assumes "length com < 4 \<or> length pf < 18 \<or> com ! 1 \<noteq> 0"
  shows "\<exists>verdict com'. ValidateRangeProof sha lo up com pf = Ok (verdict, com') \<and>
    length com' = length com \<and> tl com' = tl com \<and> (com' = com \<or> 0 \<le> com' ! 0 \<and> com' ! 0 < \<bar>com ! 1\<bar>)"
proof (cases "length com < 4 \<or> length pf < 18")
  case False
  then obtain c rest where c: "com = c # rest" by (cases com) auto
  have "com ! 1 \<noteq> 0" using False assms by simp
  then show ?thesis using False by (auto simp: ValidateRangeProof_alt scaled_commitment_def c)
qed (auto simp: ValidateRangeProof_alt)

theorem validate_returns_witness:
  "\<exists>verdict com'. ValidateRangeProof (\<lambda>bs. [last bs]) 0 5 [2, - 11, 3, 2] (replicate 18 7) = Ok (verdict, com') \<and>
    length com' = length [2 :: int, - 11, 3, 2] \<and> tl com' = tl [2, - 11, 3, 2] \<and>
    (com' = [2, - 11, 3, 2] \<or> 0 \<le> com' ! 0 \<and> com' ! 0 < \<bar>[2, - 11, 3, 2] ! 1\<bar>)"
  by (rule validate_returns) simp

text \<open>C8: The verdict is the conjunction of Boudot's checks on the scaled commitment and range: the
  lengths, a positive modulus, the two square proofs, and the two CFT proofs with the bound
  \<open>floor (2 sqrt (b - a))\<close>; nothing else is accepted and nothing else is rejected.\<close>

theorem validate_verdict:
  "(\<exists>com'. ValidateRangeProof sha lo up com pf = Ok (True, com')) \<longleftrightarrow>
     tolerance_accepts sha (lo * 2 ^ scale lo up) (up * 2 ^ scale lo up) (scaled_commitment lo up com) pf"
  by (auto simp: ValidateRangeProof_alt tolerance_accepts_def Let_def scaled_commitment_def)

text \<open>C14: Special soundness of the CFT proof. The first message of a proof \<open>[C, D1, D2]\<close> is known to the validator only through
  the bytes \<open>q\<close> that it hashes: whatever the digest is, it accepts exactly when the digest of \<open>q\<close> is \<open>C\<close>. Two proofs for the same
  commitment \<open>E\<close> whose first message is the same, but whose challenges may differ, open \<open>E\<close>: with \<open>c\<close> and \<open>c'\<close> the challenges
  modulo \<open>2\<^sup>1\<^sup>2\<^sup>8\<close>, \<open>E^(c - c')\<close> is \<open>g^(D1 - D1') h^(D2 - D2')\<close> modulo \<open>N\<close>, and the exponent of \<open>g\<close> is at most \<open>b 2\<^sup>1\<^sup>6\<^sup>8\<close>.\<close>

theorem cft_special_soundness:
  assumes "0 < N" and "coprime g N" "coprime h N" "coprime E N"
    and "\<And>sha. CFTValidateZeroKnowledgeProof sha b N g h E [C, D1, D2] = Ok True \<longleftrightarrow> FromByteArray (sha q) = Ok C"
    and "\<And>sha. CFTValidateZeroKnowledgeProof sha b N g h E [C', D1', D2'] = Ok True \<longleftrightarrow> FromByteArray (sha q) = Ok C'"
  shows "ModPow E (C mod 2 ^ 128 - C' mod 2 ^ 128) N mod N = ModPow g (D1 - D1') N * ModPow h (D2 - D2') N mod N \<and>
    \<bar>D1 - D1'\<bar> \<le> b * 2 ^ 168"
proof -
  note c = cft_query [OF assms(1,5)] and c' = cft_query [OF assms(1,6)]
  have "ModPow g D1 N * ModPow h D2 N * ModPow E (C mod 2 ^ 128 * - 1) N mod N
      = ModPow g D1' N * ModPow h D2' N * ModPow E (C' mod 2 ^ 128 * - 1) N mod N"
    using c(1) c'(1) by (metis ToByteArray_inject)
  then have "ModPow E (C mod 2 ^ 128 - C' mod 2 ^ 128) N mod N = ModPow g (D1 - D1') N * ModPow h (D2 - D2') N mod N"
    using assms(1-4) by (intro zn.extract_opening [symmetric])
  moreover have "0 \<le> D1" "0 \<le> D1'" using c c' cft_bound_nonneg [of b "C mod 2 ^ 128" D1] cft_bound_nonneg [of b "C' mod 2 ^ 128" D1'] by auto
  ultimately show ?thesis using c(3) c'(3) by auto
qed

theorem cft_special_soundness_witness:
  "ModPow 6 (5 mod 2 ^ 128 - 7 mod 2 ^ 128) 11 mod 11 = ModPow 2 (6 - 8) 11 * ModPow 3 (6 - 8) 11 mod 11 \<and> \<bar>6 - 8\<bar> \<le> 1 * (2 :: int) ^ 168"
proof (rule cft_special_soundness [where q = "ToByteArray 6"])
  have p: "ModPow 2 6 11 = 9" "ModPow 3 6 11 = 3" "ModPow 6 (- 5) 11 = 10" "ModPow 2 8 11 = 3" "ModPow 3 8 11 = 5" "ModPow 6 (- 7) 11 = 7"
    by code_simp+
  show "CFTValidateZeroKnowledgeProof sha 1 11 2 3 6 [5, 6, 6] = Ok True \<longleftrightarrow> FromByteArray (sha (ToByteArray 6)) = Ok 5"
    "CFTValidateZeroKnowledgeProof sha 1 11 2 3 6 [7, 8, 8] = Ok True \<longleftrightarrow> FromByteArray (sha (ToByteArray 6)) = Ok 7" for sha
    by (cases "FromByteArray (sha (ToByteArray 6))"; auto simp: Mod_def big_Mod_def Multiply_def CalculateHash_def t_param_def l_param_def p)+
  show "coprime 2 (11 :: int)" "coprime 3 (11 :: int)" "coprime 6 (11 :: int)" by code_simp+
qed simp

text \<open>A call overwrites the caller's commitment value with its \<open>2^T\<close>-th power: the slice
  \<open>commitmentPrime\<close> is not a copy. So validating the same slices again checks another number.\<close>

theorem validate_overwrites_commitment:
  assumes "4 \<le> length com" and "18 \<le> length pf"
  shows "\<exists>verdict. ValidateRangeProof sha lo up com pf
    = Ok (verdict, com[0 := (com ! 0) ^ (2 ^ (338 + big_BitLen (up - lo))) mod \<bar>com ! 1\<bar>])"
  using assms by (simp add: ValidateRangeProof_alt scaled_commitment_def scale_def)

theorem validate_overwrites_commitment_witness:
  "\<exists>verdict. ValidateRangeProof (\<lambda>bs. [last bs]) 0 0 [2, 11, 3, 2]
      [1, 1, 1, 1, 0, 0, 0, 1, 1, 0, 0, 0, 1, 0, 4, 1, 0, 6]
    = Ok (verdict, [2, 11, 3, 2][0 := ([2, 11, 3, 2] ! 0) ^ (2 ^ (338 + big_BitLen (0 - 0))) mod \<bar>[2, 11, 3, 2] ! 1\<bar>])"
  by (rule validate_overwrites_commitment) simp_all

text \<open>The same call with the same slices can accept first and reject afterwards: the first
  validation replaced the commitment value 2 by 5, and the second one by 9.\<close>

theorem validate_twice_differs:
  "ValidateRangeProof (\<lambda>bs. [last bs]) 0 0 [2, 11, 3, 2]
     [1, 1, 1, 1, 0, 0, 0, 1, 1, 0, 0, 0, 1, 0, 4, 1, 0, 6] = Ok (True, [5, 11, 3, 2]) \<and>
   ValidateRangeProof (\<lambda>bs. [last bs]) 0 0 [5, 11, 3, 2]
     [1, 1, 1, 1, 0, 0, 0, 1, 1, 0, 0, 0, 1, 0, 4, 1, 0, 6] = Ok (False, [9, 11, 3, 2])"
  by code_simp

text \<open>The modulus is tested only after the commitment value was raised to the power \<open>2^T\<close>
  modulo it. With modulus 0 that power is not reduced: for a commitment value of at least 2 it has
  more than \<open>2^338\<close> bits.\<close>

theorem validate_zero_modulus_blowup:
  assumes "4 \<le> length com" "18 \<le> length pf" and "com ! 1 = 0" "2 \<le> com ! 0"
    and "ValidateRangeProof sha lo up com pf = Ok (verdict, com')"
  shows "2 ^ 338 < big_BitLen (com' ! 0)"
proof -
  have "com' ! 0 = (com ! 0) ^ (2 ^ scale lo up)"
    using assms by (cases com) (auto simp: ValidateRangeProof_alt scaled_commitment_def)
  then have "2 ^ scale lo up < big_BitLen (com' ! 0)"
    using assms(4) by (simp add: BitLen_power)
  moreover have "(2::nat) ^ 338 \<le> 2 ^ scale lo up"
    unfolding scale_def by (intro power_increasing) simp_all
  ultimately show ?thesis by linarith
qed

theorem validate_zero_modulus_blowup_witness:
  "\<exists>verdict com'. ValidateRangeProof (\<lambda>bs. [1]) 0 1 [2, 0, 1, 1] (replicate 18 0) = Ok (verdict, com')
     \<and> 2 ^ 338 < big_BitLen (com' ! 0)"
proof -
  obtain verdict com' where
    "ValidateRangeProof (\<lambda>bs. [1]) 0 1 [2, 0, 1, 1] (replicate 18 0) = Ok (verdict, com')"
    by (auto simp: ValidateRangeProof_alt)
  with validate_zero_modulus_blowup [OF _ _ _ _ this] show ?thesis by simp
qed

end
