(* ===== verification/RangeProver.thy ===== *)
theory RangeProver
  imports ZKRangeProof
begin

text \<open>
  The Java prover of the repository (\<open>com.ing.blockchain.zk\<close>), whose proofs the Go validator
  receives: commitments, the equality, square and CFT proofs, the proof with tolerance, the range
  proof, and the text the demo server exports. The Java validators are modelled beside the provers.

  A \<open>BigInteger\<close> is an integer; an exception is the error of an \<open>outcome\<close>. The random numbers of
  \<open>BigIntegers.createRandomInRange\<close> (Bouncy Castle) are the parameter \<open>rand\<close>: \<open>rand n lo hi\<close> is
  what the call number \<open>n\<close> returns for the bounds \<open>lo\<close> and \<open>hi\<close>, and the number of calls made so
  far is threaded through the provers. SHA-256 is the parameter \<open>sha\<close>. The loop of the CFT prover
  draws until a response is in range, so it is a partial function.
\<close>

section \<open>BigInteger\<close>

datatype java_error = ArithmeticException | IllegalArgumentException | ZeroKnowledgeException

definition java_bitLength :: "int \<Rightarrow> nat" where
  "java_bitLength x = (if x < 0 then int_bitlen (- x - 1) else int_bitlen x)"

definition java_toByteArray :: "int \<Rightarrow> byte list" where
  "java_toByteArray x = be_bytes (java_bitLength x div 8 + 1) x"

definition java_mod :: "int \<Rightarrow> int \<Rightarrow> (java_error, int) outcome" where
  "java_mod x m = (if m \<le> 0 then Err ArithmeticException else Ok (x mod m))"

definition java_modInverse :: "int \<Rightarrow> int \<Rightarrow> (java_error, int) outcome" where
  "java_modInverse x m =
     (if m \<le> 0 \<or> \<not> coprime x m then Err ArithmeticException else Ok (big_ModInverse x m mod m))"

definition java_modPow :: "int \<Rightarrow> int \<Rightarrow> int \<Rightarrow> (java_error, int) outcome" where
  "java_modPow x e m =
     (if m \<le> 0 then Err ArithmeticException
      else if 0 \<le> e then Ok (big_Exp x e m)
      else bind_outcome (java_modInverse x m) (\<lambda>i. Ok (big_Exp i (- e) m)))"

section \<open>Data\<close>

record SecretOrderGroup =
  getN :: int
  getG :: int
  getH :: int

record Commitment =
  getGroup :: SecretOrderGroup
  getCommitmentValue :: int

record TTPMessage =
  getCommitment :: Commitment
  getX :: int
  getY :: int

record ClosedRange =
  getStart :: int
  getEnd :: int

record ECProof =
  ec_getC :: int
  ec_getD :: int
  ec_getD1 :: int
  ec_getD2 :: int

record SquareProof =
  getF :: int
  getECProof :: ECProof

record CFTProof =
  cft_getC :: int
  cft_getD1 :: int
  cft_getD2 :: int

record BoudotRangeProof =
  getCLeftSquare :: int
  getCRightSquare :: int
  getSqrProofLeft :: SquareProof
  getSqrProofRight :: SquareProof
  getCftProofLeft :: CFTProof
  getCftProofRight :: CFTProof

definition ClosedRange_contains :: "ClosedRange \<Rightarrow> int \<Rightarrow> bool" where
  "ClosedRange_contains rng n \<longleftrightarrow> getStart rng \<le> n \<and> n \<le> getEnd rng"

section \<open>Utilities\<close>

type_synonym randomness = "nat \<Rightarrow> int \<Rightarrow> int \<Rightarrow> int"

definition createRandomInRange ::
  "randomness \<Rightarrow> int \<Rightarrow> int \<Rightarrow> nat \<Rightarrow> (java_error, int \<times> nat) outcome" where
  "createRandomInRange rand lo hi n =
     (if hi < lo then Err IllegalArgumentException else Ok (rand n lo hi, Suc n))"

definition randomSignedInt :: "randomness \<Rightarrow> int \<Rightarrow> nat \<Rightarrow> (java_error, int \<times> nat) outcome" where
  "randomSignedInt rand maxAbsoluteValue n =
     createRandomInRange rand (- maxAbsoluteValue) maxAbsoluteValue n"

definition approximateSquareRoot :: "int \<Rightarrow> (java_error, int) outcome" where
  "approximateSquareRoot input =
     (if input < 1 then Ok 0
      else case sqrt_loop (nat input) 0 0 (2 ^ (java_bitLength input div 2)) of
             Ok approx \<Rightarrow> Ok (int approx)
           | _ \<Rightarrow> Err ArithmeticException)"

definition floorSquareRoot :: "int \<Rightarrow> (java_error, int) outcome" where
  "floorSquareRoot input =
     (if input < 0 then Err IllegalArgumentException
      else bind_outcome (approximateSquareRoot input)
        (\<lambda>res. Ok (if res * res > input then res - 1 else res)))"

definition divMod :: "int \<Rightarrow> int \<Rightarrow> int \<Rightarrow> (java_error, int) outcome" where
  "divMod a b N = bind_outcome (java_modInverse b N) (\<lambda>i. java_mod (a * i) N)"

definition calculateHash :: "digest \<Rightarrow> int list \<Rightarrow> int" where
  "calculateHash sha bigIntegers = signed_value (sha (concat (map java_toByteArray bigIntegers)))"

section \<open>Commitments\<close>

definition s_param :: nat where
  "s_param = 552"

text \<open>\<open>g^x h^r mod N\<close>, the expression of the commitments and of the first messages.\<close>

definition java_commitment :: "int \<Rightarrow> int \<Rightarrow> int \<Rightarrow> int \<Rightarrow> int \<Rightarrow> (java_error, int) outcome" where
  "java_commitment N g h x r =
     bind_outcome (java_modPow g x N) (\<lambda>gx.
     bind_outcome (java_modPow h r N) (\<lambda>hr. java_mod (gx * hr) N))"

definition commit :: "SecretOrderGroup \<Rightarrow> int \<Rightarrow> int \<Rightarrow> (java_error, Commitment) outcome" where
  "commit grp valueToHide key =
     bind_outcome (java_commitment (getN grp) (getG grp) (getH grp) valueToHide key) (\<lambda>c.
     Ok \<lparr>getGroup = grp, getCommitmentValue = c\<rparr>)"

definition generateKey :: "randomness \<Rightarrow> int \<Rightarrow> nat \<Rightarrow> (java_error, int \<times> nat) outcome" where
  "generateKey rand N n = randomSignedInt rand (2 ^ s_param * N - 1) n"

definition generateTTPMessage ::
  "randomness \<Rightarrow> int \<Rightarrow> SecretOrderGroup \<Rightarrow> nat \<Rightarrow> (java_error, TTPMessage \<times> nat) outcome" where
  "generateTTPMessage rand secretValue grp n =
     bind_outcome (generateKey rand (getN grp) n) (\<lambda>(secretRandom, n).
     bind_outcome (commit grp secretValue secretRandom) (\<lambda>commitment.
     Ok (\<lparr>getCommitment = commitment, getX = secretValue, getY = secretRandom\<rparr>, n)))"

section \<open>The proof that two commitments hide the same secret\<close>

definition EC_calculateZeroKnowledgeProof ::
  "randomness \<Rightarrow> digest \<Rightarrow> int \<Rightarrow> int \<Rightarrow> int \<Rightarrow> int \<Rightarrow> int \<Rightarrow> int \<Rightarrow> int \<Rightarrow> int \<Rightarrow> int \<Rightarrow> nat
     \<Rightarrow> (java_error, ECProof \<times> nat) outcome" where
  "EC_calculateZeroKnowledgeProof rand sha b N g1 g2 h1 h2 x r1 r2 n =
     bind_outcome (createRandomInRange rand 1 (2 ^ (l_param + t_param) * b - 1) n) (\<lambda>(w, n).
     bind_outcome (createRandomInRange rand 1 (2 ^ (l_param + t_param + s_param) * N - 1) n) (\<lambda>(n1, n).
     bind_outcome (createRandomInRange rand 1 (2 ^ (l_param + t_param + s_param) * N - 1) n) (\<lambda>(n2, n).
     bind_outcome (java_commitment N g1 h1 w n1) (\<lambda>W1.
     bind_outcome (java_commitment N g2 h2 w n2) (\<lambda>W2.
     let c = calculateHash sha [W1, W2];
         D = w + c * x;
         D1 = n1 + c * r1;
         D2 = n2 + c * r2
     in Ok (\<lparr>ec_getC = c, ec_getD = D, ec_getD1 = D1, ec_getD2 = D2\<rparr>, n))))))"

text \<open>\<open>g^D h^R E^-c mod N\<close>, the first message a validator recomputes.\<close>

definition java_first_message ::
  "int \<Rightarrow> int \<Rightarrow> int \<Rightarrow> int \<Rightarrow> int \<Rightarrow> int \<Rightarrow> int \<Rightarrow> (java_error, int) outcome" where
  "java_first_message N g h E c D R =
     bind_outcome (java_modPow g D N) (\<lambda>gD.
     bind_outcome (java_modPow h R N) (\<lambda>hR.
     bind_outcome (java_modPow E (- c) N) (\<lambda>Ec. java_mod (gD * hR * Ec) N)))"

definition EC_validateZeroKnowledgeProof ::
  "digest \<Rightarrow> int \<Rightarrow> int \<Rightarrow> int \<Rightarrow> int \<Rightarrow> int \<Rightarrow> int \<Rightarrow> int \<Rightarrow> ECProof \<Rightarrow> (java_error, unit) outcome" where
  "EC_validateZeroKnowledgeProof sha N g1 g2 h1 h2 E F ecProof =
     (if E = 0 \<or> F = 0 then Err ZeroKnowledgeException
      else
        let c = ec_getC ecProof; D = ec_getD ecProof; D1 = ec_getD1 ecProof; D2 = ec_getD2 ecProof
        in
        bind_outcome (java_first_message N g1 h1 E c D D1) (\<lambda>W1.
        bind_outcome (java_first_message N g2 h2 F c D D2) (\<lambda>W2.
        if c \<noteq> calculateHash sha [W1, W2] then Err ZeroKnowledgeException else Ok ())))"

section \<open>The proof that a committed number is a square\<close>

definition Square_calculateZeroKnowledgeProof ::
  "randomness \<Rightarrow> digest \<Rightarrow> int \<Rightarrow> int \<Rightarrow> int \<Rightarrow> int \<Rightarrow> int \<Rightarrow> int \<Rightarrow> nat
     \<Rightarrow> (java_error, SquareProof \<times> nat) outcome" where
  "Square_calculateZeroKnowledgeProof rand sha b N g h x r1 n =
     bind_outcome (generateKey rand N n) (\<lambda>(r2, n).
     let r3 = r1 - r2 * x in
     bind_outcome (java_commitment N g h x r2) (\<lambda>F.
     bind_outcome (EC_calculateZeroKnowledgeProof rand sha b N g F h h x r2 r3 n) (\<lambda>(ecProof, n).
     Ok (\<lparr>getF = F, getECProof = ecProof\<rparr>, n))))"

definition Square_validateZeroKnowledgeProof ::
  "digest \<Rightarrow> int \<Rightarrow> int \<Rightarrow> int \<Rightarrow> int \<Rightarrow> SquareProof \<Rightarrow> (java_error, unit) outcome" where
  "Square_validateZeroKnowledgeProof sha N g h E proof =
     EC_validateZeroKnowledgeProof sha N g (getF proof) h h (getF proof) E (getECProof proof)"

section \<open>The CFT proof\<close>

definition isValidD1 :: "int \<Rightarrow> int \<Rightarrow> int \<Rightarrow> bool" where
  "isValidD1 D1 c b \<longleftrightarrow> c * b \<le> D1 \<and> D1 \<le> 2 ^ (l_param + t_param) * b"

text \<open>The body of the loop: \<open>C\<close>, \<open>c\<close>, \<open>D1\<close> and \<open>D2\<close> of one attempt.\<close>

definition CFT_attempt ::
  "randomness \<Rightarrow> digest \<Rightarrow> int \<Rightarrow> int \<Rightarrow> int \<Rightarrow> int \<Rightarrow> int \<Rightarrow> int \<Rightarrow> nat
     \<Rightarrow> (java_error, (int \<times> int \<times> int \<times> int) \<times> nat) outcome" where
  "CFT_attempt rand sha b N g h x r n =
     bind_outcome (createRandomInRange rand 0 (2 ^ (t_param + l_param) * b) n) (\<lambda>(w, n).
     bind_outcome (randomSignedInt rand (2 ^ (t_param + l_param + s_param) * N - 1) n) (\<lambda>(n1, n).
     bind_outcome (java_commitment N g h w n1) (\<lambda>W.
     let C = calculateHash sha [W]; c = C mod 2 ^ t_param; D1 = w + c * x; D2 = n1 + c * r
     in Ok ((C, c, D1, D2), n))))"

partial_function (option) CFT_loop ::
  "randomness \<Rightarrow> digest \<Rightarrow> int \<Rightarrow> int \<Rightarrow> int \<Rightarrow> int \<Rightarrow> int \<Rightarrow> int \<Rightarrow> nat
     \<Rightarrow> (java_error, CFTProof \<times> nat) outcome option" where
  "CFT_loop rand sha b N g h x r n =
     (case CFT_attempt rand sha b N g h x r n of
        Ok (a, n') \<Rightarrow>
          (case a of (C, c, D1, D2) \<Rightarrow>
             if \<not> isValidD1 D1 c b then CFT_loop rand sha b N g h x r n'
             else Some (Ok (\<lparr>cft_getC = C, cft_getD1 = D1, cft_getD2 = D2\<rparr>, n')))
      | Err e \<Rightarrow> Some (Err e)
      | Panic \<Rightarrow> Some Panic)"

declare CFT_loop.simps [code]

definition CFT_calculateProof ::
  "randomness \<Rightarrow> digest \<Rightarrow> int \<Rightarrow> int \<Rightarrow> int \<Rightarrow> int \<Rightarrow> int \<Rightarrow> int \<Rightarrow> nat
     \<Rightarrow> (java_error, CFTProof \<times> nat) outcome option" where
  "CFT_calculateProof rand sha b N g h x r n =
     (if b < x then Some (Err IllegalArgumentException) else CFT_loop rand sha b N g h x r n)"

definition CFT_validateZeroKnowledgeProof ::
  "digest \<Rightarrow> int \<Rightarrow> int \<Rightarrow> int \<Rightarrow> int \<Rightarrow> int \<Rightarrow> CFTProof \<Rightarrow> (java_error, unit) outcome" where
  "CFT_validateZeroKnowledgeProof sha b N g h E cftProof =
     (if E = 0 then Err ZeroKnowledgeException
      else
        let C = cft_getC cftProof; c = C mod 2 ^ t_param; D1 = cft_getD1 cftProof; D2 = cft_getD2 cftProof
        in
        bind_outcome (java_first_message N g h E c D1 D2) (\<lambda>W.
        if \<not> isValidD1 D1 c b \<or> C \<noteq> calculateHash sha [W] then Err ZeroKnowledgeException else Ok ()))"

section \<open>The proof with tolerance\<close>

text \<open>Sequencing after a call that may not return.\<close>

fun bind_loop :: "('e, 'a) outcome option \<Rightarrow> ('a \<Rightarrow> ('e, 'b) outcome option) \<Rightarrow> ('e, 'b) outcome option" where
  "bind_loop None f = None"
| "bind_loop (Some (Ok x)) f = f x"
| "bind_loop (Some (Err e)) f = Some (Err e)"
| "bind_loop (Some Panic) f = Some Panic"

definition Tolerance_calculateRangeProof ::
  "randomness \<Rightarrow> digest \<Rightarrow> TTPMessage \<Rightarrow> ClosedRange \<Rightarrow> nat
     \<Rightarrow> (java_error, BoudotRangeProof \<times> nat) outcome option" where
  "Tolerance_calculateRangeProof rand sha ttpMessage rng n =
     (let commitment = getCommitment ttpMessage;
          N = getN (getGroup commitment); g = getG (getGroup commitment); h = getH (getGroup commitment);
          a = getStart rng; b = getEnd rng; m = getX ttpMessage; r = getY ttpMessage
      in
      bind_loop (Some (floorSquareRoot (m - a))) (\<lambda>leftSquareRoot.
      bind_loop (Some (floorSquareRoot (b - m))) (\<lambda>rightSquareRoot.
      let leftSquare = leftSquareRoot * leftSquareRoot; rightSquare = rightSquareRoot * rightSquareRoot;
          leftRemaining = m - a - leftSquare; rightRemaining = b - m - rightSquare
      in
      bind_loop (Some (randomSignedInt rand (2 ^ s_param * N - 1) n)) (\<lambda>(randomLS, n).
      bind_loop (Some (randomSignedInt rand (2 ^ s_param * N - 1) n)) (\<lambda>(randomRS, n).
      let randomLR = r - randomLS; randomRR = - r - randomRS in
      bind_loop (Some (java_commitment N g h leftSquare randomLS)) (\<lambda>cLeftSquare.
      bind_loop (Some (java_commitment N g h rightSquare randomRS)) (\<lambda>cRightSquare.
      bind_loop (Some (floorSquareRoot (b - a))) (\<lambda>root.
      let SQ_maxToHide = root + 1 in
      bind_loop (Some (Square_calculateZeroKnowledgeProof rand sha SQ_maxToHide N g h leftSquareRoot randomLS n))
        (\<lambda>(sqrProofLeft, n).
      bind_loop (Some (Square_calculateZeroKnowledgeProof rand sha SQ_maxToHide N g h rightSquareRoot randomRS n))
        (\<lambda>(sqrProofRight, n).
      bind_loop (Some (floorSquareRoot ((b - a) * 4))) (\<lambda>CFT_maxCommitment.
      bind_loop (CFT_calculateProof rand sha CFT_maxCommitment N g h leftRemaining randomLR n) (\<lambda>(cftProofLeft, n).
      bind_loop (CFT_calculateProof rand sha CFT_maxCommitment N g h rightRemaining randomRR n) (\<lambda>(cftProofRight, n).
      Some (Ok (\<lparr>getCLeftSquare = cLeftSquare, getCRightSquare = cRightSquare,
                  getSqrProofLeft = sqrProofLeft, getSqrProofRight = sqrProofRight,
                  getCftProofLeft = cftProofLeft, getCftProofRight = cftProofRight\<rparr>, n)))))))))))))))"

definition Tolerance_validateRangeProof ::
  "digest \<Rightarrow> BoudotRangeProof \<Rightarrow> Commitment \<Rightarrow> ClosedRange \<Rightarrow> (java_error, unit) outcome" where
  "Tolerance_validateRangeProof sha proof commitment rng =
     (let N = getN (getGroup commitment); g = getG (getGroup commitment); h = getH (getGroup commitment);
          c = getCommitmentValue commitment; a = getStart rng; b = getEnd rng;
          cLeftSquare = getCLeftSquare proof; cRightSquare = getCRightSquare proof
      in
      if N = 0 \<or> c = 0 \<or> cLeftSquare = 0 \<or> cRightSquare = 0 then Err ZeroKnowledgeException
      else
      bind_outcome (bind_outcome (java_modPow g a N) (\<lambda>ga. divMod c ga N)) (\<lambda>cLeft.
      bind_outcome (bind_outcome (java_modPow g b N) (\<lambda>gb. divMod gb c N)) (\<lambda>cRight.
      bind_outcome (divMod cLeft cLeftSquare N) (\<lambda>cLeftRemaining.
      bind_outcome (divMod cRight cRightSquare N) (\<lambda>cRightRemaining.
      bind_outcome (Square_validateZeroKnowledgeProof sha N g h cLeftSquare (getSqrProofLeft proof)) (\<lambda>_.
      bind_outcome (Square_validateZeroKnowledgeProof sha N g h cRightSquare (getSqrProofRight proof)) (\<lambda>_.
      bind_outcome (floorSquareRoot ((b - a) * 4)) (\<lambda>CFT_maxCommitment.
      bind_outcome (CFT_validateZeroKnowledgeProof sha CFT_maxCommitment N g h cLeftRemaining (getCftProofLeft proof)) (\<lambda>_.
      CFT_validateZeroKnowledgeProof sha CFT_maxCommitment N g h cRightRemaining (getCftProofRight proof))))))))))"

section \<open>The range proof\<close>

definition RangeProof_calculateRangeProof ::
  "randomness \<Rightarrow> digest \<Rightarrow> TTPMessage \<Rightarrow> ClosedRange \<Rightarrow> nat
     \<Rightarrow> (java_error, BoudotRangeProof \<times> nat) outcome option" where
  "RangeProof_calculateRangeProof rand sha ttpMessage rng n =
     (let T = 2 * (t_param + l_param + 1) + java_bitLength (getEnd rng - getStart rng);
          xPrime = getX ttpMessage * 2 ^ T; yPrime = getY ttpMessage * 2 ^ T;
          grp = getGroup (getCommitment ttpMessage)
      in
      bind_loop (Some (commit grp xPrime yPrime)) (\<lambda>cPrime.
      let ttpMessagePrime = \<lparr>getCommitment = cPrime, getX = xPrime, getY = yPrime\<rparr>;
          rangePrime = \<lparr>getStart = getStart rng * 2 ^ T, getEnd = getEnd rng * 2 ^ T\<rparr>
      in Tolerance_calculateRangeProof rand sha ttpMessagePrime rangePrime n))"

definition RangeProof_validateRangeProof ::
  "digest \<Rightarrow> BoudotRangeProof \<Rightarrow> Commitment \<Rightarrow> ClosedRange \<Rightarrow> (java_error, unit) outcome" where
  "RangeProof_validateRangeProof sha proof commitment rng =
     (let T = 2 * (t_param + l_param + 1) + java_bitLength (getEnd rng - getStart rng);
          grp = getGroup commitment
      in
      bind_outcome (java_modPow (getCommitmentValue commitment) (2 ^ T) (getN grp)) (\<lambda>cPrime.
      let rangePrime = \<lparr>getStart = getStart rng * 2 ^ T, getEnd = getEnd rng * 2 ^ T\<rparr>
      in Tolerance_validateRangeProof sha proof \<lparr>getGroup = grp, getCommitmentValue = cPrime\<rparr> rangePrime))"

section \<open>The exported proof\<close>

definition proof_fields :: "BoudotRangeProof \<Rightarrow> int list" where
  "proof_fields p =
     [getCLeftSquare p,
      getCRightSquare p,
      getF (getSqrProofLeft p),
      ec_getC (getECProof (getSqrProofLeft p)),
      ec_getD (getECProof (getSqrProofLeft p)),
      ec_getD1 (getECProof (getSqrProofLeft p)),
      ec_getD2 (getECProof (getSqrProofLeft p)),
      getF (getSqrProofRight p),
      ec_getC (getECProof (getSqrProofRight p)),
      ec_getD (getECProof (getSqrProofRight p)),
      ec_getD1 (getECProof (getSqrProofRight p)),
      ec_getD2 (getECProof (getSqrProofRight p)),
      cft_getC (getCftProofLeft p),
      cft_getD1 (getCftProofLeft p),
      cft_getD2 (getCftProofLeft p),
      cft_getC (getCftProofRight p),
      cft_getD1 (getCftProofRight p),
      cft_getD2 (getCftProofRight p)]"

definition exportProof :: "BoudotRangeProof \<Rightarrow> byte list" where
  "exportProof rangeProof = join_commas (map print_int (proof_fields rangeProof))"

text \<open>The constructor of \<open>RangeproofPacket\<close>, from the parsed message and range on.\<close>

definition RangeproofPacket ::
  "randomness \<Rightarrow> digest \<Rightarrow> TTPMessage \<Rightarrow> ClosedRange \<Rightarrow> nat
     \<Rightarrow> (java_error, byte list \<times> nat) outcome option" where
  "RangeproofPacket rand sha parsedTTPMessage rng n =
     (if \<not> ClosedRange_contains rng (getX parsedTTPMessage) then Some (Err IllegalArgumentException)
      else
        bind_loop (RangeProof_calculateRangeProof rand sha parsedTTPMessage rng n) (\<lambda>(bdRangeProof, n).
        bind_loop (Some (RangeProof_validateRangeProof sha bdRangeProof (getCommitment parsedTTPMessage) rng)) (\<lambda>_.
        Some (Ok (exportProof bdRangeProof, n)))))"

section \<open>The Java arithmetic agrees with the Go arithmetic\<close>

lemma java_bitLength_nonneg: "0 \<le> x \<Longrightarrow> java_bitLength x = big_BitLen x"
  by (simp add: java_bitLength_def big_BitLen_code)

lemma java_toByteArray_nonneg:
  assumes "0 \<le> x"
  shows "java_toByteArray x = ToByteArray x"
proof -
  let ?k = "java_bitLength x div 8 + 1"
  have iff: "length (ToByteArray x) \<le> Suc j \<longleftrightarrow> ?k \<le> Suc j" for j
  proof -
    have "length (ToByteArray x) \<le> Suc j \<longleftrightarrow> x < 128 * 256 ^ j"
      using ToByteArray_signed_length(2) [of x j] assms by simp
    also have "\<dots> \<longleftrightarrow> x < 2 ^ (8 * j + 7)" by (simp add: power_add power_mult) (simp add: mult.commute)
    also have "\<dots> \<longleftrightarrow> nat x < 2 ^ (8 * j + 7)" using assms by (simp add: nat_less_iff)
    also have "\<dots> \<longleftrightarrow> java_bitLength x \<le> 8 * j + 7"
      using assms by (simp add: java_bitLength_nonneg big_BitLen_def nat_bitlen_le_iff)
    also have "\<dots> \<longleftrightarrow> ?k \<le> Suc j" by (simp add: less_Suc_eq_le [symmetric] div_less_iff_less_mult mult.commute)
    finally show ?thesis .
  qed
  obtain j where "length (ToByteArray x) = Suc j"
    using ToByteArray_nonempty [of x] by (cases "ToByteArray x") auto
  then have len: "length (ToByteArray x) = ?k"
    using iff [of j] iff [of "java_bitLength x div 8"] by (metis Suc_eq_plus1 le_antisym order_refl)
  have small: "x < 128 * 256 ^ (?k - 1)"
    using ToByteArray_signed_length(2) [of x "?k - 1"] len assms by simp
  moreover have "0 < (256 :: int) ^ (?k - 1)" by simp
  ultimately have "x < 256 * 256 ^ (?k - 1)" by linarith
  then have "x mod 256 ^ ?k = x" using assms by simp
  then have "big_SetBytes (java_toByteArray x) = x"
    unfolding java_toByteArray_def SetBytes_be_bytes .
  moreover have "big_SetBytes (ToByteArray x) = x"
    using assms by (auto simp: ToByteArray_def Let_def SetBytes_Cons split: list.split)
  ultimately show ?thesis
    using len by (intro SetBytes_inj) (simp_all add: java_toByteArray_def)
qed

lemma java_modPow_unit:
  assumes "0 < N" "coprime x N"
  shows "java_modPow x e N = Ok (ModPow x e N mod N)"
proof (cases "0 \<le> e")
  case True
  then show ?thesis using assms(1) by (simp add: java_modPow_def ModPow_def big_Exp_pos)
next
  case False
  let ?i = "big_ModInverse x N" and ?k = "nat (- e)"
  have "(?i * x) ^ ?k mod N = 1 ^ ?k mod N"
    using ModInverse_correct [OF assms(2,1)] by (intro power_mod_cong) simp
  then have "?i ^ ?k mod N = ModPow x e N mod N"
    using assms False by (intro ModPow_unique [where m = ?k]) (simp_all add: power_mult_distrib)
  then show ?thesis
    using assms False by (simp add: java_modPow_def java_modInverse_def big_Exp_pos power_mod)
qed

lemma java_modPow_Ok:
  assumes "java_modPow x e N = Ok z"
  shows "0 < N" and "z = ModPow x e N mod N"
proof -
  show N: "0 < N" using assms by (auto simp: java_modPow_def split: if_splits)
  show "z = ModPow x e N mod N"
  proof (cases "0 \<le> e")
    case True
    then show ?thesis using assms N by (auto simp: java_modPow_def ModPow_def big_Exp_pos)
  next
    case False
    then have "coprime x N"
      using assms N by (auto simp: java_modPow_def java_modInverse_def split: if_splits)
    then show ?thesis using assms N java_modPow_unit [of N x e] by simp
  qed
qed

lemma java_mod_Ok: "java_mod x N = Ok z \<Longrightarrow> 0 < N \<and> z = x mod N"
  by (auto simp: java_mod_def split: if_splits)

lemma divMod_unit: "0 < N \<Longrightarrow> coprime b N \<Longrightarrow> divMod a b N = Ok (quot_mod a b N)"
  by (simp add: divMod_def java_modInverse_def java_mod_def quot_mod_def mod_mult_right_eq)

lemma divMod_Ok: "divMod a b N = Ok z \<Longrightarrow> 0 < N \<and> coprime b N \<and> z = quot_mod a b N"
  by (auto simp: divMod_def java_modInverse_def java_mod_def quot_mod_def mod_mult_right_eq
      split: if_splits)

lemma floorSquareRoot_isqrt:
  "floorSquareRoot n = (if n < 0 then Err IllegalArgumentException else Ok (int (isqrt (nat n))))"
proof (cases "0 < n")
  case True
  then have "sqrt_loop (nat n) 0 0 (2 ^ (java_bitLength n div 2)) \<noteq> Panic
      \<and> (\<forall>e. sqrt_loop (nat n) 0 0 (2 ^ (java_bitLength n div 2)) \<noteq> Err e)"
    using sqrt_loop_result [of "nat n" "2 ^ (java_bitLength n div 2)" 0 0] by auto
  with True FloorSquareRoot_isqrt [of n] show ?thesis
    by (auto simp: floorSquareRoot_def approximateSquareRoot_def FloorSquareRoot_def java_bitLength_nonneg
        Multiply_def Sub_def split: outcome.split)
next
  case False
  have "isqrt 0 = 0" by (rule isqrt_unique) auto
  with False show ?thesis by (simp add: floorSquareRoot_def approximateSquareRoot_def)
qed

lemma java_first_message_Ok:
  assumes "java_first_message N g h E c D R = Ok W"
  shows "W = first_message N g h E c D R" and "0 < N"
proof -
  obtain a b d where "java_modPow g D N = Ok a" "java_modPow h R N = Ok b" "java_modPow E (- c) N = Ok d"
    "java_mod (a * b * d) N = Ok W"
    using assms by (auto simp: java_first_message_def bind_outcome_Ok_iff)
  then have W: "W = (ModPow g D N mod N) * (ModPow h R N mod N) * (ModPow E (- c) N mod N) mod N" and "0 < N"
    using java_modPow_Ok java_mod_Ok by blast+
  then show "0 < N" by simp
  show "W = first_message N g h E c D R"
    unfolding W first_message_def by (intro mult_mod_cong) (simp_all add: mod_mult_eq)
qed

lemma first_message_nonneg: "0 < N \<Longrightarrow> 0 \<le> first_message N g h E c D R"
  by (simp add: first_message_def)

lemma challenge_calculateHash:
  assumes "sha (concat (map ToByteArray ws)) \<noteq> []" and "\<forall>w\<in>set ws. 0 \<le> w"
  shows "challenge sha (concat (map ToByteArray ws)) = Some (calculateHash sha ws)"
proof -
  have "map java_toByteArray ws = map ToByteArray ws"
    using assms(2) by (simp add: java_toByteArray_nonneg)
  with assms(1) show ?thesis by (simp only: challenge_def calculateHash_def if_False)
qed

section \<open>What Java accepts, Go accepts\<close>

lemma EC_validate_accepts:
  assumes "\<And>bs. sha bs \<noteq> []" and "EC_validateZeroKnowledgeProof sha N g1 g2 h1 h2 E F p = Ok u"
  shows "ec_accepts sha N g1 g2 h1 h2 E F [ec_getC p, ec_getD p, ec_getD1 p, ec_getD2 p]"
proof -
  obtain W1 W2 where W: "java_first_message N g1 h1 E (ec_getC p) (ec_getD p) (ec_getD1 p) = Ok W1"
    "java_first_message N g2 h2 F (ec_getC p) (ec_getD p) (ec_getD2 p) = Ok W2"
    and c: "ec_getC p = calculateHash sha [W1, W2]"
    using assms(2) by (auto simp: EC_validateZeroKnowledgeProof_def Let_def bind_outcome_Ok_iff split: if_splits)
  note m = java_first_message_Ok [OF W(1)] java_first_message_Ok [OF W(2)]
  have "0 \<le> W1" "0 \<le> W2" using m first_message_nonneg by blast+
  then have "challenge sha (ToByteArray W1 @ ToByteArray W2) = Some (ec_getC p)"
    unfolding c using challenge_calculateHash [of sha "[W1, W2]"] assms(1) by simp
  then show ?thesis by (simp add: ec_accepts_def m(1,3) [symmetric])
qed

lemma CFT_validate_accepts:
  assumes "\<And>bs. sha bs \<noteq> []" and "CFT_validateZeroKnowledgeProof sha b N g h E p = Ok u"
  shows "cft_accepts sha b N g h E [cft_getC p, cft_getD1 p, cft_getD2 p]"
proof -
  let ?c = "cft_getC p mod 2 ^ 128"
  obtain W where W: "java_first_message N g h E ?c (cft_getD1 p) (cft_getD2 p) = Ok W"
    and c: "cft_getC p = calculateHash sha [W]" and D1: "isValidD1 (cft_getD1 p) ?c b"
    using assms(2)
    by (auto simp: CFT_validateZeroKnowledgeProof_def Let_def bind_outcome_Ok_iff t_param_def split: if_splits)
  have "0 \<le> W" using java_first_message_Ok [OF W] first_message_nonneg by blast
  then have "challenge sha (ToByteArray W) = Some (cft_getC p)"
    unfolding c using challenge_calculateHash [of sha "[W]"] assms(1) by simp
  with D1 java_first_message_Ok(1) [OF W] show ?thesis
    by (simp add: cft_accepts_def isValidD1_def l_param_def t_param_def mult.commute)
qed

lemma quot_mod_cong:
  assumes "0 < N" "coprime b N" and "a mod N = a' mod N" "b mod N = b' mod N"
  shows "quot_mod a b N = quot_mod a' b' N"
proof -
  have "coprime b' N" using assms(1,2,4) by (metis coprime_mod_left_iff less_irrefl)
  then have "big_ModInverse b N * b mod N = big_ModInverse b' N * b' mod N"
    using assms(1,2) by (simp add: ModInverse_correct)
  also have "\<dots> = big_ModInverse b' N * b mod N"
    using assms(4) by (intro mult_mod_cong) simp_all
  finally have "big_ModInverse b N mod N = big_ModInverse b' N mod N"
    by (rule mod_cancel_coprime [OF assms(2)])
  with assms(3) show ?thesis unfolding quot_mod_def by (rule mult_mod_cong)
qed

lemma Tolerance_validate_accepts:
  assumes "\<And>bs. sha bs \<noteq> []" and "Tolerance_validateRangeProof sha p com rng = Ok u"
  shows "tolerance_accepts sha (getStart rng) (getEnd rng)
    [getCommitmentValue com, getN (getGroup com), getG (getGroup com), getH (getGroup com)] (proof_fields p)"
proof -
  let ?N = "getN (getGroup com)" and ?g = "getG (getGroup com)" and ?h = "getH (getGroup com)"
  let ?c = "getCommitmentValue com" and ?a = "getStart rng" and ?b = "getEnd rng"
  obtain ga gb cL cR cLR cRR u1 u2 bound u3 where
    ga: "java_modPow ?g ?a ?N = Ok ga" and cL: "divMod ?c ga ?N = Ok cL" and
    gb: "java_modPow ?g ?b ?N = Ok gb" and cR: "divMod gb ?c ?N = Ok cR" and
    rem: "divMod cL (getCLeftSquare p) ?N = Ok cLR" "divMod cR (getCRightSquare p) ?N = Ok cRR" and
    sq: "Square_validateZeroKnowledgeProof sha ?N ?g ?h (getCLeftSquare p) (getSqrProofLeft p) = Ok u1"
      "Square_validateZeroKnowledgeProof sha ?N ?g ?h (getCRightSquare p) (getSqrProofRight p) = Ok u2" and
    bound: "floorSquareRoot ((?b - ?a) * 4) = Ok bound" and
    cft: "CFT_validateZeroKnowledgeProof sha bound ?N ?g ?h cLR (getCftProofLeft p) = Ok u3"
      "CFT_validateZeroKnowledgeProof sha bound ?N ?g ?h cRR (getCftProofRight p) = Ok u"
    using assms(2)
    by (auto simp: Tolerance_validateRangeProof_def Let_def bind_outcome_Ok_iff split: if_splits)
  have left: "cL = quot_mod ?c (ModPow ?g ?a ?N) ?N"
    using divMod_Ok [OF cL] java_modPow_Ok(2) [OF ga] quot_mod_cong [of ?N ga ?c ?c "ModPow ?g ?a ?N"]
    by (metis mod_mod_trivial)
  have right: "cR = quot_mod (ModPow ?g ?b ?N) ?c ?N"
    using divMod_Ok [OF cR] java_modPow_Ok(2) [OF gb] quot_mod_cong [of ?N ?c gb "ModPow ?g ?b ?N" ?c]
    by (metis mod_mod_trivial)
  have quot: "cLR = quot_mod (quot_mod ?c (ModPow ?g ?a ?N) ?N) (getCLeftSquare p) ?N"
    "cRR = quot_mod (quot_mod (ModPow ?g ?b ?N) ?c ?N) (getCRightSquare p) ?N"
    using divMod_Ok [OF rem(1)] divMod_Ok [OF rem(2)] unfolding left right by blast+
  have N: "0 < ?N" using java_modPow_Ok(1) [OF ga] .
  have b: "bound = (if ?b < ?a then 0 else int (isqrt (nat (4 * (?b - ?a)))))"
    using bound by (auto simp: floorSquareRoot_isqrt mult.commute split: if_splits)
  show ?thesis
    using EC_validate_accepts [OF assms(1) sq(1) [unfolded Square_validateZeroKnowledgeProof_def]]
      EC_validate_accepts [OF assms(1) sq(2) [unfolded Square_validateZeroKnowledgeProof_def]]
      CFT_validate_accepts [OF assms(1) cft(1)] CFT_validate_accepts [OF assms(1) cft(2)] N
    unfolding tolerance_accepts_def Let_def b quot
    by (simp add: proof_fields_def subslice_def)
qed

lemma RangeProof_validate_accepts:
  assumes "\<And>bs. sha bs \<noteq> []" and "RangeProof_validateRangeProof sha p com rng = Ok u"
  shows "\<exists>com'. ValidateRangeProof sha (getStart rng) (getEnd rng)
    [getCommitmentValue com, getN (getGroup com), getG (getGroup com), getH (getGroup com)] (proof_fields p)
      = Ok (True, com')"
proof -
  let ?a = "getStart rng" and ?b = "getEnd rng" and ?N = "getN (getGroup com)"
  let ?T = "2 * (t_param + l_param + 1) + java_bitLength (?b - ?a)"
  obtain c where c: "java_modPow (getCommitmentValue com) (2 ^ ?T) ?N = Ok c"
    and t: "Tolerance_validateRangeProof sha p \<lparr>getGroup = getGroup com, getCommitmentValue = c\<rparr>
      \<lparr>getStart = ?a * 2 ^ ?T, getEnd = ?b * 2 ^ ?T\<rparr> = Ok u"
    using assms(2) by (auto simp: RangeProof_validateRangeProof_def Let_def bind_outcome_Ok_iff)
  have "?a \<le> ?b"
  proof (rule ccontr)
    assume "\<not> ?a \<le> ?b"
    then have "(?b * 2 ^ ?T - ?a * 2 ^ ?T) * 4 < 0" by (simp add: mult_less_0_iff)
    with t show False
      by (auto simp: Tolerance_validateRangeProof_def Let_def bind_outcome_Ok_iff floorSquareRoot_isqrt
          split: if_splits)
  qed
  then have T: "?T = scale ?a ?b"
    by (simp add: scale_def java_bitLength_nonneg t_param_def l_param_def)
  have "0 < ?N" using java_modPow_Ok(1) [OF c] .
  then have "c = getCommitmentValue com ^ 2 ^ ?T mod \<bar>?N\<bar>"
    using c unfolding T by (simp add: java_modPow_def big_Exp_def nat_power_eq)
  then show ?thesis
    using Tolerance_validate_accepts [OF assms(1) t] unfolding T
    by (simp add: ValidateRangeProof_alt scaled_commitment_def proof_fields_def)
qed

section \<open>Honest proofs\<close>

text \<open>\<open>E\<close> is a commitment to \<open>x\<close> under the key \<open>r\<close>.\<close>

definition opens :: "int \<Rightarrow> int \<Rightarrow> int \<Rightarrow> int \<Rightarrow> int \<Rightarrow> int \<Rightarrow> bool" where
  "opens N g h E x r \<longleftrightarrow> E mod N = ModPow g x N * ModPow h r N mod N"

lemma java_commitment_unit:
  assumes "0 < N" "coprime g N" "coprime h N"
  shows "java_commitment N g h x r = Ok (ModPow g x N * ModPow h r N mod N)"
  using assms by (simp add: java_commitment_def java_modPow_unit java_mod_def mod_mult_eq)

lemma opens_commitment: "opens N g h (ModPow g x N * ModPow h r N mod N) x r"
  by (simp add: opens_def)

lemma commitment_coprime:
  assumes "0 < N" "coprime g N" "coprime h N" "opens N g h E x r"
  shows "coprime E N"
proof -
  have "coprime (E mod N) N"
    using assms ModPow_unit unfolding opens_def by (simp add: ModPow_unit)
  then show ?thesis using assms(1) by simp
qed

lemma coprime_nonzero: "1 < N \<Longrightarrow> coprime E N \<Longrightarrow> E \<noteq> (0::int)"
  by auto

lemma opens_quot:
  assumes "0 < N" "coprime g N" "coprime h N" "opens N g h E x r" "opens N g h F y s"
  shows "opens N g h (quot_mod E F N) (x - y) (r - s)"
proof -
  have F: "coprime F N" using commitment_coprime assms by blast
  have "quot_mod E F N * F mod N = E * (big_ModInverse F N * F) mod N"
    by (simp add: quot_mod_def mod_mult_left_eq mult.assoc)
  also have "\<dots> = E * 1 mod N"
    using ModInverse_correct [OF F assms(1)] by (intro mult_mod_cong) simp_all
  also have "\<dots> = ModPow g ((x - y) + y) N * ModPow h ((r - s) + s) N mod N"
    using assms(4) by (simp add: opens_def)
  also have "\<dots> = (ModPow g (x - y) N * ModPow g y N) * (ModPow h (r - s) N * ModPow h s N) mod N"
    using assms(1-3) by (intro mult_mod_cong ModPow_add)
  also have "\<dots> = (ModPow g (x - y) N * ModPow h (r - s) N) * (ModPow g y N * ModPow h s N) mod N"
    by (simp add: ac_simps)
  also have "\<dots> = (ModPow g (x - y) N * ModPow h (r - s) N) * F mod N"
    using assms(5) by (intro mult_mod_cong) (simp_all add: opens_def)
  finally show ?thesis unfolding opens_def by (rule mod_cancel_coprime [OF F])
qed

lemma honest_first_message:
  assumes "0 < N" "coprime g N" "coprime h N" "opens N g h E x r"
  shows "java_first_message N g h E c (w + c * x) (n + c * r) = java_commitment N g h w n"
proof -
  have "coprime E N" using commitment_coprime assms by blast
  then have "java_first_message N g h E c (w + c * x) (n + c * r)
      = Ok ((ModPow g (w + c * x) N mod N) * (ModPow h (n + c * r) N mod N) * (ModPow E (- c) N mod N) mod N)"
    using assms(1-3) by (simp add: java_first_message_def java_modPow_unit java_mod_def)
  also have "\<dots> = Ok (ModPow g (w + c * x) N * ModPow h (n + c * r) N * ModPow E (c * - 1) N mod N)"
    by (simp add: mod_mult_eq) (intro mult_mod_cong, simp_all add: mod_mult_eq)
  also have "\<dots> = Ok (ModPow g w N * ModPow h n N mod N)"
    using zn.response_opens [OF assms(1-3)] assms(4) unfolding opens_def by simp
  also have "\<dots> = java_commitment N g h w n"
    using assms(1-3) by (simp add: java_commitment_unit)
  finally show ?thesis .
qed

text \<open>
  What the loop of the CFT prover relies on of \<open>createRandomInRange\<close>: among every second call from
  any point on, some result avoids the first and the last \<open>2^-40\<close> of the interval.
\<close>

definition random_fair :: "randomness \<Rightarrow> bool" where
  "random_fair rand \<longleftrightarrow>
     (\<forall>n b. 0 \<le> b \<longrightarrow> (\<exists>k. 2 ^ 128 * b \<le> rand (n + 2 * k) 0 (2 ^ 168 * b) \<and>
                           rand (n + 2 * k) 0 (2 ^ 168 * b) \<le> (2 ^ 168 - 2 ^ 128) * b))"

lemma createRandomInRange_Ok [simp]: "lo \<le> hi \<Longrightarrow> createRandomInRange rand lo hi n = Ok (rand n lo hi, Suc n)"
  by (simp add: createRandomInRange_def)

lemma randomSignedInt_key [simp]:
  "0 < N \<Longrightarrow> randomSignedInt rand (2 ^ k * N - 1) n = Ok (rand n (- (2 ^ k * N - 1)) (2 ^ k * N - 1), Suc n)"
  using int_one_le_iff_zero_less [of "2 ^ k * N"]
  by (simp add: randomSignedInt_def createRandomInRange_def not_less mult.commute)

lemma EC_honest:
  assumes "0 < b" "0 < N" "coprime g1 N" "coprime h1 N" "coprime g2 N" "coprime h2 N"
    and "opens N g1 h1 E x r1" "opens N g2 h2 F x r2" "E \<noteq> 0" "F \<noteq> 0"
  shows "\<exists>p n'. EC_calculateZeroKnowledgeProof rand sha b N g1 g2 h1 h2 x r1 r2 n = Ok (p, n')
    \<and> EC_validateZeroKnowledgeProof sha N g1 g2 h1 h2 E F p = Ok ()"
proof -
  have "1 \<le> 2 ^ (l_param + t_param) * b - 1" "1 \<le> 2 ^ (l_param + t_param + s_param) * N - 1"
    using assms(1,2) by (simp_all add: l_param_def t_param_def s_param_def)
  with assms show ?thesis
    by (simp add: EC_calculateZeroKnowledgeProof_def EC_validateZeroKnowledgeProof_def Let_def
        honest_first_message java_commitment_unit)
qed

lemma Square_honest:
  assumes "0 < b" "1 < N" "coprime g N" "coprime h N" and "opens N g h E (x * x) r1"
  shows "\<exists>p n'. Square_calculateZeroKnowledgeProof rand sha b N g h x r1 n = Ok (p, n')
    \<and> Square_validateZeroKnowledgeProof sha N g h E p = Ok ()"
proof -
  have N: "0 < N" using assms(2) by simp
  define r2 where "r2 = rand n (- (2 ^ s_param * N - 1)) (2 ^ s_param * N - 1)"
  define F where "F = ModPow g x N * ModPow h r2 N mod N"
  have F: "opens N g h F x r2" by (simp add: F_def opens_commitment)
  then have coF: "coprime F N" using N assms(3,4) commitment_coprime by blast
  have "ModPow F x N * ModPow h (r1 - r2 * x) N mod N
      = (ModPow g (x * x) N * ModPow h (r2 * x) N) * ModPow h (r1 - r2 * x) N mod N"
    using zn.commitment_pow [OF N assms(3,4)] F unfolding opens_def by (intro mult_mod_cong) simp_all
  also have "\<dots> = ModPow g (x * x) N * ModPow h (r2 * x + (r1 - r2 * x)) N mod N"
    using ModPow_add [OF N assms(4), of "r2 * x" "r1 - r2 * x"] unfolding mult.assoc
    by (intro mult_mod_cong) simp_all
  finally have E: "opens N F h E x (r1 - r2 * x)"
    using assms(5) by (simp add: opens_def)
  have nz: "E \<noteq> 0" "F \<noteq> 0"
    using commitment_coprime [OF N assms(3,4,5)] coF assms(2) coprime_nonzero by blast+
  have "generateKey rand N n = Ok (r2, Suc n)"
    using N by (simp add: generateKey_def r2_def)
  moreover obtain p n' where
    "EC_calculateZeroKnowledgeProof rand sha b N g F h h x r2 (r1 - r2 * x) (Suc n) = Ok (p, n')"
    "EC_validateZeroKnowledgeProof sha N g F h h F E p = Ok ()"
    using EC_honest [OF assms(1) N assms(3,4) coF assms(4) F E nz(2,1)] by blast
  ultimately show ?thesis
    using N assms(3,4)
    by (simp add: Square_calculateZeroKnowledgeProof_def Square_validateZeroKnowledgeProof_def Let_def
        java_commitment_unit flip: F_def)
qed

lemma CFT_attempt_honest:
  assumes "0 \<le> b" "0 < N" "coprime g N" "coprime h N"
  shows "\<exists>C D2. CFT_attempt rand sha b N g h x r n
      = Ok ((C, C mod 2 ^ t_param, rand n 0 (2 ^ 168 * b) + C mod 2 ^ t_param * x, D2), n + 2)
    \<and> (\<forall>E. opens N g h E x r \<longrightarrow> E \<noteq> 0 \<longrightarrow> isValidD1 (rand n 0 (2 ^ 168 * b) + C mod 2 ^ t_param * x) (C mod 2 ^ t_param) b
      \<longrightarrow> CFT_validateZeroKnowledgeProof sha b N g h E
            \<lparr>cft_getC = C, cft_getD1 = rand n 0 (2 ^ 168 * b) + C mod 2 ^ t_param * x, cft_getD2 = D2\<rparr> = Ok ())"
proof -
  have "0 \<le> 2 ^ (t_param + l_param) * b" and e: "(2 :: int) ^ (t_param + l_param) = 2 ^ 168"
    using assms(1) by (simp_all add: l_param_def t_param_def)
  with assms show ?thesis
    unfolding CFT_attempt_def CFT_validateZeroKnowledgeProof_def e
    by (simp add: Let_def honest_first_message java_commitment_unit)
qed

lemma valid_response:
  fixes b x w c :: int
  assumes "0 \<le> x" "x \<le> b" "0 \<le> c" "c < 2 ^ 128" and w: "2 ^ 128 * b \<le> w" "w \<le> (2 ^ 168 - 2 ^ 128) * b"
  shows "isValidD1 (w + c * x) c b"
proof -
  have "c * b \<le> 2 ^ 128 * b" "c * x \<le> 2 ^ 128 * b" "0 \<le> c * x"
    using assms by (intro mult_mono; simp)+ (use assms in simp)
  then show ?thesis
    using w by (simp add: isValidD1_def l_param_def t_param_def)
qed

lemma CFT_loop_step:
  assumes "0 \<le> b" "0 < N" "coprime g N" "coprime h N" "opens N g h E x r" "E \<noteq> 0"
  shows "\<exists>c. 0 \<le> c \<and> c < 2 ^ 128 \<and>
    (if isValidD1 (rand n 0 (2 ^ 168 * b) + c * x) c b
     then \<exists>p. CFT_loop rand sha b N g h x r n = Some (Ok (p, n + 2))
            \<and> CFT_validateZeroKnowledgeProof sha b N g h E p = Ok ()
     else CFT_loop rand sha b N g h x r n = CFT_loop rand sha b N g h x r (n + 2))"
proof -
  define w where "w = rand n 0 (2 ^ 168 * b)"
  obtain C D2 where a: "CFT_attempt rand sha b N g h x r n = Ok ((C, C mod 2 ^ t_param, w + C mod 2 ^ t_param * x, D2), n + 2)"
    and v: "isValidD1 (w + C mod 2 ^ t_param * x) (C mod 2 ^ t_param) b \<Longrightarrow>
      CFT_validateZeroKnowledgeProof sha b N g h E
        \<lparr>cft_getC = C, cft_getD1 = w + C mod 2 ^ t_param * x, cft_getD2 = D2\<rparr> = Ok ()"
    using CFT_attempt_honest [OF assms(1-4), of rand sha x r n] assms(5,6) unfolding w_def by blast
  have "if isValidD1 (w + C mod 2 ^ t_param * x) (C mod 2 ^ t_param) b
     then \<exists>p. CFT_loop rand sha b N g h x r n = Some (Ok (p, n + 2))
            \<and> CFT_validateZeroKnowledgeProof sha b N g h E p = Ok ()
     else CFT_loop rand sha b N g h x r n = CFT_loop rand sha b N g h x r (n + 2)"
    using a v by (simp add: CFT_loop.simps [of rand sha b N g h x r n])
  then show ?thesis
    by (intro exI [of _ "C mod 2 ^ t_param"]) (simp add: t_param_def w_def)
qed

lemma CFT_loop_honest:
  assumes "0 \<le> x" "x \<le> b" "0 < N" "coprime g N" "coprime h N" "opens N g h E x r" "E \<noteq> 0"
    and "2 ^ 128 * b \<le> rand (n + 2 * k) 0 (2 ^ 168 * b)" "rand (n + 2 * k) 0 (2 ^ 168 * b) \<le> (2 ^ 168 - 2 ^ 128) * b"
  shows "\<exists>p n'. CFT_loop rand sha b N g h x r n = Some (Ok (p, n'))
    \<and> CFT_validateZeroKnowledgeProof sha b N g h E p = Ok ()"
  using assms(8,9)
proof (induction k arbitrary: n)
  case 0
  obtain c where "0 \<le> c" "c < 2 ^ 128" and
    step: "if isValidD1 (rand n 0 (2 ^ 168 * b) + c * x) c b
      then \<exists>p. CFT_loop rand sha b N g h x r n = Some (Ok (p, n + 2))
            \<and> CFT_validateZeroKnowledgeProof sha b N g h E p = Ok ()
      else CFT_loop rand sha b N g h x r n = CFT_loop rand sha b N g h x r (n + 2)"
    using CFT_loop_step [OF _ assms(3-7)] assms(1,2) by (meson order_trans)
  then have "isValidD1 (rand n 0 (2 ^ 168 * b) + c * x) c b"
    using 0 assms(1,2) by (intro valid_response) simp_all
  with step show ?case by (metis (full_types))
next
  case (Suc k)
  then have "\<exists>p n'. CFT_loop rand sha b N g h x r (n + 2) = Some (Ok (p, n'))
    \<and> CFT_validateZeroKnowledgeProof sha b N g h E p = Ok ()"
    by (intro Suc.IH) (simp_all add: algebra_simps)
  with CFT_loop_step [OF _ assms(3-7), of b rand n sha] assms(1,2) show ?case
    by (metis order_trans)
qed

lemma CFT_honest:
  assumes "random_fair rand" "0 \<le> x" "x \<le> b" "1 < N" "coprime g N" "coprime h N" "opens N g h E x r"
  shows "\<exists>p n'. CFT_calculateProof rand sha b N g h x r n = Some (Ok (p, n'))
    \<and> CFT_validateZeroKnowledgeProof sha b N g h E p = Ok ()"
proof -
  have N: "0 < N" using assms(4) by simp
  have "E \<noteq> 0" using commitment_coprime [OF N assms(5-7)] assms(4) coprime_nonzero by blast
  moreover obtain k where "2 ^ 128 * b \<le> rand (n + 2 * k) 0 (2 ^ 168 * b)"
    "rand (n + 2 * k) 0 (2 ^ 168 * b) \<le> (2 ^ 168 - 2 ^ 128) * b"
    using assms(1-3) unfolding random_fair_def by (meson order_trans)
  ultimately show ?thesis
    using CFT_loop_honest [OF assms(2,3) N assms(5-7)] assms(3)
    by (auto simp: CFT_calculateProof_def)
qed

text \<open>The part of \<open>m - a\<close> that its largest square leaves is hidden by the CFT bound.\<close>

lemma remaining_bound:
  assumes "0 \<le> d" "d \<le> M"
  shows "0 \<le> d - int (isqrt (nat d)) * int (isqrt (nat d))"
    and "d - int (isqrt (nat d)) * int (isqrt (nat d)) \<le> int (isqrt (nat (M * 4)))"
proof -
  let ?s = "isqrt (nat d)" and ?q = "isqrt (nat (M * 4))"
  have s: "int (?s * ?s) \<le> d" "d < int (Suc ?s * Suc ?s)"
    using isqrt_bounds [of "nat d"] assms(1) by (simp_all only: le_nat_iff nat_less_iff)
  then show "0 \<le> d - int ?s * int ?s" by simp
  have "2 * ?s < Suc ?q"
  proof (rule ccontr)
    assume "\<not> 2 * ?s < Suc ?q"
    then have "Suc ?q * Suc ?q \<le> (2 * ?s) * (2 * ?s)" by (intro mult_le_mono) simp_all
    also have "\<dots> \<le> nat (M * 4)"
      using s(1) assms by (simp add: le_nat_iff)
    finally show False using isqrt_bounds(2) [of "nat (M * 4)"] by simp
  qed
  with s(2) show "d - int ?s * int ?s \<le> int ?q" by (simp add: algebra_simps)
qed

lemma opens_power:
  assumes "0 < N"
  shows "opens N g h (ModPow g a N) a 0"
  using mult_mod_cong [OF refl ModPow_0 [OF assms, of h], of "ModPow g a N"] by (simp add: opens_def)

text \<open>The commitments that both validators compute from the commitment open to the remaining parts.\<close>

lemma remaining_opens:
  assumes "0 < N" "coprime g N" "coprime h N" and "opens N g h c m r" "opens N g h S x s"
  shows "opens N g h (quot_mod (quot_mod c (ModPow g a N) N) S N) (m - a - x) (r - s)"
    and "opens N g h (quot_mod (quot_mod (ModPow g b N) c N) S N) (b - m - x) (- r - s)"
  using opens_quot [OF assms(1-3) opens_quot [OF assms(1-4) opens_power [OF assms(1)]] assms(5)]
    opens_quot [OF assms(1-3) opens_quot [OF assms(1-3) opens_power [OF assms(1)] assms(4)] assms(5)]
  by simp_all

lemma Tolerance_honest:
  assumes rand: "random_fair rand" and N: "1 < N" "coprime g N" "coprime h N"
    and range: "a \<le> m" "m \<le> b" and c: "opens N g h c m r"
    and ttp: "getGroup (getCommitment ttp) = \<lparr>getN = N, getG = g, getH = h\<rparr>" "getX ttp = m" "getY ttp = r"
  shows "\<exists>p n'. Tolerance_calculateRangeProof rand sha ttp \<lparr>getStart = a, getEnd = b\<rparr> n = Some (Ok (p, n'))
    \<and> Tolerance_validateRangeProof sha p \<lparr>getGroup = \<lparr>getN = N, getG = g, getH = h\<rparr>, getCommitmentValue = c\<rparr>
        \<lparr>getStart = a, getEnd = b\<rparr> = Ok ()"
proof -
  define sl sr bound root where "sl = int (isqrt (nat (m - a)))" and "sr = int (isqrt (nat (b - m)))"
    and "bound = int (isqrt (nat ((b - a) * 4)))" and "root = int (isqrt (nat (b - a)))"
  define rl rr where "rl = rand n (- (2 ^ s_param * N - 1)) (2 ^ s_param * N - 1)"
    and "rr = rand (Suc n) (- (2 ^ s_param * N - 1)) (2 ^ s_param * N - 1)"
  define cl cr where "cl = ModPow g (sl * sl) N * ModPow h rl N mod N"
    and "cr = ModPow g (sr * sr) N * ModPow h rr N mod N"
  have N0: "0 < N" using N(1) by simp
  note U = N0 N(2,3)
  have open_l: "opens N g h cl (sl * sl) rl" and open_r: "opens N g h cr (sr * sr) rr"
    by (simp_all add: cl_def cr_def opens_commitment)
  let ?L = "quot_mod (quot_mod c (ModPow g a N) N) cl N" and ?R = "quot_mod (quot_mod (ModPow g b N) c N) cr N"
  obtain sp n1 where sp: "Square_calculateZeroKnowledgeProof rand sha (root + 1) N g h sl rl (Suc (Suc n)) = Ok (sp, n1)"
    "Square_validateZeroKnowledgeProof sha N g h cl sp = Ok ()"
    using Square_honest [OF _ N open_l, of "root + 1" rand sha "Suc (Suc n)"] by (auto simp: root_def)
  obtain sp' n2 where sp': "Square_calculateZeroKnowledgeProof rand sha (root + 1) N g h sr rr n1 = Ok (sp', n2)"
    "Square_validateZeroKnowledgeProof sha N g h cr sp' = Ok ()"
    using Square_honest [OF _ N open_r, of "root + 1" rand sha n1] by (auto simp: root_def)
  have rem: "0 \<le> m - a - sl * sl" "m - a - sl * sl \<le> bound" "0 \<le> b - m - sr * sr" "b - m - sr * sr \<le> bound"
    using remaining_bound [of "m - a" "b - a"] remaining_bound [of "b - m" "b - a"] range
    by (simp_all add: sl_def sr_def bound_def)
  obtain cp n3 where cp: "CFT_calculateProof rand sha bound N g h (m - a - sl * sl) (r - rl) n2 = Some (Ok (cp, n3))"
    "CFT_validateZeroKnowledgeProof sha bound N g h ?L cp = Ok ()"
    using CFT_honest [OF rand rem(1,2) N remaining_opens(1) [OF U c open_l]] by blast
  obtain cp' n4 where cp': "CFT_calculateProof rand sha bound N g h (b - m - sr * sr) (- r - rr) n3 = Some (Ok (cp', n4))"
    "CFT_validateZeroKnowledgeProof sha bound N g h ?R cp' = Ok ()"
    using CFT_honest [OF rand rem(3,4) N remaining_opens(2) [OF U c open_r]] by blast
  have co: "coprime c N" "coprime cl N" "coprime cr N"
    using commitment_coprime U c open_l open_r by blast+
  then have nz: "c \<noteq> 0" "cl \<noteq> 0" "cr \<noteq> 0" using N(1) coprime_nonzero by blast+
  have q: "quot_mod c (ModPow g a N mod N) N = quot_mod c (ModPow g a N) N"
    "quot_mod (ModPow g b N mod N) c N = quot_mod (ModPow g b N) c N"
    using U co(1) by (intro quot_mod_cong; simp add: ModPow_unit)+
  have roots: "floorSquareRoot (m - a) = Ok sl" "floorSquareRoot (b - m) = Ok sr"
    "floorSquareRoot (b - a) = Ok root" "floorSquareRoot ((b - a) * 4) = Ok bound"
    using range by (simp_all add: floorSquareRoot_isqrt sl_def sr_def root_def bound_def)
  have "Tolerance_calculateRangeProof rand sha ttp \<lparr>getStart = a, getEnd = b\<rparr> n
    = Some (Ok (\<lparr>getCLeftSquare = cl, getCRightSquare = cr, getSqrProofLeft = sp, getSqrProofRight = sp',
        getCftProofLeft = cp, getCftProofRight = cp'\<rparr>, n4))"
    using sp(1) sp'(1) cp(1) cp'(1) U roots rl_def [symmetric] rr_def [symmetric]
    by (simp add: Tolerance_calculateRangeProof_def ttp java_commitment_unit Let_def flip: cl_def cr_def)
  moreover have "Tolerance_validateRangeProof sha \<lparr>getCLeftSquare = cl, getCRightSquare = cr,
        getSqrProofLeft = sp, getSqrProofRight = sp', getCftProofLeft = cp, getCftProofRight = cp'\<rparr>
        \<lparr>getGroup = \<lparr>getN = N, getG = g, getH = h\<rparr>, getCommitmentValue = c\<rparr> \<lparr>getStart = a, getEnd = b\<rparr> = Ok ()"
    using nz sp(2) sp'(2) cp(2) cp'(2) U co roots
    by (simp add: Tolerance_validateRangeProof_def Let_def java_modPow_unit divMod_unit ModPow_unit q)
  ultimately show ?thesis by blast
qed

lemma RangeProof_honest:
  assumes rand: "random_fair rand" and N: "1 < N" "coprime g N" "coprime h N"
    and range: "a \<le> x" "x \<le> b" and G: "G = \<lparr>getN = N, getG = g, getH = h\<rparr>" and com: "commit G x y = Ok com"
  shows "\<exists>p n'. RangeProof_calculateRangeProof rand sha \<lparr>getCommitment = com, getX = x, getY = y\<rparr>
      \<lparr>getStart = a, getEnd = b\<rparr> n = Some (Ok (p, n'))
    \<and> RangeProof_validateRangeProof sha p com \<lparr>getStart = a, getEnd = b\<rparr> = Ok ()"
proof -
  define T where "T = 2 * (t_param + l_param + 1) + java_bitLength (b - a)"
  define c c' where "c = ModPow g x N * ModPow h y N mod N" and "c' = ModPow c (2 ^ T) N mod N"
  have N0: "0 < N" using N(1) by simp
  have com': "com = \<lparr>getGroup = G, getCommitmentValue = c\<rparr>"
    using com N0 N(2,3) by (simp add: commit_def java_commitment_unit c_def G)
  have "coprime c N"
    using commitment_coprime [OF N0 N(2,3)] opens_commitment unfolding c_def by blast
  then have pow: "java_modPow c (2 ^ T) N = Ok c'"
    using N0 by (simp add: java_modPow_unit c'_def)
  define ttp where "ttp = \<lparr>getCommitment = \<lparr>getGroup = G, getCommitmentValue
      = ModPow g (x * 2 ^ T) N * ModPow h (y * 2 ^ T) N mod N\<rparr>, getX = x * 2 ^ T, getY = y * 2 ^ T\<rparr>"
  have "opens N g h c' (x * 2 ^ T) (y * 2 ^ T)"
    using zn.commitment_pow [OF N0 N(2,3), of c x y "2 ^ T"] by (simp add: opens_def c_def c'_def)
  then obtain p n' where
    "Tolerance_calculateRangeProof rand sha ttp \<lparr>getStart = a * 2 ^ T, getEnd = b * 2 ^ T\<rparr> n = Some (Ok (p, n'))"
    "Tolerance_validateRangeProof sha p \<lparr>getGroup = G, getCommitmentValue = c'\<rparr>
      \<lparr>getStart = a * 2 ^ T, getEnd = b * 2 ^ T\<rparr> = Ok ()"
    using Tolerance_honest [OF rand N, of "a * 2 ^ T" "x * 2 ^ T" "b * 2 ^ T" c' "y * 2 ^ T" ttp sha n] range
    by (auto simp: ttp_def G)
  then show ?thesis
    unfolding com' RangeProof_calculateRangeProof_def RangeProof_validateRangeProof_def Let_def
      ClosedRange.select_convs TTPMessage.select_convs Commitment.select_convs T_def [symmetric]
    using N0 N(2,3) pow by (simp add: commit_def java_commitment_unit ttp_def G)
qed

lemma honest_packet:
  assumes "random_fair rand" and "\<forall>bs. length (sha bs) = 32"
    and "1 < N" "coprime g N" "coprime h N" and "lo \<le> x" "x \<le> up"
    and "commit \<lparr>getN = N, getG = g, getH = h\<rparr> x y = Ok com"
  shows "\<exists>packet pf n' com'.
    RangeproofPacket rand sha \<lparr>getCommitment = com, getX = x, getY = y\<rparr> \<lparr>getStart = lo, getEnd = up\<rparr> n
      = Some (Ok (packet, n')) \<and>
    ParseInput undef packet = Ok pf \<and>
    ValidateRangeProof sha lo up [getCommitmentValue com, N, g, h] pf = Ok (True, com')"
proof -
  have sha: "sha bs \<noteq> []" for bs using assms(2) by (metis list.size(3) numeral_eq_Suc old.nat.distinct(1))
  obtain p n' where p: "RangeProof_calculateRangeProof rand sha \<lparr>getCommitment = com, getX = x, getY = y\<rparr>
      \<lparr>getStart = lo, getEnd = up\<rparr> n = Some (Ok (p, n'))"
    and v: "RangeProof_validateRangeProof sha p com \<lparr>getStart = lo, getEnd = up\<rparr> = Ok ()"
    using RangeProof_honest [OF assms(1,3-7) refl assms(8)] by blast
  have "getGroup com = \<lparr>getN = N, getG = g, getH = h\<rparr>"
    using assms(8) by (auto simp: commit_def bind_outcome_Ok_iff)
  moreover have "ParseInput undef (exportProof p) = Ok (proof_fields p)"
    unfolding exportProof_def by (rule parse_printed) (simp add: proof_fields_def)
  ultimately show ?thesis
    using RangeProof_validate_accepts [OF sha v] p v assms(6,7)
    by (auto simp: RangeproofPacket_def ClosedRange_contains_def)
qed

section \<open>Properties\<close>

text \<open>C9: Completeness, from the prover to the validator: for a committed number inside the range the
  demo server's packet is produced, whatever random numbers are drawn, as long as they do not for
  ever avoid the middle of the interval of the CFT prover; the text is a list of integers that \<open>ParseInput\<close> reads, and \<open>ValidateRangeProof\<close> accepts it for the same commitment and
  range.\<close>

theorem honest_proof_accepted:
  assumes "random_fair rand" and "\<forall>bs. length (sha bs) = 32"
    and "1 < N" "coprime g N" "coprime h N" and "lo \<le> x" "x \<le> up"
    and "commit \<lparr>getN = N, getG = g, getH = h\<rparr> x y = Ok com"
  shows "\<exists>packet pf n' com'.
    RangeproofPacket rand sha \<lparr>getCommitment = com, getX = x, getY = y\<rparr> \<lparr>getStart = lo, getEnd = up\<rparr> n
      = Some (Ok (packet, n')) \<and>
    ParseInput undef packet = Ok pf \<and>
    ValidateRangeProof sha lo up [getCommitmentValue com, N, g, h] pf = Ok (True, com')"
  using assms by (rule honest_packet)

theorem honest_proof_accepted_witness:
  "\<exists>packet pf n' com'.
    RangeproofPacket (\<lambda>n lo hi. (lo + hi) div 2) (\<lambda>bs. replicate 32 7)
      \<lparr>getCommitment = \<lparr>getGroup = \<lparr>getN = 35, getG = 4, getH = 9\<rparr>, getCommitmentValue = 11\<rparr>, getX = 18, getY = 2\<rparr>
      \<lparr>getStart = 18, getEnd = 200\<rparr> 0 = Some (Ok (packet, n')) \<and>
    ParseInput (\<lambda>_. 0) packet = Ok pf \<and>
    ValidateRangeProof (\<lambda>bs. replicate 32 7) 18 200
      [getCommitmentValue \<lparr>getGroup = \<lparr>getN = 35, getG = 4, getH = 9\<rparr>, getCommitmentValue = 11\<rparr>, 35, 4, 9] pf
      = Ok (True, com')"
proof (rule honest_proof_accepted)
  show "random_fair (\<lambda>n lo hi. (lo + hi) div 2)"
    by (simp add: random_fair_def)
  show "coprime (4 :: int) 35" "coprime (9 :: int) 35" by code_simp+
  show "commit \<lparr>getN = 35, getG = 4, getH = 9\<rparr> 18 2
    = Ok \<lparr>getGroup = \<lparr>getN = 35, getG = 4, getH = 9\<rparr>, getCommitmentValue = 11\<rparr>" by code_simp
qed simp_all

text \<open>C13: Every proof that the Java validator accepts, the Go validator accepts too.\<close>

theorem java_accepted_go_accepted:
  assumes "\<forall>bs. length (sha bs) = 32"
    and "RangeProof_validateRangeProof sha p com \<lparr>getStart = lo, getEnd = up\<rparr> = Ok ()"
  shows "\<exists>com'. ValidateRangeProof sha lo up
    [getCommitmentValue com, getN (getGroup com), getG (getGroup com), getH (getGroup com)] (proof_fields p)
      = Ok (True, com')"
proof -
  have sha: "sha bs \<noteq> []" for bs using assms(1) by (metis list.size(3) numeral_eq_Suc old.nat.distinct(1))
  show ?thesis using RangeProof_validate_accepts [OF sha assms(2)] by simp
qed

theorem java_accepted_go_accepted_witness:
  "\<exists>com'. ValidateRangeProof (\<lambda>bs. replicate 31 0 @ [last bs]) 0 0
     [2, 11, 3, 2] (proof_fields
       \<lparr>getCLeftSquare = 1, getCRightSquare = 1,
        getSqrProofLeft = \<lparr>getF = 1, getECProof = \<lparr>ec_getC = 1, ec_getD = 0, ec_getD1 = 0, ec_getD2 = 0\<rparr>\<rparr>,
        getSqrProofRight = \<lparr>getF = 1, getECProof = \<lparr>ec_getC = 1, ec_getD = 0, ec_getD1 = 0, ec_getD2 = 0\<rparr>\<rparr>,
        getCftProofLeft = \<lparr>cft_getC = 1, cft_getD1 = 0, cft_getD2 = 4\<rparr>,
        getCftProofRight = \<lparr>cft_getC = 1, cft_getD1 = 0, cft_getD2 = 6\<rparr>\<rparr>) = Ok (True, com')"
  (is "\<exists>com'. ValidateRangeProof ?sha 0 0 _ (proof_fields ?p) = _")
proof -
  let ?com = "\<lparr>getGroup = \<lparr>getN = 11, getG = 3, getH = 2\<rparr>, getCommitmentValue = 2\<rparr>"
  have "RangeProof_validateRangeProof ?sha ?p ?com \<lparr>getStart = 0, getEnd = 0\<rparr> = Ok ()" by code_simp
  with java_accepted_go_accepted [of ?sha ?p ?com 0 0] show ?thesis by simp
qed

end
