(* ===== verification/BN256Field.thy ===== *)
theory BN256Field
  imports GoBig
begin

text \<open>
  The constants of package \<open>bn256\<close> (\<open>constants.go\<close>) and the rings that its field types stand for:
  the integers modulo \<open>P\<close>, the quadratic extension by \<open>i\<close> with \<open>i\<^sup>2 = -1\<close>, the cubic extension of that
  by \<open>\<tau>\<close> with \<open>\<tau>\<^sup>3 = \<xi> = i + 9\<close>, and the quadratic extension of that by \<open>\<omega>\<close> with \<open>\<omega>\<^sup>2 = \<tau>\<close>. They
  are commutative rings; that \<open>P\<close> is prime is not needed for what is shown here, divisions are stated
  for elements that have an inverse. The Go types hold integers that are not always reduced: the
  functions from them to these rings are in the theories of the Go types.
\<close>

section \<open>Constants\<close>

definition u_param :: int where
  "u_param = 4965661367192848881"

definition P :: int where
  "P = 21888242871839275222246405745257275088696311157297823662689037894645226208583"

definition Order :: int where
  "Order = 21888242871839275222246405745257275088548364400416034343698204186575808495617"

lemma P_pos [simp]: "0 < P" "1 < P"
  by (simp_all add: P_def)

lemma P_mod [simp]: "1 mod P = 1"
  by (simp add: P_def)

section \<open>Integers modulo P\<close>

typedef fp = "{0 ..< P}"
  by (rule exI [of _ 0]) simp

setup_lifting type_definition_fp

instantiation fp :: comm_ring_1
begin

lift_definition zero_fp :: fp is 0 by simp
lift_definition one_fp :: fp is 1 by simp
lift_definition plus_fp :: "fp \<Rightarrow> fp \<Rightarrow> fp" is "\<lambda>a b. (a + b) mod P" by simp
lift_definition minus_fp :: "fp \<Rightarrow> fp \<Rightarrow> fp" is "\<lambda>a b. (a - b) mod P" by simp
lift_definition uminus_fp :: "fp \<Rightarrow> fp" is "\<lambda>a. (- a) mod P" by simp
lift_definition times_fp :: "fp \<Rightarrow> fp \<Rightarrow> fp" is "\<lambda>a b. (a * b) mod P" by simp

instance
proof
  fix a b c :: fp
  show "a + b + c = a + (b + c)" by transfer (simp add: mod_simps add.assoc)
  show "a + b = b + a" by transfer (simp add: add.commute)
  show "0 + a = a" by transfer simp
  show "- a + a = 0" by transfer (simp add: mod_simps)
  show "a - b = a + - b" by transfer (simp add: mod_simps)
  show "a * b * c = a * (b * c)" by transfer (simp add: mod_simps mult.assoc)
  show "a * b = b * a" by transfer (simp add: mult.commute)
  show "1 * a = a" by transfer simp
  show "(a + b) * c = a * c + b * c" by transfer (simp add: mod_simps distrib_right)
  show "(0 :: fp) \<noteq> 1" by transfer simp
qed

end

text \<open>The integer a field element is stored as stands for its residue.\<close>

lemma Rep_fp_of_nat: "Rep_fp (of_nat n) = int n mod P"
proof (induction n)
  case (Suc n)
  then show ?case by (simp add: plus_fp.rep_eq one_fp.rep_eq mod_simps)
qed (simp add: zero_fp.rep_eq)

lemma Rep_fp_of_int: "Rep_fp (of_int x) = x mod P"
  by (cases x rule: int_cases2) (simp_all add: Rep_fp_of_nat uminus_fp.rep_eq mod_simps)

lemma fp_eq_iff: "(of_int x :: fp) = of_int y \<longleftrightarrow> x mod P = y mod P"
  by (metis Rep_fp_inject Rep_fp_of_int)

lemma fp_eq_0_iff: "(of_int x :: fp) = 0 \<longleftrightarrow> x mod P = 0"
  using fp_eq_iff [of x 0] by simp

lemma fp_eq_1_iff: "(of_int x :: fp) = 1 \<longleftrightarrow> x mod P = 1"
  using fp_eq_iff [of x 1] by simp

lemma of_int_P [simp]: "(of_int P :: fp) = 0"
  by (simp add: fp_eq_0_iff)

lemma of_int_mod_P [simp, gofield]: "(of_int (x mod P) :: fp) = of_int x"
  by (simp add: fp_eq_iff)

lemmas of_int_push = of_int_mult of_int_add of_int_diff of_int_minus of_int_mod_P

lemma fp_cases: "\<exists>x. (a :: fp) = of_int x \<and> 0 \<le> x \<and> x < P"
  using Rep_fp [of a] by (intro exI [of _ "Rep_fp a"]) (auto simp: Rep_fp_of_int simp flip: Rep_fp_inject)

lemma fp_inverse:
  assumes "coprime x P"
  shows "(of_int (big_ModInverse x P) :: fp) * of_int x = 1"
  using ModInverse_correct [OF assms P_pos(1)] fp_eq_iff [of "big_ModInverse x P * x" 1] by simp

section \<open>The quadratic extension by i\<close>

text \<open>\<open>Fp2 x y\<close> is \<open>x i + y\<close>.\<close>

datatype fp2 = Fp2 (fp2_x: fp) (fp2_y: fp)

instantiation fp2 :: comm_ring_1
begin

definition zero_fp2 :: fp2 where "0 = Fp2 0 0"
definition one_fp2 :: fp2 where "1 = Fp2 0 1"
definition plus_fp2 :: "fp2 \<Rightarrow> fp2 \<Rightarrow> fp2" where
  "a + b = Fp2 (fp2_x a + fp2_x b) (fp2_y a + fp2_y b)"
definition minus_fp2 :: "fp2 \<Rightarrow> fp2 \<Rightarrow> fp2" where
  "a - b = Fp2 (fp2_x a - fp2_x b) (fp2_y a - fp2_y b)"
definition uminus_fp2 :: "fp2 \<Rightarrow> fp2" where
  "- a = Fp2 (- fp2_x a) (- fp2_y a)"
definition times_fp2 :: "fp2 \<Rightarrow> fp2 \<Rightarrow> fp2" where
  "a * b = Fp2 (fp2_x a * fp2_y b + fp2_y a * fp2_x b) (fp2_y a * fp2_y b - fp2_x a * fp2_x b)"

instance
  by standard
    (simp_all add: zero_fp2_def one_fp2_def plus_fp2_def minus_fp2_def uminus_fp2_def times_fp2_def fp2.expand
      algebra_simps)

end

lemmas fp2_ring_defs = zero_fp2_def one_fp2_def plus_fp2_def minus_fp2_def uminus_fp2_def times_fp2_def

definition xi :: fp2 where
  "xi = Fp2 1 9"

section \<open>The cubic extension by \<open>\<tau>\<close>\<close>

text \<open>\<open>Fp6 x y z\<close> is \<open>x \<tau>\<^sup>2 + y \<tau> + z\<close>.\<close>

datatype fp6 = Fp6 (fp6_x: fp2) (fp6_y: fp2) (fp6_z: fp2)

instantiation fp6 :: comm_ring_1
begin

definition zero_fp6 :: fp6 where "0 = Fp6 0 0 0"
definition one_fp6 :: fp6 where "1 = Fp6 0 0 1"
definition plus_fp6 :: "fp6 \<Rightarrow> fp6 \<Rightarrow> fp6" where
  "a + b = Fp6 (fp6_x a + fp6_x b) (fp6_y a + fp6_y b) (fp6_z a + fp6_z b)"
definition minus_fp6 :: "fp6 \<Rightarrow> fp6 \<Rightarrow> fp6" where
  "a - b = Fp6 (fp6_x a - fp6_x b) (fp6_y a - fp6_y b) (fp6_z a - fp6_z b)"
definition uminus_fp6 :: "fp6 \<Rightarrow> fp6" where
  "- a = Fp6 (- fp6_x a) (- fp6_y a) (- fp6_z a)"
definition times_fp6 :: "fp6 \<Rightarrow> fp6 \<Rightarrow> fp6" where
  "a * b =
     Fp6 (fp6_x a * fp6_z b + fp6_y a * fp6_y b + fp6_z a * fp6_x b)
         (fp6_y a * fp6_z b + fp6_z a * fp6_y b + xi * (fp6_x a * fp6_x b))
         (fp6_z a * fp6_z b + xi * (fp6_x a * fp6_y b + fp6_y a * fp6_x b))"

instance
  by standard
    (simp_all add: zero_fp6_def one_fp6_def plus_fp6_def minus_fp6_def uminus_fp6_def times_fp6_def fp6.expand
      algebra_simps)

end

lemmas fp6_ring_defs = zero_fp6_def one_fp6_def plus_fp6_def minus_fp6_def uminus_fp6_def times_fp6_def

definition tau :: fp6 where
  "tau = Fp6 0 1 0"

section \<open>The quadratic extension by \<open>\<omega>\<close>\<close>

text \<open>\<open>Fp12 x y\<close> is \<open>x \<omega> + y\<close>.\<close>

datatype fp12 = Fp12 (fp12_x: fp6) (fp12_y: fp6)

instantiation fp12 :: comm_ring_1
begin

definition zero_fp12 :: fp12 where "0 = Fp12 0 0"
definition one_fp12 :: fp12 where "1 = Fp12 0 1"
definition plus_fp12 :: "fp12 \<Rightarrow> fp12 \<Rightarrow> fp12" where
  "a + b = Fp12 (fp12_x a + fp12_x b) (fp12_y a + fp12_y b)"
definition minus_fp12 :: "fp12 \<Rightarrow> fp12 \<Rightarrow> fp12" where
  "a - b = Fp12 (fp12_x a - fp12_x b) (fp12_y a - fp12_y b)"
definition uminus_fp12 :: "fp12 \<Rightarrow> fp12" where
  "- a = Fp12 (- fp12_x a) (- fp12_y a)"
definition times_fp12 :: "fp12 \<Rightarrow> fp12 \<Rightarrow> fp12" where
  "a * b = Fp12 (fp12_x a * fp12_y b + fp12_y a * fp12_x b)
                (fp12_y a * fp12_y b + tau * (fp12_x a * fp12_x b))"

instance
  by standard
    (simp_all add: zero_fp12_def one_fp12_def plus_fp12_def minus_fp12_def uminus_fp12_def times_fp12_def fp12.expand
      algebra_simps)

end

lemmas fp12_ring_defs = zero_fp12_def one_fp12_def plus_fp12_def minus_fp12_def uminus_fp12_def times_fp12_def

end
