(* ===== verification/GfP2.thy ===== *)
theory GfP2
  imports BN256Field
begin

text \<open>
  \<open>gfp2.go\<close>: the Go type \<open>gfP2\<close>, a pair of integers that need not be reduced modulo \<open>P\<close>. A method
  with receiver \<open>e\<close> that overwrites \<open>e\<close> is a function that returns its new value; none of the methods
  reads a part of an argument after it has overwritten that part, so the receiver may be one of the
  arguments. \<open>alpha2\<close> maps a value to the field element it stands for, and each operation is shown
  to be the ring operation there.
\<close>

section \<open>Operations\<close>

record gfP2 =
  gfP2_x :: int
  gfP2_y :: int

definition gfP2_SetZero :: gfP2 where
  "gfP2_SetZero = \<lparr>gfP2_x = 0, gfP2_y = 0\<rparr>"

definition gfP2_SetOne :: gfP2 where
  "gfP2_SetOne = \<lparr>gfP2_x = 0, gfP2_y = 1\<rparr>"

definition gfP2_Minimal :: "gfP2 \<Rightarrow> gfP2" where
  "gfP2_Minimal e =
     \<lparr>gfP2_x = (if gfP2_x e < 0 \<or> P \<le> gfP2_x e then big_Mod (gfP2_x e) P else gfP2_x e),
      gfP2_y = (if gfP2_y e < 0 \<or> P \<le> gfP2_y e then big_Mod (gfP2_y e) P else gfP2_y e)\<rparr>"

definition gfP2_IsZero :: "gfP2 \<Rightarrow> bool" where
  "gfP2_IsZero e \<longleftrightarrow> gfP2_x e = 0 \<and> gfP2_y e = 0"

text \<open>The words of \<open>y\<close> are those of its absolute value.\<close>

definition gfP2_IsOne :: "gfP2 \<Rightarrow> bool" where
  "gfP2_IsOne e \<longleftrightarrow> gfP2_x e = 0 \<and> \<bar>gfP2_y e\<bar> = 1"

definition gfP2_Conjugate :: "gfP2 \<Rightarrow> gfP2" where
  "gfP2_Conjugate a = \<lparr>gfP2_x = - gfP2_x a, gfP2_y = gfP2_y a\<rparr>"

definition gfP2_Negative :: "gfP2 \<Rightarrow> gfP2" where
  "gfP2_Negative a = \<lparr>gfP2_x = - gfP2_x a, gfP2_y = - gfP2_y a\<rparr>"

definition gfP2_Add :: "gfP2 \<Rightarrow> gfP2 \<Rightarrow> gfP2" where
  "gfP2_Add a b = \<lparr>gfP2_x = gfP2_x a + gfP2_x b, gfP2_y = gfP2_y a + gfP2_y b\<rparr>"

definition gfP2_Sub :: "gfP2 \<Rightarrow> gfP2 \<Rightarrow> gfP2" where
  "gfP2_Sub a b = \<lparr>gfP2_x = gfP2_x a - gfP2_x b, gfP2_y = gfP2_y a - gfP2_y b\<rparr>"

definition gfP2_Double :: "gfP2 \<Rightarrow> gfP2" where
  "gfP2_Double a = \<lparr>gfP2_x = big_Lsh (gfP2_x a) 1, gfP2_y = big_Lsh (gfP2_y a) 1\<rparr>"

definition gfP2_Mul :: "gfP2 \<Rightarrow> gfP2 \<Rightarrow> gfP2" where
  "gfP2_Mul a b =
     (let tx = gfP2_x a * gfP2_y b;
          t = gfP2_x b * gfP2_y a;
          tx = tx + t;
          tx = big_Mod tx P;
          ty = gfP2_y a * gfP2_y b;
          t = gfP2_x a * gfP2_x b;
          ty = ty - t
      in \<lparr>gfP2_x = tx, gfP2_y = big_Mod ty P\<rparr>)"

definition gfP2_MulScalar :: "gfP2 \<Rightarrow> int \<Rightarrow> gfP2" where
  "gfP2_MulScalar a b = \<lparr>gfP2_x = gfP2_x a * b, gfP2_y = gfP2_y a * b\<rparr>"

definition gfP2_MulXi :: "gfP2 \<Rightarrow> gfP2" where
  "gfP2_MulXi a =
     (let tx = big_Lsh (gfP2_x a) 3;
          tx = tx + gfP2_x a;
          tx = tx + gfP2_y a;
          ty = big_Lsh (gfP2_y a) 3;
          ty = ty + gfP2_y a;
          ty = ty - gfP2_x a
      in \<lparr>gfP2_x = tx, gfP2_y = ty\<rparr>)"

definition gfP2_Square :: "gfP2 \<Rightarrow> gfP2" where
  "gfP2_Square a =
     (let t1 = gfP2_y a - gfP2_x a;
          t2 = gfP2_x a + gfP2_y a;
          ty = t1 * t2;
          ty = big_Mod ty P;
          t1 = gfP2_x a * gfP2_y a;
          t1 = big_Lsh t1 1
      in \<lparr>gfP2_x = big_Mod t1 P, gfP2_y = ty\<rparr>)"

definition gfP2_Invert :: "gfP2 \<Rightarrow> gfP2" where
  "gfP2_Invert a =
     (let t = gfP2_y a * gfP2_y a;
          t2 = gfP2_x a * gfP2_x a;
          t = t + t2;
          inv = big_ModInverse t P;
          ex = - gfP2_x a;
          ex = ex * inv;
          ex = big_Mod ex P;
          ey = gfP2_y a * inv;
          ey = big_Mod ey P
      in \<lparr>gfP2_x = ex, gfP2_y = ey\<rparr>)"

text \<open>
  The loop of \<open>Exp\<close>, which \<open>gfP2\<close> and \<open>gfP12\<close> share up to their operations: \<open>i\<close> bits are left.
\<close>

fun exp_loop :: "('a \<Rightarrow> 'a) \<Rightarrow> ('a \<Rightarrow> 'a \<Rightarrow> 'a) \<Rightarrow> 'a \<Rightarrow> int \<Rightarrow> nat \<Rightarrow> 'a \<Rightarrow> 'a" where
  "exp_loop square mul a exponent 0 acc = acc"
| "exp_loop square mul a exponent (Suc i) acc =
     (let t = square acc
      in exp_loop square mul a exponent i (if big_Bit exponent i then mul t a else t))"

definition gfP2_Exp :: "gfP2 \<Rightarrow> int \<Rightarrow> gfP2" where
  "gfP2_Exp a exponent = exp_loop gfP2_Square gfP2_Mul a exponent (big_BitLen exponent) gfP2_SetOne"

definition gfP2_Real :: "gfP2 \<Rightarrow> int" where
  "gfP2_Real e = gfP2_x e"

definition gfP2_Imag :: "gfP2 \<Rightarrow> int" where
  "gfP2_Imag e = gfP2_y e"

section \<open>Constants\<close>

definition xiToPMinus1Over6 :: gfP2 where
  "xiToPMinus1Over6 =
     \<lparr>gfP2_x = 16469823323077808223889137241176536799009286646108169935659301613961712198316,
      gfP2_y = 8376118865763821496583973867626364092589906065868298776909617916018768340080\<rparr>"

definition xiToPMinus1Over3 :: gfP2 where
  "xiToPMinus1Over3 =
     \<lparr>gfP2_x = 10307601595873709700152284273816112264069230130616436755625194854815875713954,
      gfP2_y = 21575463638280843010398324269430826099269044274347216827212613867836435027261\<rparr>"

definition xiToPMinus1Over2 :: gfP2 where
  "xiToPMinus1Over2 =
     \<lparr>gfP2_x = 3505843767911556378687030309984248845540243509899259641013678093033130930403,
      gfP2_y = 2821565182194536844548159561693502659359617185244120367078079554186484126554\<rparr>"

definition xiToPSquaredMinus1Over3 :: int where
  "xiToPSquaredMinus1Over3 = 21888242871839275220042445260109153167277707414472061641714758635765020556616"

definition xiTo2PSquaredMinus2Over3 :: int where
  "xiTo2PSquaredMinus2Over3 = 2203960485148121921418603742825762020974279258880205651966"

definition xiToPSquaredMinus1Over6 :: int where
  "xiToPSquaredMinus1Over6 = 21888242871839275220042445260109153167277707414472061641714758635765020556617"

definition xiTo2PMinus2Over3 :: gfP2 where
  "xiTo2PMinus2Over3 =
     \<lparr>gfP2_x = 19937756971775647987995932169929341994314640652964949448313374472400716661030,
      gfP2_y = 2581911344467009335267311115468803099551665605076196740867805258568234346338\<rparr>"

section \<open>Meaning\<close>

definition alpha2 :: "gfP2 \<Rightarrow> fp2" where
  "alpha2 e = Fp2 (of_int (gfP2_x e)) (of_int (gfP2_y e))"

definition conj2 :: "fp2 \<Rightarrow> fp2" where
  "conj2 a = Fp2 (- fp2_x a) (fp2_y a)"

text \<open>Elements of the base field inside the extension.\<close>

definition emb2 :: "int \<Rightarrow> fp2" where
  "emb2 b = Fp2 0 (of_int b)"

definition reduced2 :: "gfP2 \<Rightarrow> bool" where
  "reduced2 e \<longleftrightarrow> 0 \<le> gfP2_x e \<and> gfP2_x e < P \<and> 0 \<le> gfP2_y e \<and> gfP2_y e < P"

lemma alpha2_simps [gofield]:
  "alpha2 gfP2_SetZero = 0"
  "alpha2 gfP2_SetOne = 1"
  "alpha2 (gfP2_Minimal a) = alpha2 a"
  "alpha2 (gfP2_Conjugate a) = conj2 (alpha2 a)"
  "alpha2 (gfP2_Negative a) = - alpha2 a"
  "alpha2 (gfP2_Add a b) = alpha2 a + alpha2 b"
  "alpha2 (gfP2_Sub a b) = alpha2 a - alpha2 b"
  "alpha2 (gfP2_Double a) = alpha2 a + alpha2 a"
  "alpha2 (gfP2_Mul a b) = alpha2 a * alpha2 b"
  "alpha2 (gfP2_MulScalar a k) = alpha2 a * emb2 k"
  "alpha2 (gfP2_MulXi a) = xi * alpha2 a"
  "alpha2 (gfP2_Square a) = alpha2 a * alpha2 a"
  by (simp_all add: alpha2_def gfP2_SetZero_def gfP2_SetOne_def gfP2_Minimal_def gfP2_Conjugate_def conj2_def
      gfP2_Negative_def gfP2_Add_def gfP2_Sub_def gfP2_Double_def gfP2_Mul_def gfP2_MulScalar_def emb2_def
      gfP2_MulXi_def gfP2_Square_def fp2_ring_defs xi_def big_Lsh_def Let_def algebra_simps)

lemma alpha2_Invert:
  assumes "coprime (gfP2_x a * gfP2_x a + gfP2_y a * gfP2_y a) P"
  shows "alpha2 (gfP2_Invert a) * alpha2 a = 1"
proof -
  let ?n = "gfP2_x a * gfP2_x a + gfP2_y a * gfP2_y a"
  have "(of_int (big_ModInverse ?n P) :: fp) * of_int ?n = 1" by (rule fp_inverse [OF assms])
  then show ?thesis
    by (simp add: alpha2_def gfP2_Invert_def fp2_ring_defs Let_def algebra_simps)
qed

lemma reduced2_results [simp]:
  "reduced2 (gfP2_Minimal a)" "reduced2 (gfP2_Mul a b)" "reduced2 (gfP2_Square a)" "reduced2 (gfP2_Invert a)"
  "reduced2 gfP2_SetZero" "reduced2 gfP2_SetOne"
  by (auto simp: reduced2_def gfP2_Minimal_def gfP2_Mul_def gfP2_Square_def gfP2_Invert_def gfP2_SetZero_def
      gfP2_SetOne_def Let_def)

text \<open>A reduced value is determined by the element it stands for.\<close>

lemma reduced2_inject: "reduced2 a \<Longrightarrow> reduced2 b \<Longrightarrow> alpha2 a = alpha2 b \<longleftrightarrow> a = b"
  by (auto simp: reduced2_def alpha2_def fp_eq_iff)

lemma IsZero_iff: "reduced2 a \<Longrightarrow> gfP2_IsZero a \<longleftrightarrow> alpha2 a = 0"
  by (auto simp: reduced2_def gfP2_IsZero_def alpha2_def zero_fp2_def fp_eq_0_iff)

lemma IsOne_iff: "reduced2 a \<Longrightarrow> gfP2_IsOne a \<longleftrightarrow> alpha2 a = 1"
  by (auto simp: reduced2_def gfP2_IsOne_def alpha2_def one_fp2_def fp_eq_0_iff fp_eq_1_iff)

section \<open>Powers\<close>

text \<open>
  Square-and-multiply computes powers wherever the operations it is given are those of a ring under
  some reading of the values.
\<close>

lemma mod_bit: "x mod 2 ^ Suc i = x mod 2 ^ i + (if big_Bit x i then 2 ^ i else 0)"
  using zmod_zmult2_eq [of 2 x "2 ^ i"]
  by (cases "even (x div 2 ^ i)") (simp_all add: big_Bit_def mult.commute odd_iff_mod_2_eq_one)

locale power_ops =
  fixes square :: "'a \<Rightarrow> 'a" and mul :: "'a \<Rightarrow> 'a \<Rightarrow> 'a" and one :: 'a and alpha :: "'a \<Rightarrow> 'r::comm_ring_1"
  assumes square: "alpha (square a) = alpha a * alpha a"
    and mul: "alpha (mul a b) = alpha a * alpha b"
    and one: "alpha one = 1"
begin

lemma exp_loop_power:
  "alpha (exp_loop square mul a exponent i acc) = alpha acc ^ 2 ^ i * alpha a ^ nat (exponent mod 2 ^ i)"
proof (induction i arbitrary: acc)
  case (Suc i)
  have "exponent mod 2 ^ Suc i = exponent mod 2 ^ i + (if big_Bit exponent i then 2 ^ i else 0)"
    by (rule mod_bit)
  then have "nat (exponent mod 2 ^ Suc i) = nat (exponent mod 2 ^ i) + (if big_Bit exponent i then 2 ^ i else 0)"
    by (simp add: nat_add_distrib nat_power_eq)
  moreover have "alpha (square s) ^ 2 ^ i = alpha s ^ 2 ^ Suc i" for s
    by (simp add: square power_mult_distrib mult_2 power_add)
  ultimately show ?case
    by (simp add: Suc Let_def mul power_mult_distrib power_add mult.assoc)
qed simp

lemma exp_power:
  assumes "0 \<le> exponent"
  shows "alpha (exp_loop square mul a exponent (big_BitLen exponent) one) = alpha a ^ nat exponent"
proof -
  have "nat exponent < 2 ^ big_BitLen exponent"
    using nat_bitlen_less [of "nat exponent"] assms by (simp add: big_BitLen_def)
  then have "exponent < 2 ^ big_BitLen exponent" using assms by (simp add: nat_less_iff)
  then have "exponent mod 2 ^ big_BitLen exponent = exponent" using assms by simp
  then show ?thesis by (simp add: exp_loop_power one)
qed

end

interpretation pow2: power_ops gfP2_Square gfP2_Mul gfP2_SetOne alpha2
  by unfold_locales (simp_all add: gofield)

section \<open>The constants\<close>

text \<open>
  The powers of \<open>\<xi>\<close> that the Frobenius maps use are consistent with each other: all of them come from
  \<open>\<xi>\<^sup>(\<^sup>p\<^sup>-\<^sup>1\<^sup>)\<^sup>/\<^sup>6\<close>, whose sixth power takes \<open>\<xi>\<close> to its conjugate and whose norm is the sixth root of unity
  for the square of the Frobenius map.
\<close>

lemmas xi_const_defs = xiToPMinus1Over6_def xiToPMinus1Over3_def xiToPMinus1Over2_def
  xiToPSquaredMinus1Over3_def xiTo2PSquaredMinus2Over3_def xiToPSquaredMinus1Over6_def xiTo2PMinus2Over3_def

text \<open>A product in the extension, from the quotients of its parts by \<open>P\<close>.\<close>

lemma alpha2_mult_eqI:
  assumes "gfP2_x a * gfP2_y b + gfP2_y a * gfP2_x b = gfP2_x c + q * P"
    and "gfP2_y a * gfP2_y b - gfP2_x a * gfP2_x b = gfP2_y c + q' * P"
  shows "alpha2 a * alpha2 b = alpha2 c"
proof -
  have "(of_int (gfP2_x a * gfP2_y b + gfP2_y a * gfP2_x b) :: fp) = of_int (gfP2_x c)"
    "(of_int (gfP2_y a * gfP2_y b - gfP2_x a * gfP2_x b) :: fp) = of_int (gfP2_y c)"
    unfolding assms fp_eq_iff by simp_all
  then show ?thesis by (simp add: alpha2_def times_fp2_def)
qed

lemma emb2_mult: "emb2 a * emb2 b = emb2 (a * b)"
  by (simp add: emb2_def times_fp2_def)

lemma emb2_eqI: "a = b + q * P \<Longrightarrow> emb2 a = emb2 b"
  by (simp add: emb2_def)

lemma alpha2_emb2: "alpha2 \<lparr>gfP2_x = 0, gfP2_y = b\<rparr> = emb2 b"
  by (simp add: alpha2_def emb2_def)

lemma xi_squared: "alpha2 xiToPMinus1Over6 * alpha2 xiToPMinus1Over6 = alpha2 xiToPMinus1Over3"
  by (rule alpha2_mult_eqI
      [where q = "12605232741611732518200907597562414454486712087715537939239625467614142821682" and q' = "- 9187384945308540462265023572126888483200558142639355961218014603309264129099"])
    (simp_all add: xi_const_defs P_def)

lemma xi_cubed: "alpha2 xiToPMinus1Over3 * alpha2 xiToPMinus1Over6 = alpha2 xiToPMinus1Over2"
  by (rule alpha2_mult_eqI
      [where q = "20178950544824406101271420337966227911472077371318223123757831118210307163071" and q' = "500463692477757900954161665112178192989236327137508280708310586254961056914"])
    (simp_all add: xi_const_defs P_def)

lemma xi_fourth: "alpha2 xiToPMinus1Over3 * alpha2 xiToPMinus1Over3 = alpha2 xiTo2PMinus2Over3"
  by (rule alpha2_mult_eqI
      [where q = "20320615476702375430506860014609115530950080671171966475629169588660202602626" and q' = "16413102808253533008374809259677643694336274653055880065433411063678693431749"])
    (simp_all add: xi_const_defs P_def)

definition xiToPMinus1 :: gfP2 where
  "xiToPMinus1 =
     \<lparr>gfP2_x = 1601578746719946967481444322823703055270461791997401731416271065461845820140,
      gfP2_y = 7474034151359752514913406839843947591262155029321208079942598305488613827322\<rparr>"

lemma xi_sixth: "alpha2 xiToPMinus1Over3 * alpha2 xiTo2PMinus2Over3 = alpha2 xiToPMinus1"
  by (rule alpha2_mult_eqI
      [where q = "20868722388663586771216471853804206497738549446064308860017416297575311548074" and q' = "- 6844063368985085211477186942865170631928887993777921354683322128447853411828"])
    (simp_all add: xi_const_defs xiToPMinus1_def P_def)

lemma xi_conjugate: "alpha2 xiToPMinus1 * xi = conj2 xi"
proof -
  have "alpha2 xiToPMinus1 * alpha2 \<lparr>gfP2_x = 1, gfP2_y = 9\<rparr> = alpha2 \<lparr>gfP2_x = - 1, gfP2_y = 9\<rparr>"
    by (rule alpha2_mult_eqI [where q = "1" and q' = "3"])
      (simp_all add: xiToPMinus1_def P_def)
  then show ?thesis by (simp add: alpha2_def xi_def conj2_def)
qed

lemma xi_norm: "conj2 (alpha2 xiToPMinus1Over6) * alpha2 xiToPMinus1Over6 = emb2 xiToPSquaredMinus1Over6"
  unfolding alpha2_simps(4) [symmetric] alpha2_emb2 [symmetric]
  by (rule alpha2_mult_eqI
      [where q = "0" and q' = "15598074708228655218869851970971817356454736547444593497655022181436807992833"])
    (simp_all add: xi_const_defs gfP2_Conjugate_def P_def)

lemma xi_norm_roots:
  "emb2 xiToPSquaredMinus1Over6 * emb2 xiToPSquaredMinus1Over6 = emb2 xiToPSquaredMinus1Over3"
  "emb2 xiToPSquaredMinus1Over3 * emb2 xiToPSquaredMinus1Over3 = emb2 xiTo2PSquaredMinus2Over3"
  "emb2 xiToPSquaredMinus1Over6 * emb2 xiToPSquaredMinus1Over3 = - 1"
proof -
  show "emb2 xiToPSquaredMinus1Over6 * emb2 xiToPSquaredMinus1Over6 = emb2 xiToPSquaredMinus1Over3"
    unfolding emb2_mult
    by (rule emb2_eqI [where q = 21888242871839275217838484774961031246081023806968983599271420891293677114031])
      (simp add: xi_const_defs P_def)
  show "emb2 xiToPSquaredMinus1Over3 * emb2 xiToPSquaredMinus1Over3 = emb2 xiTo2PSquaredMinus2Over3"
    unfolding emb2_mult
    by (rule emb2_eqI [where q = 21888242871839275217838484774961031246081023806968983599271420891293677114030])
      (simp add: xi_const_defs P_def)
  have "emb2 (xiToPSquaredMinus1Over6 * xiToPSquaredMinus1Over3) = emb2 (- 1)"
    by (rule emb2_eqI [where q = 21888242871839275217838484774961031246081023806968983599271420891293677114031])
      (simp add: xi_const_defs P_def)
  then show "emb2 xiToPSquaredMinus1Over6 * emb2 xiToPSquaredMinus1Over3 = - 1"
    by (simp add: emb2_mult) (simp add: emb2_def one_fp2_def uminus_fp2_def)
qed

end
