(* ===== verification/GfP6.thy ===== *)
theory GfP6
  imports GfP2
begin

text \<open>
  \<open>gfp6.go\<close>: the Go type \<open>gfP6\<close>, three values of type \<open>gfP2\<close>; multiplication and squaring by the
  method of Karatsuba, inversion by the norm.
\<close>

section \<open>Operations\<close>

record gfP6 =
  gfP6_x :: gfP2
  gfP6_y :: gfP2
  gfP6_z :: gfP2

definition gfP6_SetZero :: gfP6 where
  "gfP6_SetZero = \<lparr>gfP6_x = gfP2_SetZero, gfP6_y = gfP2_SetZero, gfP6_z = gfP2_SetZero\<rparr>"

definition gfP6_SetOne :: gfP6 where
  "gfP6_SetOne = \<lparr>gfP6_x = gfP2_SetZero, gfP6_y = gfP2_SetZero, gfP6_z = gfP2_SetOne\<rparr>"

definition gfP6_Minimal :: "gfP6 \<Rightarrow> gfP6" where
  "gfP6_Minimal e =
     \<lparr>gfP6_x = gfP2_Minimal (gfP6_x e), gfP6_y = gfP2_Minimal (gfP6_y e), gfP6_z = gfP2_Minimal (gfP6_z e)\<rparr>"

definition gfP6_IsZero :: "gfP6 \<Rightarrow> bool" where
  "gfP6_IsZero e \<longleftrightarrow> gfP2_IsZero (gfP6_x e) \<and> gfP2_IsZero (gfP6_y e) \<and> gfP2_IsZero (gfP6_z e)"

definition gfP6_IsOne :: "gfP6 \<Rightarrow> bool" where
  "gfP6_IsOne e \<longleftrightarrow> gfP2_IsZero (gfP6_x e) \<and> gfP2_IsZero (gfP6_y e) \<and> gfP2_IsOne (gfP6_z e)"

definition gfP6_Negative :: "gfP6 \<Rightarrow> gfP6" where
  "gfP6_Negative a =
     \<lparr>gfP6_x = gfP2_Negative (gfP6_x a), gfP6_y = gfP2_Negative (gfP6_y a), gfP6_z = gfP2_Negative (gfP6_z a)\<rparr>"

definition gfP6_Frobenius :: "gfP6 \<Rightarrow> gfP6" where
  "gfP6_Frobenius a =
     (let ex = gfP2_Conjugate (gfP6_x a);
          ey = gfP2_Conjugate (gfP6_y a);
          ez = gfP2_Conjugate (gfP6_z a)
      in \<lparr>gfP6_x = gfP2_Mul ex xiTo2PMinus2Over3, gfP6_y = gfP2_Mul ey xiToPMinus1Over3, gfP6_z = ez\<rparr>)"

definition gfP6_FrobeniusP2 :: "gfP6 \<Rightarrow> gfP6" where
  "gfP6_FrobeniusP2 a =
     \<lparr>gfP6_x = gfP2_MulScalar (gfP6_x a) xiTo2PSquaredMinus2Over3,
      gfP6_y = gfP2_MulScalar (gfP6_y a) xiToPSquaredMinus1Over3,
      gfP6_z = gfP6_z a\<rparr>"

definition gfP6_Add :: "gfP6 \<Rightarrow> gfP6 \<Rightarrow> gfP6" where
  "gfP6_Add a b =
     \<lparr>gfP6_x = gfP2_Add (gfP6_x a) (gfP6_x b), gfP6_y = gfP2_Add (gfP6_y a) (gfP6_y b),
      gfP6_z = gfP2_Add (gfP6_z a) (gfP6_z b)\<rparr>"

definition gfP6_Sub :: "gfP6 \<Rightarrow> gfP6 \<Rightarrow> gfP6" where
  "gfP6_Sub a b =
     \<lparr>gfP6_x = gfP2_Sub (gfP6_x a) (gfP6_x b), gfP6_y = gfP2_Sub (gfP6_y a) (gfP6_y b),
      gfP6_z = gfP2_Sub (gfP6_z a) (gfP6_z b)\<rparr>"

definition gfP6_Double :: "gfP6 \<Rightarrow> gfP6" where
  "gfP6_Double a =
     \<lparr>gfP6_x = gfP2_Double (gfP6_x a), gfP6_y = gfP2_Double (gfP6_y a), gfP6_z = gfP2_Double (gfP6_z a)\<rparr>"

definition gfP6_Mul :: "gfP6 \<Rightarrow> gfP6 \<Rightarrow> gfP6" where
  "gfP6_Mul a b =
     (let v0 = gfP2_Mul (gfP6_z a) (gfP6_z b);
          v1 = gfP2_Mul (gfP6_y a) (gfP6_y b);
          v2 = gfP2_Mul (gfP6_x a) (gfP6_x b);
          t0 = gfP2_Add (gfP6_x a) (gfP6_y a);
          t1 = gfP2_Add (gfP6_x b) (gfP6_y b);
          tz = gfP2_Mul t0 t1;
          tz = gfP2_Sub tz v1;
          tz = gfP2_Sub tz v2;
          tz = gfP2_MulXi tz;
          tz = gfP2_Add tz v0;
          t0 = gfP2_Add (gfP6_y a) (gfP6_z a);
          t1 = gfP2_Add (gfP6_y b) (gfP6_z b);
          ty = gfP2_Mul t0 t1;
          ty = gfP2_Sub ty v0;
          ty = gfP2_Sub ty v1;
          t0 = gfP2_MulXi v2;
          ty = gfP2_Add ty t0;
          t0 = gfP2_Add (gfP6_x a) (gfP6_z a);
          t1 = gfP2_Add (gfP6_x b) (gfP6_z b);
          tx = gfP2_Mul t0 t1;
          tx = gfP2_Sub tx v0;
          tx = gfP2_Add tx v1;
          tx = gfP2_Sub tx v2
      in \<lparr>gfP6_x = tx, gfP6_y = ty, gfP6_z = tz\<rparr>)"

definition gfP6_MulScalar :: "gfP6 \<Rightarrow> gfP2 \<Rightarrow> gfP6" where
  "gfP6_MulScalar a b =
     \<lparr>gfP6_x = gfP2_Mul (gfP6_x a) b, gfP6_y = gfP2_Mul (gfP6_y a) b, gfP6_z = gfP2_Mul (gfP6_z a) b\<rparr>"

definition gfP6_MulGFP :: "gfP6 \<Rightarrow> int \<Rightarrow> gfP6" where
  "gfP6_MulGFP a b =
     \<lparr>gfP6_x = gfP2_MulScalar (gfP6_x a) b, gfP6_y = gfP2_MulScalar (gfP6_y a) b,
      gfP6_z = gfP2_MulScalar (gfP6_z a) b\<rparr>"

definition gfP6_MulTau :: "gfP6 \<Rightarrow> gfP6" where
  "gfP6_MulTau a =
     (let tz = gfP2_MulXi (gfP6_x a);
          ty = gfP6_y a
      in \<lparr>gfP6_x = ty, gfP6_y = gfP6_z a, gfP6_z = tz\<rparr>)"

definition gfP6_Square :: "gfP6 \<Rightarrow> gfP6" where
  "gfP6_Square a =
     (let v0 = gfP2_Square (gfP6_z a);
          v1 = gfP2_Square (gfP6_y a);
          v2 = gfP2_Square (gfP6_x a);
          c0 = gfP2_Add (gfP6_x a) (gfP6_y a);
          c0 = gfP2_Square c0;
          c0 = gfP2_Sub c0 v1;
          c0 = gfP2_Sub c0 v2;
          c0 = gfP2_MulXi c0;
          c0 = gfP2_Add c0 v0;
          c1 = gfP2_Add (gfP6_y a) (gfP6_z a);
          c1 = gfP2_Square c1;
          c1 = gfP2_Sub c1 v0;
          c1 = gfP2_Sub c1 v1;
          xiV2 = gfP2_MulXi v2;
          c1 = gfP2_Add c1 xiV2;
          c2 = gfP2_Add (gfP6_x a) (gfP6_z a);
          c2 = gfP2_Square c2;
          c2 = gfP2_Sub c2 v0;
          c2 = gfP2_Add c2 v1;
          c2 = gfP2_Sub c2 v2
      in \<lparr>gfP6_x = c2, gfP6_y = c1, gfP6_z = c0\<rparr>)"

text \<open>The norm \<open>F\<close> and the cofactors \<open>A\<close>, \<open>B\<close> and \<open>C'\<close> of \<open>Invert\<close>, before the inversion of \<open>F\<close>.\<close>

definition gfP6_cofactors :: "gfP6 \<Rightarrow> gfP2 \<times> gfP2 \<times> gfP2 \<times> gfP2" where
  "gfP6_cofactors a =
     (let A = gfP2_Square (gfP6_z a);
          t1 = gfP2_Mul (gfP6_x a) (gfP6_y a);
          t1 = gfP2_MulXi t1;
          A = gfP2_Sub A t1;
          B = gfP2_Square (gfP6_x a);
          B = gfP2_MulXi B;
          t1 = gfP2_Mul (gfP6_y a) (gfP6_z a);
          B = gfP2_Sub B t1;
          C' = gfP2_Square (gfP6_y a);
          t1 = gfP2_Mul (gfP6_x a) (gfP6_z a);
          C' = gfP2_Sub C' t1;
          F = gfP2_Mul C' (gfP6_y a);
          F = gfP2_MulXi F;
          t1 = gfP2_Mul A (gfP6_z a);
          F = gfP2_Add F t1;
          t1 = gfP2_Mul B (gfP6_x a);
          t1 = gfP2_MulXi t1;
          F = gfP2_Add F t1
      in (A, B, C', F))"

definition gfP6_Invert :: "gfP6 \<Rightarrow> gfP6" where
  "gfP6_Invert a =
     (case gfP6_cofactors a of (A, B, C', F) \<Rightarrow>
        let F = gfP2_Invert F
        in \<lparr>gfP6_x = gfP2_Mul C' F, gfP6_y = gfP2_Mul B F, gfP6_z = gfP2_Mul A F\<rparr>)"

section \<open>Meaning\<close>

definition alpha6 :: "gfP6 \<Rightarrow> fp6" where
  "alpha6 e = Fp6 (alpha2 (gfP6_x e)) (alpha2 (gfP6_y e)) (alpha2 (gfP6_z e))"

definition emb6 :: "fp2 \<Rightarrow> fp6" where
  "emb6 b = Fp6 0 0 b"

definition reduced6 :: "gfP6 \<Rightarrow> bool" where
  "reduced6 e \<longleftrightarrow> reduced2 (gfP6_x e) \<and> reduced2 (gfP6_y e) \<and> reduced2 (gfP6_z e)"

lemma alpha6_linear [gofield]:
  "alpha6 gfP6_SetZero = 0"
  "alpha6 gfP6_SetOne = 1"
  "alpha6 (gfP6_Minimal a) = alpha6 a"
  "alpha6 (gfP6_Negative a) = - alpha6 a"
  "alpha6 (gfP6_Add a b) = alpha6 a + alpha6 b"
  "alpha6 (gfP6_Sub a b) = alpha6 a - alpha6 b"
  "alpha6 (gfP6_Double a) = alpha6 a + alpha6 a"
  "alpha6 (gfP6_MulScalar a c) = alpha6 a * emb6 (alpha2 c)"
  "alpha6 (gfP6_MulGFP a k) = alpha6 a * emb6 (emb2 k)"
  "alpha6 (gfP6_MulTau a) = tau * alpha6 a"
  by (simp_all add: alpha6_def gfP6_SetZero_def gfP6_SetOne_def gfP6_Minimal_def gfP6_Negative_def gfP6_Add_def
      gfP6_Sub_def gfP6_Double_def gfP6_MulScalar_def gfP6_MulGFP_def gfP6_MulTau_def emb6_def tau_def Let_def
      fp6_ring_defs gofield)

lemma alpha6_Mul [gofield]: "alpha6 (gfP6_Mul a b) = alpha6 a * alpha6 b"
  by (simp add: alpha6_def gfP6_Mul_def Let_def times_fp6_def gofield) (simp add: algebra_simps)

lemma alpha6_Square [gofield]: "alpha6 (gfP6_Square a) = alpha6 a * alpha6 a"
  by (simp add: alpha6_def gfP6_Square_def Let_def times_fp6_def gofield) (simp add: algebra_simps)

text \<open>The cofactors multiply with the element to its norm, an element of the smaller field.\<close>

lemma cofactors_norm:
  assumes "gfP6_cofactors a = (A, B, C', F)"
  shows "Fp6 (alpha2 C') (alpha2 B) (alpha2 A) * alpha6 a = emb6 (alpha2 F)"
  using assms by (auto simp: gfP6_cofactors_def Let_def alpha6_def emb6_def times_fp6_def gofield algebra_simps)

lemma alpha6_Invert:
  assumes "gfP6_cofactors a = (A, B, C', F)" and "coprime (gfP2_x F * gfP2_x F + gfP2_y F * gfP2_y F) P"
  shows "alpha6 (gfP6_Invert a) * alpha6 a = 1"
proof -
  have "alpha6 (gfP6_Invert a) = emb6 (alpha2 (gfP2_Invert F)) * Fp6 (alpha2 C') (alpha2 B) (alpha2 A)"
    using assms(1) by (simp add: gfP6_Invert_def Let_def alpha6_def emb6_def times_fp6_def gofield mult.commute)
  then have "alpha6 (gfP6_Invert a) * alpha6 a = emb6 (alpha2 (gfP2_Invert F)) * emb6 (alpha2 F)"
    using cofactors_norm [OF assms(1)] by (simp add: mult.assoc)
  also have "\<dots> = emb6 (alpha2 (gfP2_Invert F) * alpha2 F)"
    by (simp add: emb6_def times_fp6_def)
  finally show ?thesis using alpha2_Invert [OF assms(2)] by (simp add: emb6_def one_fp6_def)
qed

section \<open>The Frobenius map\<close>

lemma conj2_simps [simp]:
  "conj2 0 = 0" "conj2 1 = 1" "conj2 (a + b) = conj2 a + conj2 b" "conj2 (a - b) = conj2 a - conj2 b"
  "conj2 (- a) = - conj2 a" "conj2 (a * b) = conj2 a * conj2 b" "conj2 (conj2 a) = a" "conj2 (emb2 k) = emb2 k"
  by (simp_all add: conj2_def fp2_ring_defs emb2_def algebra_simps)

definition frob6 :: "fp6 \<Rightarrow> fp6" where
  "frob6 a = Fp6 (conj2 (fp6_x a) * alpha2 xiTo2PMinus2Over3) (conj2 (fp6_y a) * alpha2 xiToPMinus1Over3)
                 (conj2 (fp6_z a))"

definition frobP2_6 :: "fp6 \<Rightarrow> fp6" where
  "frobP2_6 a = Fp6 (fp6_x a * emb2 xiTo2PSquaredMinus2Over3) (fp6_y a * emb2 xiToPSquaredMinus1Over3) (fp6_z a)"

lemma alpha6_Frobenius [gofield]:
  "alpha6 (gfP6_Frobenius a) = frob6 (alpha6 a)"
  "alpha6 (gfP6_FrobeniusP2 a) = frobP2_6 (alpha6 a)"
  by (simp_all add: alpha6_def gfP6_Frobenius_def gfP6_FrobeniusP2_def frob6_def frobP2_6_def Let_def gofield)

text \<open>The relations between the constants, in the form the products need.\<close>

lemma xi_relations:
  "alpha2 xiTo2PMinus2Over3 = alpha2 xiToPMinus1Over3 * alpha2 xiToPMinus1Over3"
  "conj2 xi = xi * (alpha2 xiToPMinus1Over3 * alpha2 xiToPMinus1Over3 * alpha2 xiToPMinus1Over3)"
  using xi_fourth xi_sixth xi_conjugate by (simp_all add: ac_simps)

lemma frob6_mult: "frob6 (a * b) = frob6 a * frob6 b"
  by (simp add: frob6_def times_fp6_def xi_relations algebra_simps)

lemma frob6_add: "frob6 (a + b) = frob6 a + frob6 b"
  by (simp add: frob6_def plus_fp6_def algebra_simps)

lemma xi_norms:
  "conj2 (alpha2 xiToPMinus1Over3) * alpha2 xiToPMinus1Over3 = emb2 xiToPSquaredMinus1Over3"
  "conj2 (alpha2 xiTo2PMinus2Over3) * alpha2 xiTo2PMinus2Over3 = emb2 xiTo2PSquaredMinus2Over3"
proof -
  let ?c = "alpha2 xiToPMinus1Over6"
  have "conj2 (?c * ?c) * (?c * ?c) = (conj2 ?c * ?c) * (conj2 ?c * ?c)" by (simp add: ac_simps)
  then show 3: "conj2 (alpha2 xiToPMinus1Over3) * alpha2 xiToPMinus1Over3 = emb2 xiToPSquaredMinus1Over3"
    unfolding xi_norm xi_squared xi_norm_roots .
  let ?d = "alpha2 xiToPMinus1Over3"
  have "conj2 (?d * ?d) * (?d * ?d) = (conj2 ?d * ?d) * (conj2 ?d * ?d)" by (simp add: ac_simps)
  then show "conj2 (alpha2 xiTo2PMinus2Over3) * alpha2 xiTo2PMinus2Over3 = emb2 xiTo2PSquaredMinus2Over3"
    unfolding 3 xi_fourth xi_norm_roots .
qed

lemma frob6_twice: "frob6 (frob6 a) = frobP2_6 a"
  using xi_norms by (simp add: frob6_def frobP2_6_def mult.assoc)

lemma frobP2_6_mult: "frobP2_6 (a * b) = frobP2_6 a * frobP2_6 b"
  by (simp add: frob6_mult flip: frob6_twice)

lemma frobP2_6_thrice: "frobP2_6 (frobP2_6 (frobP2_6 a)) = a"
proof -
  let ?z = "emb2 xiToPSquaredMinus1Over6"
  have z3: "?z * (?z * ?z) = - 1" using xi_norm_roots(1,3) by simp
  have y: "emb2 xiToPSquaredMinus1Over3 * (emb2 xiToPSquaredMinus1Over3 * emb2 xiToPSquaredMinus1Over3) = 1"
  proof -
    have "(?z * ?z) * ((?z * ?z) * (?z * ?z)) = (?z * (?z * ?z)) * (?z * (?z * ?z))" by (simp add: ac_simps)
    then show ?thesis using z3 xi_norm_roots(1) by simp
  qed
  let ?w = "emb2 xiToPSquaredMinus1Over3"
  have "(?w * ?w) * ((?w * ?w) * (?w * ?w)) = (?w * (?w * ?w)) * (?w * (?w * ?w))" by (simp add: ac_simps)
  then have "emb2 xiTo2PSquaredMinus2Over3 * (emb2 xiTo2PSquaredMinus2Over3 * emb2 xiTo2PSquaredMinus2Over3) = 1"
    using y xi_norm_roots(2) by simp
  with y show ?thesis by (simp add: frobP2_6_def mult.assoc)
qed

end
