(* ===== verification/GfP12.thy ===== *)
theory GfP12
  imports GfP6
begin

text \<open>
  \<open>gfp12.go\<close>: the Go type \<open>gfP12\<close>, two values of type \<open>gfP6\<close>. \<open>MulScalar\<close> multiplies its receiver and
  not its argument \<open>a\<close>, and \<open>Conjugate\<close> returns its argument; both are modelled as they are written.
\<close>

section \<open>Operations\<close>

record gfP12 =
  gfP12_x :: gfP6
  gfP12_y :: gfP6

definition gfP12_SetZero :: gfP12 where
  "gfP12_SetZero = \<lparr>gfP12_x = gfP6_SetZero, gfP12_y = gfP6_SetZero\<rparr>"

definition gfP12_SetOne :: gfP12 where
  "gfP12_SetOne = \<lparr>gfP12_x = gfP6_SetZero, gfP12_y = gfP6_SetOne\<rparr>"

definition gfP12_Minimal :: "gfP12 \<Rightarrow> gfP12" where
  "gfP12_Minimal e = \<lparr>gfP12_x = gfP6_Minimal (gfP12_x e), gfP12_y = gfP6_Minimal (gfP12_y e)\<rparr>"

definition gfP12_IsZero :: "gfP12 \<Rightarrow> bool" where
  "gfP12_IsZero e = (let e = gfP12_Minimal e in gfP6_IsZero (gfP12_x e) \<and> gfP6_IsZero (gfP12_y e))"

definition gfP12_IsOne :: "gfP12 \<Rightarrow> bool" where
  "gfP12_IsOne e = (let e = gfP12_Minimal e in gfP6_IsZero (gfP12_x e) \<and> gfP6_IsOne (gfP12_y e))"

text \<open>What the receiver becomes; the value returned is the argument.\<close>

definition gfP12_Conjugate :: "gfP12 \<Rightarrow> gfP12" where
  "gfP12_Conjugate a = \<lparr>gfP12_x = gfP6_Negative (gfP12_x a), gfP12_y = gfP12_y a\<rparr>"

definition gfP12_Negative :: "gfP12 \<Rightarrow> gfP12" where
  "gfP12_Negative a = \<lparr>gfP12_x = gfP6_Negative (gfP12_x a), gfP12_y = gfP6_Negative (gfP12_y a)\<rparr>"

definition gfP12_Frobenius :: "gfP12 \<Rightarrow> gfP12" where
  "gfP12_Frobenius a =
     (let ex = gfP6_Frobenius (gfP12_x a);
          ey = gfP6_Frobenius (gfP12_y a)
      in \<lparr>gfP12_x = gfP6_MulScalar ex xiToPMinus1Over6, gfP12_y = ey\<rparr>)"

definition gfP12_FrobeniusP2 :: "gfP12 \<Rightarrow> gfP12" where
  "gfP12_FrobeniusP2 a =
     (let ex = gfP6_FrobeniusP2 (gfP12_x a);
          ex = gfP6_MulGFP ex xiToPSquaredMinus1Over6
      in \<lparr>gfP12_x = ex, gfP12_y = gfP6_FrobeniusP2 (gfP12_y a)\<rparr>)"

definition gfP12_Add :: "gfP12 \<Rightarrow> gfP12 \<Rightarrow> gfP12" where
  "gfP12_Add a b = \<lparr>gfP12_x = gfP6_Add (gfP12_x a) (gfP12_x b), gfP12_y = gfP6_Add (gfP12_y a) (gfP12_y b)\<rparr>"

definition gfP12_Sub :: "gfP12 \<Rightarrow> gfP12 \<Rightarrow> gfP12" where
  "gfP12_Sub a b = \<lparr>gfP12_x = gfP6_Sub (gfP12_x a) (gfP12_x b), gfP12_y = gfP6_Sub (gfP12_y a) (gfP12_y b)\<rparr>"

definition gfP12_Mul :: "gfP12 \<Rightarrow> gfP12 \<Rightarrow> gfP12" where
  "gfP12_Mul a b =
     (let tx = gfP6_Mul (gfP12_x a) (gfP12_y b);
          t = gfP6_Mul (gfP12_x b) (gfP12_y a);
          tx = gfP6_Add tx t;
          ty = gfP6_Mul (gfP12_y a) (gfP12_y b);
          t = gfP6_Mul (gfP12_x a) (gfP12_x b);
          t = gfP6_MulTau t
      in \<lparr>gfP12_x = tx, gfP12_y = gfP6_Add ty t\<rparr>)"

definition gfP12_MulScalar :: "gfP12 \<Rightarrow> gfP12 \<Rightarrow> gfP6 \<Rightarrow> gfP12" where
  "gfP12_MulScalar e a b = \<lparr>gfP12_x = gfP6_Mul (gfP12_x e) b, gfP12_y = gfP6_Mul (gfP12_y e) b\<rparr>"

definition gfP12_Square :: "gfP12 \<Rightarrow> gfP12" where
  "gfP12_Square a =
     (let v0 = gfP6_Mul (gfP12_x a) (gfP12_y a);
          t = gfP6_MulTau (gfP12_x a);
          t = gfP6_Add (gfP12_y a) t;
          ty = gfP6_Add (gfP12_x a) (gfP12_y a);
          ty = gfP6_Mul ty t;
          ty = gfP6_Sub ty v0;
          t = gfP6_MulTau v0;
          ty = gfP6_Sub ty t
      in \<lparr>gfP12_x = gfP6_Double v0, gfP12_y = ty\<rparr>)"

definition gfP12_Exp :: "gfP12 \<Rightarrow> int \<Rightarrow> gfP12" where
  "gfP12_Exp a exponent = exp_loop gfP12_Square gfP12_Mul a exponent (big_BitLen exponent) gfP12_SetOne"

definition gfP12_Invert :: "gfP12 \<Rightarrow> gfP12" where
  "gfP12_Invert a =
     (let t1 = gfP6_Square (gfP12_x a);
          t2 = gfP6_Square (gfP12_y a);
          t1 = gfP6_MulTau t1;
          t1 = gfP6_Sub t2 t1;
          t2 = gfP6_Invert t1;
          e = \<lparr>gfP12_x = gfP6_Negative (gfP12_x a), gfP12_y = gfP12_y a\<rparr>
      in gfP12_MulScalar e e t2)"

section \<open>Meaning\<close>

definition alpha12 :: "gfP12 \<Rightarrow> fp12" where
  "alpha12 e = Fp12 (alpha6 (gfP12_x e)) (alpha6 (gfP12_y e))"

definition conj12 :: "fp12 \<Rightarrow> fp12" where
  "conj12 a = Fp12 (- fp12_x a) (fp12_y a)"

definition frob12 :: "fp12 \<Rightarrow> fp12" where
  "frob12 a = Fp12 (frob6 (fp12_x a) * emb6 (alpha2 xiToPMinus1Over6)) (frob6 (fp12_y a))"

definition frobP2_12 :: "fp12 \<Rightarrow> fp12" where
  "frobP2_12 a = Fp12 (frobP2_6 (fp12_x a) * emb6 (emb2 xiToPSquaredMinus1Over6)) (frobP2_6 (fp12_y a))"

lemma alpha12_simps [gofield]:
  "alpha12 gfP12_SetZero = 0"
  "alpha12 gfP12_SetOne = 1"
  "alpha12 (gfP12_Minimal a) = alpha12 a"
  "alpha12 (gfP12_Conjugate a) = conj12 (alpha12 a)"
  "alpha12 (gfP12_Negative a) = - alpha12 a"
  "alpha12 (gfP12_Frobenius a) = frob12 (alpha12 a)"
  "alpha12 (gfP12_FrobeniusP2 a) = frobP2_12 (alpha12 a)"
  "alpha12 (gfP12_Add a b) = alpha12 a + alpha12 b"
  "alpha12 (gfP12_Sub a b) = alpha12 a - alpha12 b"
  "alpha12 (gfP12_Mul a b) = alpha12 a * alpha12 b"
  "alpha12 (gfP12_MulScalar e a s) = alpha12 e * Fp12 0 (alpha6 s)"
  "alpha12 (gfP12_Square a) = alpha12 a * alpha12 a"
  by (simp_all add: alpha12_def gfP12_SetZero_def gfP12_SetOne_def gfP12_Minimal_def gfP12_Conjugate_def
      conj12_def gfP12_Negative_def gfP12_Frobenius_def frob12_def gfP12_FrobeniusP2_def frobP2_12_def
      gfP12_Add_def gfP12_Sub_def gfP12_Mul_def gfP12_MulScalar_def gfP12_Square_def Let_def fp12_ring_defs
      gofield algebra_simps)

interpretation pow12: power_ops gfP12_Square gfP12_Mul gfP12_SetOne alpha12
  by unfold_locales (simp_all add: gofield)

text \<open>The element whose inverse \<open>Invert\<close> needs, in the field below.\<close>

definition gfP12_norm :: "gfP12 \<Rightarrow> gfP6" where
  "gfP12_norm a = gfP6_Sub (gfP6_Square (gfP12_y a)) (gfP6_MulTau (gfP6_Square (gfP12_x a)))"

lemma alpha12_norm: "conj12 (alpha12 a) * alpha12 a = Fp12 0 (alpha6 (gfP12_norm a))"
  by (simp add: alpha12_def conj12_def gfP12_norm_def times_fp12_def gofield algebra_simps)

lemma alpha12_Invert_of:
  assumes "alpha6 (gfP6_Invert (gfP12_norm a)) * alpha6 (gfP12_norm a) = 1"
  shows "alpha12 (gfP12_Invert a) * alpha12 a = 1"
proof -
  have "alpha12 (gfP12_Invert a) = Fp12 0 (alpha6 (gfP6_Invert (gfP12_norm a))) * conj12 (alpha12 a)"
    by (simp add: gfP12_Invert_def Let_def gfP12_norm_def [symmetric] gfP12_Conjugate_def [symmetric] gofield mult.commute)
  then have "alpha12 (gfP12_Invert a) * alpha12 a
      = Fp12 0 (alpha6 (gfP6_Invert (gfP12_norm a))) * Fp12 0 (alpha6 (gfP12_norm a))"
    by (simp add: alpha12_norm mult.assoc)
  also have "\<dots> = 1"
    using assms by (simp add: times_fp12_def one_fp12_def)
  finally show ?thesis .
qed

section \<open>The Frobenius map\<close>

lemma emb6_simps: "frob6 (emb6 c) = emb6 (conj2 c)" "emb6 a * emb6 b = emb6 (a * b)" "emb6 1 = 1" "emb6 (- 1) = - 1"
  by (simp_all add: frob6_def emb6_def fp6_ring_defs)

lemma frob6_tau: "frob6 tau = tau * (emb6 (alpha2 xiToPMinus1Over6) * emb6 (alpha2 xiToPMinus1Over6))"
  unfolding emb6_simps xi_squared by (simp add: frob6_def tau_def emb6_def times_fp6_def zero_fp2_def [symmetric])

lemma frob12_mult: "frob12 (a * b) = frob12 a * frob12 b"
  by (simp add: frob12_def times_fp12_def frob6_mult frob6_add frob6_tau algebra_simps)

lemma frob12_add: "frob12 (a + b) = frob12 a + frob12 b"
  by (simp add: frob12_def plus_fp12_def frob6_add algebra_simps)

lemma frob12_one: "frob12 1 = 1"
  by (simp add: frob12_def one_fp12_def zero_fp6_def one_fp6_def frob6_def times_fp6_def)

lemma frob12_twice: "frob12 (frob12 a) = frobP2_12 a"
  using xi_norm by (simp add: frob12_def frobP2_12_def frob6_mult frob6_twice emb6_simps mult.assoc)

lemma frobP2_12_mult: "frobP2_12 (a * b) = frobP2_12 a * frobP2_12 b"
  by (simp add: frob12_mult flip: frob12_twice)

text \<open>Three times the square of the Frobenius map is the conjugation.\<close>

lemma frobP2_12_thrice: "frobP2_12 (frobP2_12 (frobP2_12 a)) = conj12 a"
proof -
  let ?z = "emb2 xiToPSquaredMinus1Over6"
  have fixed: "frobP2_6 (emb6 ?z) = emb6 ?z" by (simp add: frobP2_6_def emb6_def zero_fp2_def [symmetric])
  have "?z * (?z * ?z) = - 1" using xi_norm_roots(1,3) by simp
  then have "emb6 ?z * (emb6 ?z * emb6 ?z) = - 1" by (simp add: emb6_simps)
  then show ?thesis
    by (simp add: frobP2_12_def frobP2_6_mult fixed frobP2_6_thrice conj12_def mult.assoc)
qed

section \<open>Properties\<close>

text \<open>C20: The operations of \<open>gfP12\<close>, built from Karatsuba multiplication in \<open>gfP6\<close> and unreduced sums
  in \<open>gfP2\<close>, are those of the ring \<open>F\<^sub>p[i, \<tau>, \<omega>]\<close> with \<open>i\<^sup>2 = -1\<close>, \<open>\<tau>\<^sup>3 = i + 9\<close> and \<open>\<omega>\<^sup>2 = \<tau>\<close>.\<close>

theorem gfP12_arithmetic:
  "alpha12 (gfP12_Add a b) = alpha12 a + alpha12 b \<and>
   alpha12 (gfP12_Sub a b) = alpha12 a - alpha12 b \<and>
   alpha12 (gfP12_Negative a) = - alpha12 a \<and>
   alpha12 (gfP12_Mul a b) = alpha12 a * alpha12 b \<and>
   alpha12 (gfP12_Square a) = alpha12 a * alpha12 a \<and>
   alpha12 gfP12_SetOne = 1 \<and> alpha12 gfP12_SetZero = 0 \<and>
   alpha12 (gfP12_Minimal a) = alpha12 a"
  by (simp add: gofield)

text \<open>C21: \<open>Invert\<close> returns the inverse whenever the norm of its argument down to the integers modulo \<open>P\<close> is
  relatively prime to \<open>P\<close>, although its comment gives another cofactor than the code computes.\<close>

theorem gfP12_inverse:
  assumes "gfP6_cofactors (gfP12_norm a) = (A, B, C', F)"
    and "coprime (gfP2_x F * gfP2_x F + gfP2_y F * gfP2_y F) P"
  shows "alpha12 (gfP12_Invert a) * alpha12 a = 1"
  using alpha12_Invert_of [OF alpha6_Invert [OF assms]] .

definition two_plus_omega :: gfP12 where
  "two_plus_omega =
     \<lparr>gfP12_x = \<lparr>gfP6_x = gfP2_SetZero, gfP6_y = gfP2_SetZero, gfP6_z = gfP2_SetOne\<rparr>,
      gfP12_y = \<lparr>gfP6_x = gfP2_SetZero, gfP6_y = gfP2_SetZero, gfP6_z = \<lparr>gfP2_x = 0, gfP2_y = 2\<rparr>\<rparr>\<rparr>"

theorem gfP12_inverse_witness: "alpha12 (gfP12_Invert two_plus_omega) * alpha12 two_plus_omega = 1"
proof (rule gfP12_inverse)
  show "gfP6_cofactors (gfP12_norm two_plus_omega) =
    (\<lparr>gfP2_x = 0, gfP2_y = 16\<rparr>, \<lparr>gfP2_x = 0, gfP2_y = - (P - 4)\<rparr>, \<lparr>gfP2_x = 0, gfP2_y = 1\<rparr>,
     \<lparr>gfP2_x = P - 1, gfP2_y = (P - 1) * 9 + 64\<rparr>)"
    by code_simp
  show "coprime (gfP2_x \<lparr>gfP2_x = P - 1, gfP2_y = (P - 1) * 9 + 64\<rparr> * gfP2_x \<lparr>gfP2_x = P - 1, gfP2_y = (P - 1) * 9 + 64\<rparr>
      + gfP2_y \<lparr>gfP2_x = P - 1, gfP2_y = (P - 1) * 9 + 64\<rparr> * gfP2_y \<lparr>gfP2_x = P - 1, gfP2_y = (P - 1) * 9 + 64\<rparr>) P"
    by code_simp
qed

text \<open>\<open>Exp\<close> computes powers for every non-negative exponent.\<close>

theorem gfP12_power:
  assumes "0 \<le> n"
  shows "alpha12 (gfP12_Exp a n) = alpha12 a ^ nat n"
  unfolding gfP12_Exp_def by (rule pow12.exp_power [OF assms])

theorem gfP12_power_witness: "alpha12 (gfP12_Exp two_plus_omega u_param) = alpha12 two_plus_omega ^ nat u_param"
  by (rule gfP12_power) (simp add: u_param_def)

text \<open>C33: \<open>Frobenius\<close>, with its precomputed powers of \<open>\<xi>\<close>, is a ring endomorphism; \<open>FrobeniusP2\<close> is the same as
  applying it twice, and applying \<open>FrobeniusP2\<close> three times is the conjugation that the final
  exponentiation uses for it.\<close>

theorem gfP12_frobenius:
  "alpha12 (gfP12_Frobenius (gfP12_Mul a b)) = alpha12 (gfP12_Frobenius a) * alpha12 (gfP12_Frobenius b) \<and>
   alpha12 (gfP12_Frobenius (gfP12_Add a b)) = alpha12 (gfP12_Frobenius a) + alpha12 (gfP12_Frobenius b) \<and>
   alpha12 (gfP12_Frobenius gfP12_SetOne) = 1 \<and>
   alpha12 (gfP12_Frobenius (gfP12_Frobenius a)) = alpha12 (gfP12_FrobeniusP2 a) \<and>
   alpha12 (gfP12_FrobeniusP2 (gfP12_FrobeniusP2 (gfP12_FrobeniusP2 a))) = alpha12 (gfP12_Conjugate a)"
  by (simp add: gofield frob12_mult frob12_add frob12_one frob12_twice frobP2_12_thrice)

end
