(* ===== verification/Jacobian.thy ===== *)
theory Jacobian
  imports Prelude
begin

text \<open>
  Jacobian coordinates over a commutative ring: the point addition and doubling that \<open>curve.go\<close> and
  \<open>twist.go\<close> share, as formulas on triples, and what they compute. The triple \<open>(x, y, z)\<close> stands for
  the affine point \<open>(X, Y)\<close> with \<open>x = X z\<^sup>2\<close> and \<open>y = Y z\<^sup>3\<close> of the curve \<open>Y\<^sup>2 = X\<^sup>3 + b\<close>.
\<close>

type_synonym 'a triple = "'a \<times> 'a \<times> 'a"

definition jac_double :: "'a::comm_ring_1 triple \<Rightarrow> 'a triple" where
  "jac_double = (\<lambda>(x, y, z).
     let A = x * x; B = y * y; C' = B * B;
         t = (x + B) * (x + B) - A - C'; d = t + t; e = A + A + A;
         x' = e * e - (d + d);
         w = C' + C' + (C' + C')
     in (x', e * (d - x') - (w + w), y * z + y * z))"

definition jac_add :: "'a::comm_ring_1 triple \<Rightarrow> 'a triple \<Rightarrow> 'a triple" where
  "jac_add = (\<lambda>(x1, y1, z1) (x2, y2, z2).
     let u1 = x1 * (z2 * z2); u2 = x2 * (z1 * z1);
         s1 = y1 * (z2 * (z2 * z2)); s2 = y2 * (z1 * (z1 * z1));
         h = u2 - u1; i = (h + h) * (h + h); j = h * i; r = (s2 - s1) + (s2 - s1); v = u1 * i;
         x3 = r * r - j - (v + v)
     in (x3, r * (v - x3) - (s1 * j + s1 * j), ((z1 + z2) * (z1 + z2) - z1 * z1 - z2 * z2) * h))"

text \<open>The same with the common factors collected.\<close>

lemma jac_double_alt:
  "jac_double (x, y, z) =
     (let d = 4 * (x * (y * y)); e = 3 * (x * x); x' = e * e - 2 * d
      in (x', e * (d - x') - 8 * (y * y * (y * y)), 2 * (y * z)))"
  by (simp add: jac_double_def Let_def algebra_simps)

lemma jac_add_alt:
  "jac_add (x1, y1, z1) (x2, y2, z2) =
     (let u1 = x1 * (z2 * z2); u2 = x2 * (z1 * z1);
          s1 = y1 * (z2 * (z2 * z2)); s2 = y2 * (z1 * (z1 * z1));
          h = u2 - u1; d = s2 - s1;
          x3 = 4 * (d * d) - 4 * (h * h * h) - 8 * (u1 * (h * h))
      in (x3, 2 * d * (4 * (u1 * (h * h)) - x3) - 8 * (s1 * (h * h * h)), 2 * (z1 * z2) * h))"
proof -
  have x3: "(d + d) * (d + d) - h * ((h + h) * (h + h)) - (u * ((h + h) * (h + h)) + u * ((h + h) * (h + h)))
      = 4 * (d * d) - 4 * (h * h * h) - 8 * (u * (h * h))"
    and y3: "(d + d) * (u * ((h + h) * (h + h)) - w) - (s * (h * ((h + h) * (h + h))) + s * (h * ((h + h) * (h + h))))
      = 2 * d * (4 * (u * (h * h)) - w) - 8 * (s * (h * h * h))"
    and z3: "((z1 + z2) * (z1 + z2) - z1 * z1 - z2 * z2) * h = 2 * (z1 * z2) * h"
    for u h d s w :: 'a
    by (simp_all add: algebra_simps)
  show ?thesis
    by (simp only: jac_add_def Let_def prod.case x3 y3 z3)
qed

definition jac_on :: "'a::comm_ring_1 \<Rightarrow> 'a triple \<Rightarrow> bool" where
  "jac_on b = (\<lambda>(x, y, z). y * y = x * x * x + b * (z * z * z) * (z * z * z))"

definition jac_point :: "'a::comm_ring_1 triple \<Rightarrow> 'a \<Rightarrow> 'a \<Rightarrow> bool" where
  "jac_point = (\<lambda>(x, y, z) X Y. x = X * (z * z) \<and> y = Y * (z * z * z))"

section \<open>The results are on the curve\<close>

lemma double_identity:
  fixes x s :: "'a::comm_ring_1"
  shows "(3 * (x * x) * (4 * (x * s) - (9 * (x * x) * (x * x) - 8 * (x * s))) - 8 * (s * s))
      * (3 * (x * x) * (4 * (x * s) - (9 * (x * x) * (x * x) - 8 * (x * s))) - 8 * (s * s))
    - (9 * (x * x) * (x * x) - 8 * (x * s)) * (9 * (x * x) * (x * x) - 8 * (x * s)) * (9 * (x * x) * (x * x) - 8 * (x * s))
    = 64 * (s * s * s) * (s - x * x * x)"
  by (simp add: algebra_simps)

lemma jac_double_on:
  assumes "jac_on b p"
  shows "jac_on b (jac_double p)"
proof -
  obtain x y z where p: "p = (x, y, z)" by (cases p)
  define s where "s = y * y"
  have "64 * (s * s * s) * (s - x * x * x) = 64 * (s * s * s) * (b * (z * z * z) * (z * z * z))"
    using assms by (simp add: jac_on_def p s_def)
  also have "\<dots> = b * ((2 * (y * z)) * (2 * (y * z)) * (2 * (y * z))) * ((2 * (y * z)) * (2 * (y * z)) * (2 * (y * z)))"
    by (simp add: s_def algebra_simps)
  finally show ?thesis
    using double_identity [of x s] by (simp add: jac_on_def jac_double_alt p Let_def s_def algebra_simps)
qed

text \<open>
  The identity behind the addition: with \<open>h\<close> and \<open>d\<close> the differences of the scaled coordinates, the
  result is on the curve up to a multiple of the difference of the two curve equations.
\<close>

lemma add_identity:
  fixes u s h d :: "'a::comm_ring_1"
  shows "(2 * d * (4 * (u * (h * h)) - (4 * (d * d) - 4 * (h * h * h) - 8 * (u * (h * h)))) - 8 * (s * (h * h * h)))
      * (2 * d * (4 * (u * (h * h)) - (4 * (d * d) - 4 * (h * h * h) - 8 * (u * (h * h)))) - 8 * (s * (h * h * h)))
    - (4 * (d * d) - 4 * (h * h * h) - 8 * (u * (h * h))) * (4 * (d * d) - 4 * (h * h * h) - 8 * (u * (h * h)))
      * (4 * (d * d) - 4 * (h * h * h) - 8 * (u * (h * h)))
    = 64 * (h * h * h) * (h * h * h) * (s * s - u * u * u)
      - 64 * (h * h * h) * (3 * (u * (h * h)) + h * h * h - d * d)
        * (((s + d) * (s + d) - (u + h) * (u + h) * (u + h)) - (s * s - u * u * u))"
  by (simp add: algebra_simps)

lemma jac_add_on:
  assumes "jac_on b p" "jac_on b q"
  shows "jac_on b (jac_add p q)"
proof -
  obtain x1 y1 z1 where p: "p = (x1, y1, z1)" by (cases p)
  obtain x2 y2 z2 where q: "q = (x2, y2, z2)" by (cases q)
  define u s h d Z where "u = x1 * (z2 * z2)" and "s = y1 * (z2 * (z2 * z2))"
    and "h = x2 * (z1 * z1) - u" and "d = y2 * (z1 * (z1 * z1)) - s" and "Z = z1 * z2"
  have 1: "s * s - u * u * u = b * (Z * Z * Z) * (Z * Z * Z)"
  proof -
    have "s * s - u * u * u = (y1 * y1 - x1 * x1 * x1) * (z2 * z2 * z2) * (z2 * z2 * z2)"
      by (simp add: s_def u_def algebra_simps)
    also have "\<dots> = b * (z1 * z1 * z1) * (z1 * z1 * z1) * (z2 * z2 * z2) * (z2 * z2 * z2)"
      using assms(1) by (simp add: jac_on_def p)
    finally show ?thesis by (simp add: Z_def ac_simps)
  qed
  have 2: "(s + d) * (s + d) - (u + h) * (u + h) * (u + h) = b * (Z * Z * Z) * (Z * Z * Z)"
  proof -
    have "(s + d) * (s + d) - (u + h) * (u + h) * (u + h)
        = (y2 * y2 - x2 * x2 * x2) * (z1 * z1 * z1) * (z1 * z1 * z1)"
      by (simp add: d_def h_def algebra_simps)
    also have "\<dots> = b * (z2 * z2 * z2) * (z2 * z2 * z2) * (z1 * z1 * z1) * (z1 * z1 * z1)"
      using assms(2) by (simp add: jac_on_def q)
    finally show ?thesis by (simp add: Z_def ac_simps)
  qed
  have 3: "64 * (h * h * h) * (h * h * h) * (b * (Z * Z * Z) * (Z * Z * Z))
      = b * ((2 * Z * h) * (2 * Z * h) * (2 * Z * h)) * ((2 * Z * h) * (2 * Z * h) * (2 * Z * h))"
    by (simp add: algebra_simps)
  have eq: "jac_add p q = (4 * (d * d) - 4 * (h * h * h) - 8 * (u * (h * h)),
      2 * d * (4 * (u * (h * h)) - (4 * (d * d) - 4 * (h * h * h) - 8 * (u * (h * h)))) - 8 * (s * (h * h * h)),
      2 * Z * h)"
    unfolding jac_add_alt p q Let_def Z_def d_def h_def u_def s_def ..
  show ?thesis
    using add_identity [of d u h s] unfolding 1 2 3
    by (simp only: eq jac_on_def prod.case diff_self mult_zero_right diff_zero diff_eq_eq add.commute)
qed

section \<open>The results are the chord and tangent points\<close>

text \<open>
  For every slope of the chord, the sum stands for the third point of the chord, reflected; for every
  slope of the tangent, so does the double.
\<close>

lemma jac_add_chord:
  assumes "jac_point p X1 Y1" "jac_point q X2 Y2" and "l * (X2 - X1) = Y2 - Y1" and "X3 = l * l - X1 - X2"
  shows "jac_point (jac_add p q) X3 (l * (X1 - X3) - Y1)"
proof -
  obtain z1 z2 where p: "p = (X1 * (z1 * z1), Y1 * (z1 * z1 * z1), z1)" and q: "q = (X2 * (z2 * z2), Y2 * (z2 * z2 * z2), z2)"
    using assms(1,2) by (cases p, cases q) (auto simp: jac_point_def)
  have Y2: "Y2 = Y1 + l * (X2 - X1)" using assms(3) by simp
  show ?thesis
    by (simp add: p q jac_point_def jac_add_alt Let_def assms(4) Y2 algebra_simps)
qed

lemma jac_double_tangent:
  assumes "jac_point p X Y" and "l * (2 * Y) = 3 * (X * X)" and "X3 = l * l - 2 * X"
  shows "jac_point (jac_double p) X3 (l * (X - X3) - Y)"
proof -
  obtain z where p: "p = (X * (z * z), Y * (z * z * z), z)"
    using assms(1) by (cases p) (auto simp: jac_point_def)
  have sq: "9 * (X * X) * (X * X) = 4 * (l * l) * (Y * Y)"
    using arg_cong2 [OF assms(2) assms(2), of "(*)"] by (simp add: algebra_simps)
  have cube: "27 * (X * X) * (X * X) * (X * X) = 8 * (l * l * l) * (Y * Y * Y)"
    using arg_cong2 [OF sq assms(2) [symmetric], of "(*)"] by (simp add: algebra_simps)
  have lin: "36 * (X * X * X) * (Y * Y) = 24 * (l * X) * (Y * Y * Y)"
    using arg_cong [OF assms(2), of "\<lambda>v. 12 * (X * (Y * Y)) * v"] by (simp add: algebra_simps)
  define w where "w = z * z * (z * z)"
  have "jac_double p = ((9 * (X * X) * (X * X) - 8 * (X * (Y * Y))) * (w * w),
      (36 * (X * X * X) * (Y * Y) - 27 * (X * X) * (X * X) * (X * X) - 8 * (Y * Y) * (Y * Y)) * (w * w * w), 2 * Y * w)"
    by (simp add: p jac_double_alt Let_def w_def algebra_simps)
  also have "\<dots> = (X3 * ((2 * Y * w) * (2 * Y * w)), (l * (X - X3) - Y) * ((2 * Y * w) * (2 * Y * w) * (2 * Y * w)), 2 * Y * w)"
    unfolding sq cube lin assms(3) by (simp add: algebra_simps)
  finally show ?thesis by (simp add: jac_point_def)
qed

section \<open>The operations of a curve\<close>

text \<open>Two triples stand for the same point, compared as \<open>Add\<close> does.\<close>

definition jac_same :: "'a::comm_ring_1 triple \<Rightarrow> 'a triple \<Rightarrow> bool" where
  "jac_same = (\<lambda>(x1, y1, z1) (x2, y2, z2).
     x2 * (z1 * z1) = x1 * (z2 * z2) \<and> y2 * (z1 * (z1 * z1)) = y1 * (z2 * (z2 * z2)))"

lemma unit_cancel: "(z :: 'a::comm_ring_1) * w = 1 \<Longrightarrow> a * z = b * z \<longleftrightarrow> a = b"
  by (metis mult.assoc mult.right_neutral)

lemma jac_same_iff:
  assumes "jac_point p X1 Y1" "jac_point q X2 Y2" and "snd (snd p) * w = 1" "snd (snd q) * v = 1"
  shows "jac_same p q \<longleftrightarrow> X1 = X2 \<and> Y1 = Y2"
proof -
  obtain z y where p: "p = (X1 * (z * z), Y1 * (z * z * z), z)" and q: "q = (X2 * (y * y), Y2 * (y * y * y), y)"
    using assms(1,2) by (cases p, cases q) (auto simp: jac_point_def)
  define Z W where "Z = z * y" and "W = w * v"
  have "Z * W = (z * w) * (y * v)" by (simp add: Z_def W_def ac_simps)
  then have ZW: "Z * W = 1" using assms(3,4) p q by simp
  have "(Z * Z) * (W * W) = (Z * W) * (Z * W)" "(Z * Z * Z) * (W * W * W) = (Z * W) * (Z * W) * (Z * W)"
    by (simp_all add: ac_simps)
  then have u2: "(Z * Z) * (W * W) = 1" and u3: "(Z * Z * Z) * (W * W * W) = 1" by (simp_all add: ZW)
  have "jac_same p q \<longleftrightarrow> X2 * (Z * Z) = X1 * (Z * Z) \<and> Y2 * (Z * Z * Z) = Y1 * (Z * Z * Z)"
    by (simp add: jac_same_def p q Z_def ac_simps)
  then show ?thesis unfolding unit_cancel [OF u2] unit_cancel [OF u3] by auto
qed

lemma jac_point_exists:
  assumes "snd (snd p) * w = 1"
  obtains X Y where "jac_point p X Y"
proof -
  obtain x y z where p: "p = (x, y, z)" by (cases p)
  have zw: "z * w = 1" using assms by (simp add: p)
  have "x * (w * w) * (z * z) = x * ((z * w) * (z * w))" "y * (w * (w * w)) * (z * z * z) = y * ((z * w) * (z * w) * (z * w))"
    by (simp_all add: ac_simps)
  then have "jac_point p (x * (w * w)) (y * (w * (w * w)))" by (simp add: jac_point_def p zw)
  then show thesis by (rule that)
qed

lemma jac_on_affine:
  assumes "jac_on b p" "jac_point p X Y" "snd (snd p) * w = 1"
  shows "jac_on b (X, Y, 1)"
proof -
  obtain z where p: "p = (X * (z * z), Y * (z * z * z), z)" using assms(2) by (cases p) (auto simp: jac_point_def)
  define Z W where "Z = z * z * z * (z * z * z)" and "W = w * w * w * (w * w * w)"
  have "Z * W = (z * w) * (z * w) * (z * w) * ((z * w) * (z * w) * (z * w))" by (simp add: Z_def W_def ac_simps)
  then have ZW: "Z * W = 1" using assms(3) by (simp add: p)
  have "Y * Y * Z = (X * X * X + b) * Z"
    using assms(1) by (simp add: p jac_on_def Z_def algebra_simps)
  then show ?thesis by (simp add: unit_cancel [OF ZW] jac_on_def)
qed

text \<open>
  What \<open>curve.go\<close> and \<open>twist.go\<close> promise: their methods compute the formulas above under a reading
  \<open>alpha\<close> of the points, with the cases for infinity and for equal points, and their \<open>Mul\<close> runs the
  double-and-add loop. The facts on closure and on the group law are proved here once.
\<close>

locale jac_ops =
  fixes alpha :: "'p \<Rightarrow> 'r::comm_ring_1 triple" and is_inf :: "'p \<Rightarrow> bool"
    and double :: "'p \<Rightarrow> 'p \<Rightarrow> 'p" and add :: "'p \<Rightarrow> 'p \<Rightarrow> 'p \<Rightarrow> 'p"
    and bit_of :: "int \<Rightarrow> nat \<Rightarrow> bool" and loop :: "'p \<Rightarrow> int \<Rightarrow> nat \<Rightarrow> 'p \<Rightarrow> 'p \<Rightarrow> 'p"
  assumes alpha_double: "alpha (double c a) = jac_double (alpha a)"
    and double_inf: "is_inf a \<Longrightarrow> is_inf (double c a)"
    and add_inf: "is_inf a \<or> is_inf b \<Longrightarrow> add c a b = (if is_inf a then b else a)"
    and add_same: "\<not> is_inf a \<Longrightarrow> \<not> is_inf b \<Longrightarrow> jac_same (alpha a) (alpha b) \<Longrightarrow> add c a b = double c a"
    and add_other: "\<not> is_inf a \<Longrightarrow> \<not> is_inf b \<Longrightarrow> \<not> jac_same (alpha a) (alpha b)
      \<Longrightarrow> alpha (add c a b) = jac_add (alpha a) (alpha b)"
    and loop_0: "loop a k 0 s t = s"
    and loop_Suc: "loop a k (Suc i) s t =
      loop a k i (if bit_of k i then add s (double t s) a else double t s) (double t s)"
begin

lemma on_double:
  "is_inf a \<or> jac_on b (alpha a) \<Longrightarrow> is_inf (double c a) \<or> jac_on b (alpha (double c a))"
  using double_inf [of a c] by (auto simp: alpha_double jac_double_on)

lemma on_add:
  assumes "is_inf p \<or> jac_on b (alpha p)" "is_inf q \<or> jac_on b (alpha q)"
  shows "is_inf (add c p q) \<or> jac_on b (alpha (add c p q))"
proof (cases "is_inf p \<or> is_inf q")
  case True
  with assms show ?thesis by (auto simp: add_inf)
next
  case False
  with assms show ?thesis
    by (cases "jac_same (alpha p) (alpha q)") (simp_all add: add_same add_other on_double jac_add_on)
qed

lemma on_loop:
  assumes "is_inf a \<or> jac_on b (alpha a)" "is_inf s \<or> jac_on b (alpha s)"
  shows "is_inf (loop a k i s t) \<or> jac_on b (alpha (loop a k i s t))"
  using assms(2) by (induction i arbitrary: s t) (simp_all add: loop_0 loop_Suc on_add on_double assms(1))

lemma add_law:
  assumes "\<not> is_inf a" "\<not> is_inf b" "snd (snd (alpha a)) * w = 1" "snd (snd (alpha b)) * v = 1"
    and "jac_point (alpha a) X1 Y1" "jac_point (alpha b) X2 Y2"
    and "if X1 = X2 \<and> Y1 = Y2 then l * (2 * Y1) = 3 * (X1 * X1) else l * (X2 - X1) = Y2 - Y1"
    and "X3 = l * l - X1 - X2"
  shows "jac_point (alpha (add c a b)) X3 (l * (X1 - X3) - Y1)"
proof (cases "X1 = X2 \<and> Y1 = Y2")
  case True
  then show ?thesis
    using assms jac_same_iff [OF assms(5,6,3,4)] jac_double_tangent [of "alpha a" X1 Y1 l X3]
    by (simp add: add_same alpha_double)
next
  case False
  then show ?thesis
    using assms jac_same_iff [OF assms(5,6,3,4)] jac_add_chord [of "alpha a" X1 Y1 "alpha b" X2 Y2 l X3]
    by (simp add: add_other)
qed

lemma add_inverse:
  assumes "\<not> is_inf a" "\<not> is_inf b" "snd (snd (alpha a)) * w = 1" "snd (snd (alpha b)) * v = 1"
    and "jac_point (alpha a) X Y1" "jac_point (alpha b) X Y2" "Y1 \<noteq> Y2"
  shows "\<not> jac_same (alpha a) (alpha b)" and "snd (snd (alpha (add c a b))) = 0"
proof -
  show neq: "\<not> jac_same (alpha a) (alpha b)" using jac_same_iff [OF assms(5,6,3,4)] assms(7) by simp
  obtain x1 y1 z1 x2 y2 z2 where pq: "alpha a = (x1, y1, z1)" "alpha b = (x2, y2, z2)"
    by (cases "alpha a", cases "alpha b")
  have "x2 * (z1 * z1) - x1 * (z2 * z2) = 0"
    using assms(5,6) by (simp add: pq jac_point_def ac_simps)
  then show "snd (snd (alpha (add c a b))) = 0"
    by (simp add: add_other [OF assms(1,2) neq] pq jac_add_alt Let_def)
qed

end

end
