(* ===== verification/Curve.thy ===== *)
theory Curve
  imports BN256Field Jacobian
begin

text \<open>
  \<open>curve.go\<close>: points of \<open>y\<^sup>2 = x\<^sup>3 + 3\<close> over the integers modulo \<open>P\<close> in Jacobian form. A method that
  writes to its receiver is a function of the receiver's old value \<open>c\<close>, of which it keeps what it does
  not overwrite. \<open>Double\<close> reads the coordinate \<open>y\<close> of its argument again after it has written that of
  its receiver: the parameter \<open>inplace\<close> says whether the receiver is the (first) argument. Temporaries
  come from a pool that is empty at the calls of \<open>Mul\<close>, so new points start as zeros.
\<close>

section \<open>Operations\<close>

record curvePoint =
  cp_x :: int
  cp_y :: int
  cp_z :: int
  cp_t :: int

abbreviation curveB :: int where
  "curveB \<equiv> 3"

definition curveGen :: curvePoint where
  "curveGen = \<lparr>cp_x = 1, cp_y = - 2, cp_z = 1, cp_t = 1\<rparr>"

definition newCurvePoint :: curvePoint where
  "newCurvePoint = \<lparr>cp_x = 0, cp_y = 0, cp_z = 0, cp_t = 0\<rparr>"

definition curvePoint_Set :: "curvePoint \<Rightarrow> curvePoint" where
  "curvePoint_Set a = \<lparr>cp_x = cp_x a, cp_y = cp_y a, cp_z = cp_z a, cp_t = cp_t a\<rparr>"

definition curvePoint_IsOnCurve :: "curvePoint \<Rightarrow> bool" where
  "curvePoint_IsOnCurve c =
     (let yy = cp_y c * cp_y c;
          xxx = cp_x c * cp_x c;
          xxx = xxx * cp_x c;
          yy = yy - xxx;
          yy = yy - curveB;
          yy = (if yy < 0 \<or> P \<le> yy then big_Mod yy P else yy)
      in yy = 0)"

definition curvePoint_SetInfinity :: "curvePoint \<Rightarrow> curvePoint" where
  "curvePoint_SetInfinity c = c\<lparr>cp_z := 0\<rparr>"

definition curvePoint_IsInfinity :: "curvePoint \<Rightarrow> bool" where
  "curvePoint_IsInfinity c \<longleftrightarrow> cp_z c = 0"

definition curvePoint_Double :: "bool \<Rightarrow> curvePoint \<Rightarrow> curvePoint \<Rightarrow> curvePoint" where
  "curvePoint_Double inplace c a =
     (let A = big_Mod (cp_x a * cp_x a) P;
          B = big_Mod (cp_y a * cp_y a) P;
          C' = big_Mod (B * B) P;
          t = cp_x a + B;
          t2 = big_Mod (t * t) P;
          t = t2 - A;
          t2 = t - C';
          d = t2 + t2;
          t = A + A;
          e = t + A;
          f = big_Mod (e * e) P;
          t = d + d;
          cx = f - t;
          t = C' + C';
          t2 = t + t;
          t = t2 + t2;
          cy = d - cx;
          t2 = big_Mod (e * cy) P;
          cy = t2 - t;
          ay = (if inplace then cy else cp_y a);
          t = big_Mod (ay * cp_z a) P;
          cz = t + t
      in \<lparr>cp_x = cx, cp_y = cy, cp_z = cz, cp_t = cp_t c\<rparr>)"

definition curvePoint_Add :: "bool \<Rightarrow> curvePoint \<Rightarrow> curvePoint \<Rightarrow> curvePoint \<Rightarrow> curvePoint" where
  "curvePoint_Add inplace c a b =
     (if curvePoint_IsInfinity a then curvePoint_Set b
      else if curvePoint_IsInfinity b then curvePoint_Set a
      else
        let z1z1 = big_Mod (cp_z a * cp_z a) P;
            z2z2 = big_Mod (cp_z b * cp_z b) P;
            u1 = big_Mod (cp_x a * z2z2) P;
            u2 = big_Mod (cp_x b * z1z1) P;
            t = big_Mod (cp_z b * z2z2) P;
            s1 = big_Mod (cp_y a * t) P;
            t = big_Mod (cp_z a * z1z1) P;
            s2 = big_Mod (cp_y b * t) P;
            h = u2 - u1;
            xEqual = (h = 0);
            t = h + h;
            i = big_Mod (t * t) P;
            j = big_Mod (h * i) P;
            t = s2 - s1;
            yEqual = (t = 0)
        in
        if xEqual \<and> yEqual then curvePoint_Double inplace c a
        else
          let r = t + t;
              v = big_Mod (u1 * i) P;
              t4 = big_Mod (r * r) P;
              t = v + v;
              t6 = t4 - j;
              cx = t6 - t;
              t = v - cx;
              t4 = big_Mod (s1 * j) P;
              t6 = t4 + t4;
              t4 = big_Mod (r * t) P;
              cy = t4 - t6;
              t = cp_z a + cp_z b;
              t4 = big_Mod (t * t) P;
              t = t4 - z1z1;
              t4 = t - z2z2;
              cz = big_Mod (t4 * h) P
          in \<lparr>cp_x = cx, cp_y = cy, cp_z = cz, cp_t = cp_t c\<rparr>)"

text \<open>The loop of \<open>Mul\<close>, with \<open>i\<close> bits left.\<close>

fun curve_mul_loop :: "curvePoint \<Rightarrow> int \<Rightarrow> nat \<Rightarrow> curvePoint \<Rightarrow> curvePoint \<Rightarrow> curvePoint" where
  "curve_mul_loop a scalar 0 sm t = sm"
| "curve_mul_loop a scalar (Suc i) sm t =
     (let t = curvePoint_Double False t sm;
          sm = (if big_Bit scalar i then curvePoint_Add False sm t a else curvePoint_Set t)
      in curve_mul_loop a scalar i sm t)"

definition curvePoint_Mul :: "curvePoint \<Rightarrow> int \<Rightarrow> curvePoint" where
  "curvePoint_Mul a scalar =
     (let sm = curvePoint_SetInfinity newCurvePoint;
          t = newCurvePoint
      in curvePoint_Set (curve_mul_loop a scalar (Suc (big_BitLen scalar)) sm t))"

text \<open>The words of \<open>z\<close> are those of its absolute value.\<close>

definition curvePoint_MakeAffine :: "curvePoint \<Rightarrow> curvePoint" where
  "curvePoint_MakeAffine c =
     (if \<bar>cp_z c\<bar> = 1 then c
      else
        let zInv = big_ModInverse (cp_z c) P;
            t = big_Mod (cp_y c * zInv) P;
            zInv2 = big_Mod (zInv * zInv) P;
            cy = big_Mod (t * zInv2) P;
            t = big_Mod (cp_x c * zInv2) P
        in \<lparr>cp_x = t, cp_y = cy, cp_z = 1, cp_t = 1\<rparr>)"

definition curvePoint_Negative :: "curvePoint \<Rightarrow> curvePoint" where
  "curvePoint_Negative a = \<lparr>cp_x = cp_x a, cp_y = - cp_y a, cp_z = cp_z a, cp_t = 0\<rparr>"

section \<open>Meaning\<close>

definition alpha1 :: "curvePoint \<Rightarrow> fp triple" where
  "alpha1 c = (of_int (cp_x c), of_int (cp_y c), of_int (cp_z c))"

definition on_curve :: "curvePoint \<Rightarrow> bool" where
  "on_curve c \<longleftrightarrow> curvePoint_IsInfinity c \<or> jac_on 3 (alpha1 c)"

lemma alpha1_Set [simp]: "curvePoint_Set a = a"
  by (simp add: curvePoint_Set_def)

lemma alpha1_Double: "alpha1 (curvePoint_Double False c a) = jac_double (alpha1 a)"
  by (simp only: alpha1_def curvePoint_Double_def jac_double_def Let_def prod.case if_False big_Mod_pos [OF P_pos(1)]
      curvePoint.select_convs of_int_push)

text \<open>The coordinates that \<open>Add\<close> compares are reduced, so they are equal exactly as residues.\<close>

definition same_scaled :: "curvePoint \<Rightarrow> curvePoint \<Rightarrow> bool" where
  "same_scaled a b \<longleftrightarrow>
     cp_x b * (cp_z a * cp_z a) mod P = cp_x a * (cp_z b * cp_z b) mod P \<and>
     cp_y b * (cp_z a * (cp_z a * cp_z a)) mod P = cp_y a * (cp_z b * (cp_z b * cp_z b)) mod P"

text \<open>\<open>Add\<close> on finite points, with the comparison made explicit.\<close>

lemma Add_finite:
  assumes "\<not> curvePoint_IsInfinity a" "\<not> curvePoint_IsInfinity b"
  shows "curvePoint_Add inplace c a b =
    (let u1 = cp_x a * (cp_z b * cp_z b) mod P; u2 = cp_x b * (cp_z a * cp_z a) mod P;
         s1 = cp_y a * (cp_z b * (cp_z b * cp_z b)) mod P; s2 = cp_y b * (cp_z a * (cp_z a * cp_z a)) mod P;
         h = u2 - u1; i = (h + h) * (h + h) mod P; j = h * i mod P; r = (s2 - s1) + (s2 - s1); v = u1 * i mod P;
         x3 = r * r mod P - j - (v + v)
     in if same_scaled a b then curvePoint_Double inplace c a
        else \<lparr>cp_x = x3, cp_y = r * (v - x3) mod P - (s1 * j mod P + s1 * j mod P),
               cp_z = ((cp_z a + cp_z b) * (cp_z a + cp_z b) mod P - cp_z a * cp_z a mod P - cp_z b * cp_z b mod P) * h mod P,
               cp_t = cp_t c\<rparr>)"
proof -
  have "same_scaled a b \<longleftrightarrow> cp_x b * (cp_z a * cp_z a) mod P - cp_x a * (cp_z b * cp_z b) mod P = 0 \<and>
     cp_y b * (cp_z a * (cp_z a * cp_z a)) mod P - cp_y a * (cp_z b * (cp_z b * cp_z b)) mod P = 0"
    by (simp add: same_scaled_def)
  then show ?thesis
    unfolding curvePoint_Add_def Let_def
    by (simp only: assms if_False big_Mod_pos [OF P_pos(1)] mod_mult_right_eq mod_mult_right_right)
qed

lemma Add_same:
  assumes "\<not> curvePoint_IsInfinity a" "\<not> curvePoint_IsInfinity b" "same_scaled a b"
  shows "curvePoint_Add inplace c a b = curvePoint_Double inplace c a"
  using assms by (simp add: Add_finite Let_def)

lemma alpha1_Add:
  assumes "\<not> curvePoint_IsInfinity a" "\<not> curvePoint_IsInfinity b" "\<not> same_scaled a b"
  shows "alpha1 (curvePoint_Add inplace c a b) = jac_add (alpha1 a) (alpha1 b)"
  by (simp only: Add_finite [OF assms(1,2)] Let_def alpha1_def jac_add_def prod.case assms(3) if_False
      curvePoint.select_convs of_int_push)

lemma Add_infinity:
  assumes "curvePoint_IsInfinity a \<or> curvePoint_IsInfinity b"
  shows "curvePoint_Add inplace c a b = (if curvePoint_IsInfinity a then b else a)"
  using assms unfolding curvePoint_Add_def alpha1_Set
  by (cases "curvePoint_IsInfinity a") (simp_all only: if_True if_False disj_not1 simp_thms)

lemma same_scaled_jac: "same_scaled a b \<longleftrightarrow> jac_same (alpha1 a) (alpha1 b)"
  unfolding same_scaled_def fp_eq_iff [symmetric] by (simp add: jac_same_def alpha1_def)

lemma Double_infinity: "curvePoint_IsInfinity a \<Longrightarrow> curvePoint_IsInfinity (curvePoint_Double inplace c a)"
  by (simp add: curvePoint_IsInfinity_def curvePoint_Double_def Let_def)

interpretation g1: jac_ops alpha1 curvePoint_IsInfinity "curvePoint_Double False" "curvePoint_Add False" big_Bit curve_mul_loop
  by unfold_locales
    (simp_all add: alpha1_Double Double_infinity Add_infinity Add_same alpha1_Add same_scaled_jac [symmetric] Let_def)

lemmas on_curve_Double = g1.on_double [where b = 3, folded on_curve_def]
  and on_curve_Add = g1.on_add [where b = 3, folded on_curve_def]
  and on_curve_mul_loop = g1.on_loop [where b = 3, folded on_curve_def]

lemma on_curve_Mul: "on_curve a \<Longrightarrow> on_curve (curvePoint_Mul a scalar)"
  unfolding curvePoint_Mul_def Let_def alpha1_Set
  by (erule on_curve_mul_loop)
    (simp add: on_curve_def curvePoint_IsInfinity_def curvePoint_SetInfinity_def)

lemma on_curve_Negative: "on_curve a \<Longrightarrow> on_curve (curvePoint_Negative a)"
  by (auto simp: on_curve_def curvePoint_IsInfinity_def jac_on_def alpha1_def curvePoint_Negative_def)

lemma IsOnCurve_iff: "cp_z c = 1 \<Longrightarrow> curvePoint_IsOnCurve c \<longleftrightarrow> on_curve c"
proof -
  assume z: "cp_z c = 1"
  let ?v = "cp_y c * cp_y c - cp_x c * cp_x c * cp_x c - 3"
  have "curvePoint_IsOnCurve c \<longleftrightarrow> ?v mod P = 0"
    by (auto simp: curvePoint_IsOnCurve_def Let_def)
  also have "\<dots> \<longleftrightarrow> (of_int ?v :: fp) = 0" by (simp only: fp_eq_0_iff)
  also have "\<dots> \<longleftrightarrow> on_curve c" by (auto simp: on_curve_def curvePoint_IsInfinity_def jac_on_def alpha1_def z algebra_simps)
  finally show ?thesis .
qed

section \<open>Infinity\<close>

text \<open>
  \<open>z\<close> is 0 or not a multiple of \<open>P\<close>: then \<open>IsInfinity\<close> is right although \<open>z\<close> need not be reduced.
\<close>

definition z_valid :: "curvePoint \<Rightarrow> bool" where
  "z_valid c \<longleftrightarrow> (cp_z c mod P = 0 \<longrightarrow> cp_z c = 0)"

lemma P_odd: "(t + t) mod P = 0 \<Longrightarrow> 0 \<le> t \<Longrightarrow> t < P \<Longrightarrow> t = 0"
proof -
  assume t: "(t + t) mod P = 0" "0 \<le> t" "t < P"
  obtain k where k: "t + t = P * k" using t(1) by (auto simp: mod_eq_0_iff_dvd dvd_def)
  have "odd P" by (simp add: P_def)
  with k have "even k" by (metis even_add even_mult_iff)
  then obtain m where "k = 2 * m" by (elim evenE)
  with k have "t = P * m" by simp
  with t(2,3) show "t = 0" by (metis dvd_triv_left mod_pos_pos_trivial mod_0_imp_dvd dvd_imp_mod_0)
qed

lemma Double_z:
  "\<exists>t. cp_z (curvePoint_Double inplace c a) = t mod P + t mod P"
  unfolding curvePoint_Double_def Let_def curvePoint.select_convs big_Mod_pos [OF P_pos(1)] by (rule exI) (rule refl)

lemma Add_z:
  assumes "\<not> curvePoint_IsInfinity a" "\<not> curvePoint_IsInfinity b" "\<not> same_scaled a b"
  shows "\<exists>w. cp_z (curvePoint_Add inplace c a b) = w mod P"
  by (simp only: Add_finite [OF assms(1,2)] Let_def assms(3) if_False curvePoint.select_convs) (rule exI, rule refl)

lemma z_valid_Double [simp]: "z_valid (curvePoint_Double inplace c a)"
proof -
  obtain t where t: "cp_z (curvePoint_Double inplace c a) = t mod P + t mod P" using Double_z by blast
  show ?thesis unfolding z_valid_def t using P_odd [of "t mod P"] by simp
qed

lemma z_valid_Add:
  assumes "z_valid a" "z_valid b"
  shows "z_valid (curvePoint_Add inplace c a b)"
proof (cases "curvePoint_IsInfinity a \<or> curvePoint_IsInfinity b")
  case True
  with assms show ?thesis by (simp add: Add_infinity)
next
  case False
  then show ?thesis
  proof (cases "same_scaled a b")
    case neq: False
    obtain w where w: "cp_z (curvePoint_Add inplace c a b) = w mod P" using False neq Add_z by blast
    show ?thesis by (simp add: z_valid_def w)
  qed (simp add: Add_same)
qed

lemma z_valid_Mul: "z_valid a \<Longrightarrow> z_valid (curvePoint_Mul a scalar)"
proof -
  assume a: "z_valid a"
  have "z_valid sm \<Longrightarrow> z_valid (curve_mul_loop a scalar i sm t)" for i sm t
    by (induction i arbitrary: sm t) (simp_all add: Let_def z_valid_Add a)
  moreover have "z_valid (curvePoint_SetInfinity newCurvePoint)"
    by (simp add: curvePoint_SetInfinity_def z_valid_def)
  ultimately show ?thesis by (simp only: curvePoint_Mul_def Let_def alpha1_Set)
qed

section \<open>The group law\<close>

lemma z_unit: "coprime (cp_z a) P \<Longrightarrow> \<exists>w. snd (snd (alpha1 a)) * w = 1"
  using fp_inverse [of "cp_z a"] by (simp add: alpha1_def) (metis mult.commute)

lemma z_finite: "coprime (cp_z a) P \<Longrightarrow> \<not> curvePoint_IsInfinity a"
  by (auto simp: P_def curvePoint_IsInfinity_def)

lemma Add_law:
  assumes "coprime (cp_z a) P" "coprime (cp_z b) P"
    and "jac_point (alpha1 a) X1 Y1" "jac_point (alpha1 b) X2 Y2"
    and "if X1 = X2 \<and> Y1 = Y2 then l * (2 * Y1) = 3 * (X1 * X1) else l * (X2 - X1) = Y2 - Y1"
    and "X3 = l * l - X1 - X2"
  shows "jac_point (alpha1 (curvePoint_Add False c a b)) X3 (l * (X1 - X3) - Y1)"
  using z_unit [OF assms(1)] z_unit [OF assms(2)] g1.add_law [OF z_finite [OF assms(1)] z_finite [OF assms(2)] _ _ assms(3-6)]
  by blast

lemma Add_inverse:
  assumes "coprime (cp_z a) P" "coprime (cp_z b) P"
    and "jac_point (alpha1 a) X Y1" "jac_point (alpha1 b) X Y2" "Y1 \<noteq> Y2"
  shows "curvePoint_IsInfinity (curvePoint_Add False c a b)"
proof -
  note fin = z_finite [OF assms(1)] z_finite [OF assms(2)]
  obtain w v where "snd (snd (alpha1 a)) * w = 1" "snd (snd (alpha1 b)) * v = 1"
    using z_unit assms(1,2) by blast
  note inv = g1.add_inverse [OF fin this assms(3-5)]
  have "cp_z (curvePoint_Add False c a b) mod P = 0"
    using inv(2) [of c] by (simp add: alpha1_def fp_eq_0_iff)
  moreover obtain w where "cp_z (curvePoint_Add False c a b) = w mod P"
    using Add_z [OF fin] inv(1) same_scaled_jac by blast
  ultimately show ?thesis by (simp add: curvePoint_IsInfinity_def)
qed

lemma MakeAffine_law:
  assumes "coprime (cp_z c) P" "cp_z c \<noteq> - 1" "jac_point (alpha1 c) X Y"
  shows "cp_z (curvePoint_MakeAffine c) = 1"
    and "of_int (cp_x (curvePoint_MakeAffine c)) = X" "of_int (cp_y (curvePoint_MakeAffine c)) = Y"
proof -
  let ?w = "of_int (big_ModInverse (cp_z c) P) :: fp" and ?z = "of_int (cp_z c) :: fp"
  have w: "?w * ?z = 1" by (rule fp_inverse [OF assms(1)])
  show "cp_z (curvePoint_MakeAffine c) = 1"
    using assms(2) by (auto simp: curvePoint_MakeAffine_def Let_def)
  have "of_int (cp_x (curvePoint_MakeAffine c)) = X \<and> of_int (cp_y (curvePoint_MakeAffine c)) = Y"
  proof (cases "\<bar>cp_z c\<bar> = 1")
    case True
    then have "cp_z c = 1" using assms(2) by linarith
    with True assms(3) show ?thesis by (simp add: curvePoint_MakeAffine_def jac_point_def alpha1_def)
  next
    case False
    have "X * (?z * ?z) * (?w * ?w) = X * (?w * ?z) * (?w * ?z)"
      "Y * (?z * ?z * ?z) * ?w * (?w * ?w) = Y * (?w * ?z) * (?w * ?z) * (?w * ?z)"
      by (simp_all add: ac_simps)
    with False assms(3) w show ?thesis
      by (simp add: curvePoint_MakeAffine_def Let_def jac_point_def alpha1_def)
  qed
  then show "of_int (cp_x (curvePoint_MakeAffine c)) = X" "of_int (cp_y (curvePoint_MakeAffine c)) = Y" by auto
qed

section \<open>Properties\<close>

text \<open>C22: \<open>Add\<close> is the chord-and-tangent addition: for finite points with affine coordinates
  \<open>(X1, Y1)\<close> and \<open>(X2, Y2)\<close>, and the slope \<open>l\<close> of the chord through them, or of the tangent where they
  are equal, the result has the affine coordinates of the third point reflected. So the comparison
  inside \<open>Add\<close> finds equal points whatever their Jacobian representations are. The comment on \<open>G1.Add\<close> and \<open>G2.Add\<close> that equal
  points fail holds only when the receiver is also the operand.\<close>

theorem curve_add_law:
  assumes "coprime (cp_z a) P" "coprime (cp_z b) P"
    and "jac_point (alpha1 a) X1 Y1" "jac_point (alpha1 b) X2 Y2"
    and "if X1 = X2 \<and> Y1 = Y2 then l * (2 * Y1) = 3 * (X1 * X1) else l * (X2 - X1) = Y2 - Y1"
    and "X3 = l * l - X1 - X2"
  shows "jac_point (alpha1 (curvePoint_Add False c a b)) X3 (l * (X1 - X3) - Y1)"
  using assms by (rule Add_law)

theorem curve_add_law_witness:
  "jac_point (alpha1 (curvePoint_Add False newCurvePoint curveGen curveGen))
    (of_int 5472060717959818805561601436314318772174077789324455915672259473661306552145
       * of_int 5472060717959818805561601436314318772174077789324455915672259473661306552145 - 1 - 1)
    (of_int 5472060717959818805561601436314318772174077789324455915672259473661306552145
       * (1 - (of_int 5472060717959818805561601436314318772174077789324455915672259473661306552145
            * of_int 5472060717959818805561601436314318772174077789324455915672259473661306552145 - 1 - 1)) - - 2)"
proof (rule curve_add_law)
  show "coprime (cp_z curveGen) P" "coprime (cp_z curveGen) P" by (simp_all add: curveGen_def)
  show "jac_point (alpha1 curveGen) 1 (- 2)" "jac_point (alpha1 curveGen) 1 (- 2)"
    by (simp_all add: jac_point_def alpha1_def curveGen_def)
  have "(of_int (5472060717959818805561601436314318772174077789324455915672259473661306552145 * (2 * - 2)) :: fp) = of_int (3 * (1 * 1))"
    unfolding fp_eq_iff by (simp add: P_def)
  then show "if (1 :: fp) = 1 \<and> (- 2 :: fp) = - 2
    then of_int 5472060717959818805561601436314318772174077789324455915672259473661306552145 * (2 * (- 2 :: fp)) = 3 * (1 * 1)
    else of_int 5472060717959818805561601436314318772174077789324455915672259473661306552145 * (1 - 1 :: fp) = - 2 - - 2"
    by simp
qed (rule refl)

text \<open>The sum of two finite points with the same \<open>x\<close> and different \<open>y\<close> is the point at
  infinity.\<close>

theorem curve_add_inverse:
  assumes "coprime (cp_z a) P" "coprime (cp_z b) P"
    and "jac_point (alpha1 a) X Y1" "jac_point (alpha1 b) X Y2" "Y1 \<noteq> Y2"
  shows "curvePoint_IsInfinity (curvePoint_Add False c a b)"
  using assms by (rule Add_inverse)

theorem curve_add_inverse_witness:
  "curvePoint_IsInfinity (curvePoint_Add False newCurvePoint curveGen (curvePoint_Negative curveGen))"
proof (rule curve_add_inverse)
  show "coprime (cp_z curveGen) P" "coprime (cp_z (curvePoint_Negative curveGen)) P"
    by (simp_all add: curveGen_def curvePoint_Negative_def)
  show "jac_point (alpha1 curveGen) 1 (of_int (- 2))" "jac_point (alpha1 (curvePoint_Negative curveGen)) 1 (of_int 2)"
    by (simp_all add: jac_point_def alpha1_def curveGen_def curvePoint_Negative_def)
  show "(of_int (- 2) :: fp) \<noteq> of_int 2" unfolding fp_eq_iff by (simp add: P_def)
qed

text \<open>\<open>Add\<close>, \<open>Double\<close>, \<open>Negative\<close> and \<open>Mul\<close> stay on the curve, for every scalar and whatever the
  representations are, infinity included.\<close>

theorem curve_closed:
  assumes "on_curve a" "on_curve b"
  shows "on_curve (curvePoint_Add False c a b) \<and> on_curve (curvePoint_Double False c a) \<and>
    on_curve (curvePoint_Negative a) \<and> on_curve (curvePoint_Mul a k)"
  using assms by (simp add: on_curve_Add on_curve_Double on_curve_Negative on_curve_Mul)

theorem curve_closed_witness:
  "on_curve (curvePoint_Add False newCurvePoint curveGen curveGen) \<and>
   on_curve (curvePoint_Double False newCurvePoint curveGen) \<and>
   on_curve (curvePoint_Negative curveGen) \<and> on_curve (curvePoint_Mul curveGen 12345)"
  by (rule curve_closed; simp add: on_curve_def jac_on_def alpha1_def curveGen_def)

text \<open>C34: Adding a point to itself in place is wrong: \<open>Double\<close> multiplies the new \<open>y\<close>, already written to the receiver, with \<open>z\<close>. For
  every finite point of the curve the sum in place has the coordinates \<open>x\<close> and \<open>y\<close> of the double but a \<open>z\<close> made from the new \<open>y\<close>, and
  it is a point of the curve only when that \<open>z\<close> is zero or the sixth powers of the old and the new \<open>y\<close> agree modulo \<open>P\<close>
  (up to the factor \<open>192 z\<^sup>6\<close>).\<close>

theorem curve_add_in_place:
  assumes "on_curve a" "\<not> curvePoint_IsInfinity a"
    and "d = curvePoint_Add False c a a" "r = curvePoint_Add True a a a"
  shows "cp_x r = cp_x d \<and> cp_y r = cp_y d \<and>
    cp_z d = 2 * (cp_y a * cp_z a mod P) \<and> cp_z r = 2 * (cp_y d * cp_z a mod P) \<and>
    (on_curve r \<longleftrightarrow> cp_z r = 0 \<or> P dvd 192 * cp_z a ^ 6 * (cp_y d ^ 6 - cp_y a ^ 6))"
proof -
  have s: "same_scaled a a" by (simp add: same_scaled_def)
  have dr: "d = curvePoint_Double False c a" "r = curvePoint_Double True a a"
    using assms(2-4) s by (simp_all add: Add_same)
  have xy: "cp_x r = cp_x d" "cp_y r = cp_y d" "cp_z d = 2 * (cp_y a * cp_z a mod P)" "cp_z r = 2 * (cp_y d * cp_z a mod P)"
    by (simp_all add: dr curvePoint_Double_def Let_def big_Mod_pos [OF P_pos(1)])
  let ?x = "of_int (cp_x d) :: fp" and ?y = "of_int (cp_y d) :: fp" and ?u = "of_int (cp_y a) :: fp" and ?z = "of_int (cp_z a) :: fp"
  have z: "of_int (cp_z d) = 2 * ?u * ?z" "of_int (cp_z r) = 2 * ?y * ?z" by (simp_all add: xy)
  have "jac_on 3 (alpha1 a)" using assms(1,2) by (simp add: on_curve_def)
  then have "jac_on 3 (alpha1 d)" unfolding dr(1) alpha1_Double by (rule jac_double_on)
  then have "?y * ?y = ?x * ?x * ?x + 192 * (?u ^ 6 * ?z ^ 6)"
    unfolding alpha1_def jac_on_def prod.case z by (simp add: eval_nat_numeral algebra_simps)
  moreover have "jac_on 3 (alpha1 r) \<longleftrightarrow> ?y * ?y = ?x * ?x * ?x + 192 * (?y ^ 6 * ?z ^ 6)"
    unfolding alpha1_def jac_on_def prod.case z xy(1,2) by (simp add: eval_nat_numeral algebra_simps)
  ultimately have "jac_on 3 (alpha1 r) \<longleftrightarrow> (of_int (192 * cp_z a ^ 6 * (cp_y d ^ 6 - cp_y a ^ 6)) :: fp) = 0"
    by (auto simp: algebra_simps)
  then have "jac_on 3 (alpha1 r) \<longleftrightarrow> P dvd 192 * cp_z a ^ 6 * (cp_y d ^ 6 - cp_y a ^ 6)" unfolding fp_eq_0_iff dvd_eq_mod_eq_0 .
  then show ?thesis using xy by (simp add: on_curve_def curvePoint_IsInfinity_def)
qed

theorem curve_add_in_place_witness:
  "on_curve curveGen \<and> \<not> on_curve (curvePoint_Add True curveGen curveGen curveGen)"
proof
  show g: "on_curve curveGen" by (simp add: on_curve_def jac_on_def alpha1_def curveGen_def)
  have d: "curvePoint_Add False newCurvePoint curveGen curveGen = \<lparr>cp_x = - 23, cp_y = - 11, cp_z = 2 * (P - 2), cp_t = 0\<rparr>"
    "cp_z (curvePoint_Add True curveGen curveGen curveGen) = 2 * (P - 11)" by code_simp+
  have "\<not> P dvd 192 * cp_z curveGen ^ 6 * ((- 11) ^ 6 - cp_y curveGen ^ 6)" by (simp add: P_def curveGen_def dvd_eq_mod_eq_0)
  moreover have "P \<noteq> 11" by (simp add: P_def)
  ultimately show "\<not> on_curve (curvePoint_Add True curveGen curveGen curveGen)"
    using curve_add_in_place [OF g _ d(1) [symmetric] refl] d(2) by (simp add: curvePoint_IsInfinity_def curveGen_def)
qed

end
