(* ===== verification/Twist.thy ===== *)
theory Twist
  imports GfP2 Jacobian
begin

text \<open>
  \<open>twist.go\<close>: points of \<open>y\<^sup>2 = x\<^sup>3 + 3/\<xi>\<close> over the quadratic extension, with the same Jacobian formulas as
  \<open>curve.go\<close> on \<open>gfP2\<close> values. As there, methods are functions of the receiver's old value \<open>c\<close>, and
  \<open>inplace\<close> says whether the receiver is the (first) argument.
\<close>

section \<open>Operations\<close>

record twistPoint =
  tp_x :: gfP2
  tp_y :: gfP2
  tp_z :: gfP2
  tp_t :: gfP2

definition twistB :: gfP2 where
  "twistB =
     \<lparr>gfP2_x = 266929791119991161246907387137283842545076965332900288569378510910307636690,
      gfP2_y = 19485874751759354771024239261021720505790618469301721065564631296452457478373\<rparr>"

definition twistGen :: twistPoint where
  "twistGen =
     \<lparr>tp_x = \<lparr>gfP2_x = 11559732032986387107991004021392285783925812861821192530917403151452391805634,
               gfP2_y = 10857046999023057135944570762232829481370756359578518086990519993285655852781\<rparr>,
      tp_y = \<lparr>gfP2_x = 4082367875863433681332203403145435568316851327593401208105741076214120093531,
               gfP2_y = 8495653923123431417604973247489272438418190587263600148770280649306958101930\<rparr>,
      tp_z = \<lparr>gfP2_x = 0, gfP2_y = 1\<rparr>,
      tp_t = \<lparr>gfP2_x = 0, gfP2_y = 1\<rparr>\<rparr>"

definition newTwistPoint :: twistPoint where
  "newTwistPoint = \<lparr>tp_x = gfP2_SetZero, tp_y = gfP2_SetZero, tp_z = gfP2_SetZero, tp_t = gfP2_SetZero\<rparr>"

definition twistPoint_Set :: "twistPoint \<Rightarrow> twistPoint" where
  "twistPoint_Set a = \<lparr>tp_x = tp_x a, tp_y = tp_y a, tp_z = tp_z a, tp_t = tp_t a\<rparr>"

definition twistPoint_IsOnCurve :: "twistPoint \<Rightarrow> bool" where
  "twistPoint_IsOnCurve c =
     (let yy = gfP2_Square (tp_y c);
          xxx = gfP2_Square (tp_x c);
          xxx = gfP2_Mul xxx (tp_x c);
          yy = gfP2_Sub yy xxx;
          yy = gfP2_Sub yy twistB;
          yy = gfP2_Minimal yy
      in gfP2_x yy = 0 \<and> gfP2_y yy = 0)"

definition twistPoint_SetInfinity :: "twistPoint \<Rightarrow> twistPoint" where
  "twistPoint_SetInfinity c = c\<lparr>tp_z := gfP2_SetZero\<rparr>"

definition twistPoint_IsInfinity :: "twistPoint \<Rightarrow> bool" where
  "twistPoint_IsInfinity c \<longleftrightarrow> gfP2_IsZero (tp_z c)"

definition twistPoint_Double :: "bool \<Rightarrow> twistPoint \<Rightarrow> twistPoint \<Rightarrow> twistPoint" where
  "twistPoint_Double inplace c a =
     (let A = gfP2_Square (tp_x a);
          B = gfP2_Square (tp_y a);
          C' = gfP2_Square B;
          t = gfP2_Add (tp_x a) B;
          t2 = gfP2_Square t;
          t = gfP2_Sub t2 A;
          t2 = gfP2_Sub t C';
          d = gfP2_Add t2 t2;
          t = gfP2_Add A A;
          e = gfP2_Add t A;
          f = gfP2_Square e;
          t = gfP2_Add d d;
          cx = gfP2_Sub f t;
          t = gfP2_Add C' C';
          t2 = gfP2_Add t t;
          t = gfP2_Add t2 t2;
          cy = gfP2_Sub d cx;
          t2 = gfP2_Mul e cy;
          cy = gfP2_Sub t2 t;
          ay = (if inplace then cy else tp_y a);
          t = gfP2_Mul ay (tp_z a);
          cz = gfP2_Add t t
      in \<lparr>tp_x = cx, tp_y = cy, tp_z = cz, tp_t = tp_t c\<rparr>)"

definition twistPoint_Add :: "bool \<Rightarrow> twistPoint \<Rightarrow> twistPoint \<Rightarrow> twistPoint \<Rightarrow> twistPoint" where
  "twistPoint_Add inplace c a b =
     (if twistPoint_IsInfinity a then twistPoint_Set b
      else if twistPoint_IsInfinity b then twistPoint_Set a
      else
        let z1z1 = gfP2_Square (tp_z a);
            z2z2 = gfP2_Square (tp_z b);
            u1 = gfP2_Mul (tp_x a) z2z2;
            u2 = gfP2_Mul (tp_x b) z1z1;
            t = gfP2_Mul (tp_z b) z2z2;
            s1 = gfP2_Mul (tp_y a) t;
            t = gfP2_Mul (tp_z a) z1z1;
            s2 = gfP2_Mul (tp_y b) t;
            h = gfP2_Sub u2 u1;
            xEqual = gfP2_IsZero h;
            t = gfP2_Add h h;
            i = gfP2_Square t;
            j = gfP2_Mul h i;
            t = gfP2_Sub s2 s1;
            yEqual = gfP2_IsZero t
        in
        if xEqual \<and> yEqual then twistPoint_Double inplace c a
        else
          let r = gfP2_Add t t;
              v = gfP2_Mul u1 i;
              t4 = gfP2_Square r;
              t = gfP2_Add v v;
              t6 = gfP2_Sub t4 j;
              cx = gfP2_Sub t6 t;
              t = gfP2_Sub v cx;
              t4 = gfP2_Mul s1 j;
              t6 = gfP2_Add t4 t4;
              t4 = gfP2_Mul r t;
              cy = gfP2_Sub t4 t6;
              t = gfP2_Add (tp_z a) (tp_z b);
              t4 = gfP2_Square t;
              t = gfP2_Sub t4 z1z1;
              t4 = gfP2_Sub t z2z2;
              cz = gfP2_Mul t4 h
          in \<lparr>tp_x = cx, tp_y = cy, tp_z = cz, tp_t = tp_t c\<rparr>)"

text \<open>The loop of \<open>Mul\<close>, with \<open>i\<close> bits left.\<close>

fun twist_mul_loop :: "twistPoint \<Rightarrow> int \<Rightarrow> nat \<Rightarrow> twistPoint \<Rightarrow> twistPoint \<Rightarrow> twistPoint" where
  "twist_mul_loop a scalar 0 sm t = sm"
| "twist_mul_loop a scalar (Suc i) sm t =
     (let t = twistPoint_Double False t sm;
          sm = (if big_Bit scalar i then twistPoint_Add False sm t a else twistPoint_Set t)
      in twist_mul_loop a scalar i sm t)"

definition twistPoint_Mul :: "twistPoint \<Rightarrow> int \<Rightarrow> twistPoint" where
  "twistPoint_Mul a scalar =
     (let sm = twistPoint_SetInfinity newTwistPoint;
          t = newTwistPoint
      in twistPoint_Set (twist_mul_loop a scalar (Suc (big_BitLen scalar)) sm t))"

definition twistPoint_MakeAffine :: "twistPoint \<Rightarrow> twistPoint" where
  "twistPoint_MakeAffine c =
     (if gfP2_IsOne (tp_z c) then c
      else
        let zInv = gfP2_Invert (tp_z c);
            t = gfP2_Mul (tp_y c) zInv;
            zInv2 = gfP2_Square zInv;
            cy = gfP2_Mul t zInv2;
            t = gfP2_Mul (tp_x c) zInv2
        in \<lparr>tp_x = t, tp_y = cy, tp_z = gfP2_SetOne, tp_t = gfP2_SetOne\<rparr>)"

text \<open>\<open>Negative\<close> clears the receiver's \<open>y\<close> before it reads that of its argument.\<close>

definition twistPoint_Negative :: "bool \<Rightarrow> twistPoint \<Rightarrow> twistPoint" where
  "twistPoint_Negative inplace a =
     (let cy = gfP2_SetZero;
          ay = (if inplace then cy else tp_y a)
      in \<lparr>tp_x = tp_x a, tp_y = gfP2_Sub cy ay, tp_z = tp_z a, tp_t = gfP2_SetZero\<rparr>)"

section \<open>Meaning\<close>

definition alphaT :: "twistPoint \<Rightarrow> fp2 triple" where
  "alphaT c = (alpha2 (tp_x c), alpha2 (tp_y c), alpha2 (tp_z c))"

definition on_twist :: "twistPoint \<Rightarrow> bool" where
  "on_twist c \<longleftrightarrow> twistPoint_IsInfinity c \<or> jac_on (alpha2 twistB) (alphaT c)"

lemma twistPoint_Set_id [simp]: "twistPoint_Set a = a"
  by (simp add: twistPoint_Set_def)

lemma alphaT_Double: "alphaT (twistPoint_Double False c a) = jac_double (alphaT a)"
  by (simp only: alphaT_def twistPoint_Double_def jac_double_def Let_def prod.case if_False
      twistPoint.select_convs alpha2_simps)

text \<open>The two products that \<open>Add\<close> compares are reduced, so they are equal exactly as field elements.\<close>

lemma IsZero_Sub: "reduced2 a \<Longrightarrow> reduced2 b \<Longrightarrow> gfP2_IsZero (gfP2_Sub a b) \<longleftrightarrow> alpha2 a = alpha2 b"
  by (auto simp: reduced2_inject gfP2_IsZero_def gfP2_Sub_def intro: gfP2.equality)

lemma twist_Add_same:
  assumes "\<not> twistPoint_IsInfinity a" "\<not> twistPoint_IsInfinity b" "jac_same (alphaT a) (alphaT b)"
  shows "twistPoint_Add inplace c a b = twistPoint_Double inplace c a"
  using assms(3)
  by (simp only: twistPoint_Add_def Let_def assms(1,2) if_False IsZero_Sub reduced2_results alpha2_simps
      jac_same_def alphaT_def prod.case simp_thms if_True)

lemma alphaT_Add:
  assumes "\<not> twistPoint_IsInfinity a" "\<not> twistPoint_IsInfinity b" "\<not> jac_same (alphaT a) (alphaT b)"
  shows "alphaT (twistPoint_Add inplace c a b) = jac_add (alphaT a) (alphaT b)"
proof -
  have ne: "(alpha2 (tp_x b) * (alpha2 (tp_z a) * alpha2 (tp_z a)) = alpha2 (tp_x a) * (alpha2 (tp_z b) * alpha2 (tp_z b)) \<and>
     alpha2 (tp_y b) * (alpha2 (tp_z a) * (alpha2 (tp_z a) * alpha2 (tp_z a)))
       = alpha2 (tp_y a) * (alpha2 (tp_z b) * (alpha2 (tp_z b) * alpha2 (tp_z b)))) = False"
    using assms(3) by (simp add: jac_same_def alphaT_def)
  show ?thesis
    by (simp only: twistPoint_Add_def Let_def assms(1,2) if_False IsZero_Sub reduced2_results alpha2_simps ne
        alphaT_def jac_add_def prod.case twistPoint.select_convs)
qed

lemma twist_Add_infinity:
  assumes "twistPoint_IsInfinity a \<or> twistPoint_IsInfinity b"
  shows "twistPoint_Add inplace c a b = (if twistPoint_IsInfinity a then b else a)"
  using assms unfolding twistPoint_Add_def twistPoint_Set_id
  by (cases "twistPoint_IsInfinity a") (simp_all only: if_True if_False disj_not1 simp_thms)

lemma twist_Double_infinity:
  "twistPoint_IsInfinity a \<Longrightarrow> twistPoint_IsInfinity (twistPoint_Double inplace c a)"
  by (simp add: twistPoint_IsInfinity_def gfP2_IsZero_def twistPoint_Double_def Let_def gfP2_Add_def gfP2_Mul_def)

interpretation g2: jac_ops alphaT twistPoint_IsInfinity "twistPoint_Double False" "twistPoint_Add False" big_Bit twist_mul_loop
  by unfold_locales (simp_all add: alphaT_Double twist_Double_infinity twist_Add_infinity twist_Add_same alphaT_Add Let_def)

lemmas on_twist_Double = g2.on_double [where b = "alpha2 twistB", folded on_twist_def]
  and on_twist_Add = g2.on_add [where b = "alpha2 twistB", folded on_twist_def]
  and on_twist_mul_loop = g2.on_loop [where b = "alpha2 twistB", folded on_twist_def]

lemma on_twist_Mul: "on_twist a \<Longrightarrow> on_twist (twistPoint_Mul a scalar)"
  unfolding twistPoint_Mul_def Let_def twistPoint_Set_id
  by (erule on_twist_mul_loop)
    (simp add: on_twist_def twistPoint_IsInfinity_def twistPoint_SetInfinity_def gfP2_IsZero_def gfP2_SetZero_def)

lemma on_twist_Negative: "on_twist a \<Longrightarrow> on_twist (twistPoint_Negative False a)"
  by (auto simp: on_twist_def twistPoint_IsInfinity_def jac_on_def alphaT_def twistPoint_Negative_def gofield)

lemma twist_IsOnCurve_iff:
  assumes "alpha2 (tp_z c) = 1"
  shows "twistPoint_IsOnCurve c \<longleftrightarrow> on_twist c"
proof -
  have "twistPoint_IsOnCurve c \<longleftrightarrow> alpha2 (tp_y c) * alpha2 (tp_y c)
      - alpha2 (tp_x c) * alpha2 (tp_x c) * alpha2 (tp_x c) - alpha2 twistB = 0"
    unfolding twistPoint_IsOnCurve_def Let_def gfP2_IsZero_def [symmetric]
    by (simp only: IsZero_iff reduced2_results alpha2_simps)
  moreover have "\<not> twistPoint_IsInfinity c"
    using assms by (auto simp: twistPoint_IsInfinity_def gfP2_IsZero_def alpha2_def one_fp2_def)
  ultimately show ?thesis by (auto simp: on_twist_def jac_on_def alphaT_def assms algebra_simps)
qed

text \<open>\<open>IsOne\<close> takes \<open>-1\<close> for one; the operations only produce non-negative \<open>z\<close>.\<close>

lemma IsOne_alpha2: "gfP2_IsOne z \<Longrightarrow> 0 \<le> gfP2_y z \<Longrightarrow> alpha2 z = 1"
  by (simp add: gfP2_IsOne_def alpha2_def one_fp2_def)

lemma alphaT_MakeAffine:
  assumes "0 \<le> gfP2_y (tp_z c)"
    and "coprime (gfP2_x (tp_z c) * gfP2_x (tp_z c) + gfP2_y (tp_z c) * gfP2_y (tp_z c)) P"
  shows "\<exists>X Y. alphaT (twistPoint_MakeAffine c) = (X, Y, 1) \<and> jac_point (alphaT c) X Y"
proof (cases "gfP2_IsOne (tp_z c)")
  case True
  then have "alpha2 (tp_z c) = 1" using assms(1) by (rule IsOne_alpha2)
  then show ?thesis by (simp add: twistPoint_MakeAffine_def True alphaT_def jac_point_def)
next
  case False
  let ?z = "alpha2 (tp_z c)" and ?w = "alpha2 (gfP2_Invert (tp_z c))"
  have w: "?w * ?z = 1" by (rule alpha2_Invert [OF assms(2)])
  have "(?w * ?w) * (?z * ?z) = (?w * ?z) * (?w * ?z)"
    "(?w * (?w * ?w)) * (?z * ?z * ?z) = (?w * ?z) * (?w * ?z) * (?w * ?z)" by (simp_all add: ac_simps)
  then have w2: "(?w * ?w) * (?z * ?z) = 1" and w3: "(?w * (?w * ?w)) * (?z * ?z * ?z) = 1" by (simp_all add: w)
  have "alpha2 (tp_x c) = alpha2 (tp_x c) * (?w * ?w) * (?z * ?z)"
    "alpha2 (tp_y c) = alpha2 (tp_y c) * ?w * (?w * ?w) * (?z * ?z * ?z)"
    using w2 w3 by (simp_all only: mult.assoc mult_1_right)
  then show ?thesis
    by (simp add: twistPoint_MakeAffine_def False Let_def alphaT_def jac_point_def gofield)
qed

section \<open>The constants\<close>

lemma twistB_xi: "alpha2 twistB * xi = 3"
proof -
  have "alpha2 twistB * alpha2 \<lparr>gfP2_x = 1, gfP2_y = 9\<rparr> = alpha2 \<lparr>gfP2_x = 0, gfP2_y = 3\<rparr>"
    by (rule alpha2_mult_eqI [where q = "1" and q' = "8"]) (simp_all add: twistB_def P_def)
  moreover have "(3 :: fp2) = 1 + 1 + 1" by simp
  ultimately show ?thesis by (simp add: alpha2_def xi_def one_fp2_def plus_fp2_def)
qed

lemma twistGen_on_twist: "on_twist twistGen"
proof -
  let ?xx = "\<lparr>gfP2_x = 1837384903404616869280368109057824469904033017901941306968221631236329083166,
    gfP2_y = 21740980388926906057426892996120422348616989628855161897682971020692097960281\<rparr>"
  let ?yy = "\<lparr>gfP2_x = 18998749271943822924477361489362255781501469145925655872932224557079413539979,
    gfP2_y = 14922964998483646676629501313514766888265760859103602404415903627362542533130\<rparr>"
  have yy: "alpha2 (tp_y twistGen) * alpha2 (tp_y twistGen) = alpha2 ?yy"
    by (rule alpha2_mult_eqI [where q = "3169042381637085631969340255475657347465997364048155542326807191678134711207"
          and q' = "2536083340843168943765111218252959982070198762835983662926263033120061560823"])
      (simp_all add: twistGen_def P_def)
  have xx: "alpha2 (tp_x twistGen) * alpha2 (tp_x twistGen) = alpha2 ?xx"
    by (rule alpha2_mult_eqI [where q = "11467759629048686117894849069235246766403203637883258795037926137579317846074"
          and q' = "- 719652793862314264003180062754339384390891005191370485917012582332181624172"])
      (simp_all add: twistGen_def P_def)
  have xxx: "alpha2 ?xx * alpha2 (tp_x twistGen) = alpha2 (gfP2_Sub ?yy twistB)"
    by (rule alpha2_mult_eqI [where q = "12393342091016911084624211557957971527515431206414711678262613052091343774217"
          and q' = "9813632369684871093633712214989803915475791572887658100852785874047213526620"])
      (simp_all add: twistGen_def P_def gfP2_Sub_def twistB_def)
  have "alpha2 (tp_z twistGen) = 1" by (simp add: twistGen_def alpha2_def one_fp2_def)
  then show ?thesis
    by (simp only: on_twist_def jac_on_def alphaT_def prod.case xx yy xxx alpha2_simps mult_1_right diff_add_cancel simp_thms)
qed

section \<open>Properties\<close>

text \<open>C35: \<open>Add\<close>, \<open>Double\<close>, \<open>Negative\<close> and \<open>Mul\<close> of \<open>twist.go\<close> stay on the twisted curve, for every scalar and
  whatever the representations are; for affine points \<open>IsOnCurve\<close> decides it.\<close>

theorem twist_closed:
  assumes "on_twist a" "on_twist b"
  shows "on_twist (twistPoint_Add False c a b) \<and> on_twist (twistPoint_Double False c a) \<and>
    on_twist (twistPoint_Negative False a) \<and> on_twist (twistPoint_Mul a k) \<and>
    (gfP2_IsOne (tp_z a) \<and> 0 \<le> gfP2_y (tp_z a) \<longrightarrow> twistPoint_IsOnCurve a)"
  using assms by (auto simp: on_twist_Add on_twist_Double on_twist_Negative on_twist_Mul
      twist_IsOnCurve_iff [OF IsOne_alpha2])

theorem twist_closed_witness:
  "on_twist (twistPoint_Add False newTwistPoint twistGen twistGen) \<and>
   on_twist (twistPoint_Double False newTwistPoint twistGen) \<and>
   on_twist (twistPoint_Negative False twistGen) \<and> on_twist (twistPoint_Mul twistGen 12345) \<and>
   twistPoint_IsOnCurve twistGen"
  using twist_closed [OF twistGen_on_twist twistGen_on_twist, of newTwistPoint 12345]
  by (simp add: twistGen_def gfP2_IsOne_def)

end
