(* ===== verification/OptAte.thy ===== *)
theory OptAte
  imports GfP12 Curve Twist
begin

text \<open>
  \<open>optate.go\<close>: the Miller loop and the final exponentiation of the optimal Ate pairing. The line
  functions return the three coefficients of a line and the new point. Values that the code keeps in
  memory and updates are functions of their old value.
\<close>

section \<open>Operations\<close>

definition lineFunctionAdd ::
  "twistPoint \<Rightarrow> twistPoint \<Rightarrow> curvePoint \<Rightarrow> gfP2 \<Rightarrow> gfP2 \<times> gfP2 \<times> gfP2 \<times> twistPoint" where
  "lineFunctionAdd r p q r2 =
     (let B = gfP2_Mul (tp_x p) (tp_t r);
          D = gfP2_Add (tp_y p) (tp_z r);
          D = gfP2_Square D;
          D = gfP2_Sub D r2;
          D = gfP2_Sub D (tp_t r);
          D = gfP2_Mul D (tp_t r);
          H = gfP2_Sub B (tp_x r);
          I = gfP2_Square H;
          E = gfP2_Add I I;
          E = gfP2_Add E E;
          J = gfP2_Mul H E;
          L1 = gfP2_Sub D (tp_y r);
          L1 = gfP2_Sub L1 (tp_y r);
          V = gfP2_Mul (tp_x r) E;
          rOut_x = gfP2_Square L1;
          rOut_x = gfP2_Sub rOut_x J;
          rOut_x = gfP2_Sub rOut_x V;
          rOut_x = gfP2_Sub rOut_x V;
          rOut_z = gfP2_Add (tp_z r) H;
          rOut_z = gfP2_Square rOut_z;
          rOut_z = gfP2_Sub rOut_z (tp_t r);
          rOut_z = gfP2_Sub rOut_z I;
          t = gfP2_Sub V rOut_x;
          t = gfP2_Mul t L1;
          t2 = gfP2_Mul (tp_y r) J;
          t2 = gfP2_Add t2 t2;
          rOut_y = gfP2_Sub t t2;
          rOut_t = gfP2_Square rOut_z;
          t = gfP2_Add (tp_y p) rOut_z;
          t = gfP2_Square t;
          t = gfP2_Sub t r2;
          t = gfP2_Sub t rOut_t;
          t2 = gfP2_Mul L1 (tp_x p);
          t2 = gfP2_Add t2 t2;
          a = gfP2_Sub t2 t;
          c = gfP2_MulScalar rOut_z (cp_y q);
          c = gfP2_Add c c;
          b = gfP2_SetZero;
          b = gfP2_Sub b L1;
          b = gfP2_MulScalar b (cp_x q);
          b = gfP2_Add b b
      in (a, b, c, \<lparr>tp_x = rOut_x, tp_y = rOut_y, tp_z = rOut_z, tp_t = rOut_t\<rparr>))"

definition lineFunctionDouble ::
  "twistPoint \<Rightarrow> curvePoint \<Rightarrow> gfP2 \<times> gfP2 \<times> gfP2 \<times> twistPoint" where
  "lineFunctionDouble r q =
     (let A = gfP2_Square (tp_x r);
          B = gfP2_Square (tp_y r);
          C' = gfP2_Square B;
          D = gfP2_Add (tp_x r) B;
          D = gfP2_Square D;
          D = gfP2_Sub D A;
          D = gfP2_Sub D C';
          D = gfP2_Add D D;
          E = gfP2_Add A A;
          E = gfP2_Add E A;
          G = gfP2_Square E;
          rOut_x = gfP2_Sub G D;
          rOut_x = gfP2_Sub rOut_x D;
          rOut_z = gfP2_Add (tp_y r) (tp_z r);
          rOut_z = gfP2_Square rOut_z;
          rOut_z = gfP2_Sub rOut_z B;
          rOut_z = gfP2_Sub rOut_z (tp_t r);
          rOut_y = gfP2_Sub D rOut_x;
          rOut_y = gfP2_Mul rOut_y E;
          t = gfP2_Add C' C';
          t = gfP2_Add t t;
          t = gfP2_Add t t;
          rOut_y = gfP2_Sub rOut_y t;
          rOut_t = gfP2_Square rOut_z;
          t = gfP2_Mul E (tp_t r);
          t = gfP2_Add t t;
          b = gfP2_SetZero;
          b = gfP2_Sub b t;
          b = gfP2_MulScalar b (cp_x q);
          a = gfP2_Add (tp_x r) E;
          a = gfP2_Square a;
          a = gfP2_Sub a A;
          a = gfP2_Sub a G;
          t = gfP2_Add B B;
          t = gfP2_Add t t;
          a = gfP2_Sub a t;
          c = gfP2_Mul rOut_z (tp_t r);
          c = gfP2_Add c c;
          c = gfP2_MulScalar c (cp_y q)
      in (a, b, c, \<lparr>tp_x = rOut_x, tp_y = rOut_y, tp_z = rOut_z, tp_t = rOut_t\<rparr>))"

definition mulLine :: "gfP12 \<Rightarrow> gfP2 \<Rightarrow> gfP2 \<Rightarrow> gfP2 \<Rightarrow> gfP12" where
  "mulLine ret a b c =
     (let a2 = \<lparr>gfP6_x = gfP2_SetZero, gfP6_y = a, gfP6_z = b\<rparr>;
          a2 = gfP6_Mul a2 (gfP12_x ret);
          t3 = gfP6_MulScalar (gfP12_y ret) c;
          t = gfP2_Add b c;
          t2 = \<lparr>gfP6_x = gfP2_SetZero, gfP6_y = a, gfP6_z = t\<rparr>;
          ret_x = gfP6_Add (gfP12_x ret) (gfP12_y ret);
          ret_y = t3;
          ret_x = gfP6_Mul ret_x t2;
          ret_x = gfP6_Sub ret_x a2;
          ret_x = gfP6_Sub ret_x ret_y;
          a2 = gfP6_MulTau a2;
          ret_y = gfP6_Add ret_y a2
      in \<lparr>gfP12_x = ret_x, gfP12_y = ret_y\<rparr>)"

definition sixuPlus2NAF :: "int list" where
  "sixuPlus2NAF =
     [0, 0, 0, 1, 0, 1, 0, -1, 0, 0, 1, -1, 0, 0, 1, 0,
      0, 1, 1, 0, -1, 0, 0, 1, 0, -1, 0, 0, 0, 0, 1, 1,
      1, 0, 0, -1, 0, 0, 1, 0, 0, 0, 0, 0, -1, 0, 0, 1,
      1, 0, 0, -1, 0, 0, 0, 1, 1, 0, -1, 0, 0, 1, 0, 1, 1]"

text \<open>The loop of \<open>miller\<close> from index \<open>i\<close> down to 1.\<close>

fun miller_loop ::
  "twistPoint \<Rightarrow> twistPoint \<Rightarrow> curvePoint \<Rightarrow> gfP2 \<Rightarrow> nat \<Rightarrow> gfP12 \<Rightarrow> twistPoint \<Rightarrow> gfP12 \<times> twistPoint" where
  "miller_loop aAffine minusA bAffine r2 0 ret r = (ret, r)"
| "miller_loop aAffine minusA bAffine r2 (Suc i) ret r =
     (let (a, b, c, newR) = lineFunctionDouble r bAffine;
          ret = (if Suc i \<noteq> length sixuPlus2NAF - 1 then gfP12_Square ret else ret);
          ret = mulLine ret a b c;
          r = newR
      in
      if sixuPlus2NAF ! i = 1 then
        let (a, b, c, newR) = lineFunctionAdd r aAffine bAffine r2
        in miller_loop aAffine minusA bAffine r2 i (mulLine ret a b c) newR
      else if sixuPlus2NAF ! i = - 1 then
        let (a, b, c, newR) = lineFunctionAdd r minusA bAffine r2
        in miller_loop aAffine minusA bAffine r2 i (mulLine ret a b c) newR
      else miller_loop aAffine minusA bAffine r2 i ret r)"

definition miller :: "twistPoint \<Rightarrow> curvePoint \<Rightarrow> gfP12" where
  "miller q p =
     (let ret = gfP12_SetOne;
          aAffine = twistPoint_MakeAffine (twistPoint_Set q);
          bAffine = curvePoint_MakeAffine (curvePoint_Set p);
          minusA = twistPoint_Negative False aAffine;
          r = twistPoint_Set aAffine;
          r2 = gfP2_Square (tp_y aAffine);
          (ret, r) = miller_loop aAffine minusA bAffine r2 (length sixuPlus2NAF - 1) ret r;
          q1_x = gfP2_Conjugate (tp_x aAffine);
          q1_x = gfP2_Mul q1_x xiToPMinus1Over3;
          q1_y = gfP2_Conjugate (tp_y aAffine);
          q1_y = gfP2_Mul q1_y xiToPMinus1Over2;
          q1 = \<lparr>tp_x = q1_x, tp_y = q1_y, tp_z = gfP2_SetOne, tp_t = gfP2_SetOne\<rparr>;
          minusQ2 = \<lparr>tp_x = gfP2_MulScalar (tp_x aAffine) xiToPSquaredMinus1Over3, tp_y = tp_y aAffine,
                     tp_z = gfP2_SetOne, tp_t = gfP2_SetOne\<rparr>;
          r2 = gfP2_Square (tp_y q1);
          (a, b, c, newR) = lineFunctionAdd r q1 bAffine r2;
          ret = mulLine ret a b c;
          r = newR;
          r2 = gfP2_Square (tp_y minusQ2);
          (a, b, c, newR) = lineFunctionAdd r minusQ2 bAffine r2
      in mulLine ret a b c)"

definition finalExponentiation :: "gfP12 \<Rightarrow> gfP12" where
  "finalExponentiation inp =
     (let t1 = \<lparr>gfP12_x = gfP6_Negative (gfP12_x inp), gfP12_y = gfP12_y inp\<rparr>;
          inv = gfP12_Invert inp;
          t1 = gfP12_Mul t1 inv;
          t2 = gfP12_FrobeniusP2 t1;
          t1 = gfP12_Mul t1 t2;
          fp = gfP12_Frobenius t1;
          fp2 = gfP12_FrobeniusP2 t1;
          fp3 = gfP12_Frobenius fp2;
          fu = gfP12_Exp t1 u_param;
          fu2 = gfP12_Exp fu u_param;
          fu3 = gfP12_Exp fu2 u_param;
          y3 = gfP12_Frobenius fu;
          fu2p = gfP12_Frobenius fu2;
          fu3p = gfP12_Frobenius fu3;
          y2 = gfP12_FrobeniusP2 fu2;
          y0 = gfP12_Mul fp fp2;
          y0 = gfP12_Mul y0 fp3;
          y1 = gfP12_Conjugate t1;
          y5 = gfP12_Conjugate fu2;
          y3 = gfP12_Conjugate y3;
          y4 = gfP12_Mul fu fu2p;
          y4 = gfP12_Conjugate y4;
          y6 = gfP12_Mul fu3 fu3p;
          y6 = gfP12_Conjugate y6;
          t0 = gfP12_Square y6;
          t0 = gfP12_Mul t0 y4;
          t0 = gfP12_Mul t0 y5;
          t1 = gfP12_Mul y3 y5;
          t1 = gfP12_Mul t1 t0;
          t0 = gfP12_Mul t0 y2;
          t1 = gfP12_Square t1;
          t1 = gfP12_Mul t1 t0;
          t1 = gfP12_Square t1;
          t0 = gfP12_Mul t1 y1;
          t1 = gfP12_Mul t1 y0;
          t0 = gfP12_Square t0;
          t0 = gfP12_Mul t0 t1
      in t0)"

definition optimalAte :: "twistPoint \<Rightarrow> curvePoint \<Rightarrow> gfP12" where
  "optimalAte a b =
     (let e = miller a b;
          ret = finalExponentiation e
      in if twistPoint_IsInfinity a \<or> curvePoint_IsInfinity b then gfP12_SetOne else ret)"

section \<open>The lines\<close>

text \<open>
  The line through the points, evaluated at \<open>(qx, qy)\<close> after the twist is undone: the three coefficients
  belong to \<open>\<tau>\<omega>\<close>, \<open>\<omega>\<close> and \<open>1\<close>.
\<close>

definition line12 :: "fp2 \<Rightarrow> fp2 \<Rightarrow> fp2 \<Rightarrow> fp12" where
  "line12 a b c = Fp12 (Fp6 0 a b) (Fp6 0 0 c)"

lemma alpha12_mulLine: "alpha12 (mulLine ret a b c) = alpha12 ret * line12 (alpha2 a) (alpha2 b) (alpha2 c)"
proof -
  let ?l = "\<lparr>gfP6_x = gfP2_SetZero, gfP6_y = a, gfP6_z = b\<rparr>"
  have l: "alpha6 ?l = Fp6 0 (alpha2 a) (alpha2 b)"
    and l': "alpha6 \<lparr>gfP6_x = gfP2_SetZero, gfP6_y = a, gfP6_z = gfP2_Add b c\<rparr>
      = Fp6 0 (alpha2 a) (alpha2 b) + emb6 (alpha2 c)"
    by (simp_all add: alpha6_def gofield emb6_def plus_fp6_def)
  show ?thesis
    by (simp add: alpha12_def mulLine_def Let_def gofield l l' line12_def times_fp12_def emb6_def [symmetric] algebra_simps)
qed

definition tangent_line :: "fp2 triple \<Rightarrow> fp2 \<Rightarrow> fp2 \<Rightarrow> fp12" where
  "tangent_line = (\<lambda>(x, y, z) qx qy.
     line12 (6 * (x * x * x) - 4 * (y * y)) (- (6 * (x * x) * (z * z) * qx)) (4 * (y * (z * z * z)) * qy))"

definition chord_line :: "fp2 triple \<Rightarrow> fp2 \<Rightarrow> fp2 \<Rightarrow> fp2 \<Rightarrow> fp2 \<Rightarrow> fp12" where
  "chord_line = (\<lambda>(x, y, z) px py qx qy.
     let h = 4 * (z * (px * (z * z) - x)); l = 4 * (py * (z * z * z) - y)
     in line12 (l * px - h * py) (- (l * qx)) (h * qy))"

text \<open>The point that the loop carries has its \<open>t\<close> coordinate up to date.\<close>

definition t_valid :: "twistPoint \<Rightarrow> bool" where
  "t_valid r \<longleftrightarrow> alpha2 (tp_t r) = alpha2 (tp_z r) * alpha2 (tp_z r)"

lemma lineFunctionDouble_correct:
  assumes "t_valid r" and "lineFunctionDouble r q = (a, b, c, r')"
  shows "alphaT r' = jac_double (alphaT r)" "t_valid r'"
    and "line12 (alpha2 a) (alpha2 b) (alpha2 c) = tangent_line (alphaT r) (emb2 (cp_x q)) (emb2 (cp_y q))"
proof -
  note r = assms(2) [symmetric, unfolded lineFunctionDouble_def Let_def prod.inject]
  show "t_valid r'" using r by (simp add: t_valid_def gofield)
  show "alphaT r' = jac_double (alphaT r)"
    using r assms(1) by (simp add: alphaT_def t_valid_def gofield jac_double_def Let_def algebra_simps)
  show "line12 (alpha2 a) (alpha2 b) (alpha2 c) = tangent_line (alphaT r) (emb2 (cp_x q)) (emb2 (cp_y q))"
    using r assms(1) by (simp add: alphaT_def t_valid_def gofield tangent_line_def Let_def algebra_simps)
qed

lemma lineFunctionAdd_correct:
  assumes "t_valid r" and "alpha2 r2 = alpha2 (tp_y p) * alpha2 (tp_y p)"
    and "lineFunctionAdd r p q r2 = (a, b, c, r')"
  shows "alphaT r' = jac_add (alphaT r) (alpha2 (tp_x p), alpha2 (tp_y p), 1)" "t_valid r'"
    and "line12 (alpha2 a) (alpha2 b) (alpha2 c)
      = chord_line (alphaT r) (alpha2 (tp_x p)) (alpha2 (tp_y p)) (emb2 (cp_x q)) (emb2 (cp_y q))"
proof -
  note r = assms(3) [symmetric, unfolded lineFunctionAdd_def Let_def prod.inject]
  show "t_valid r'" using r by (simp add: t_valid_def gofield)
  show "alphaT r' = jac_add (alphaT r) (alpha2 (tp_x p), alpha2 (tp_y p), 1)"
    using r assms(1,2) by (simp add: alphaT_def t_valid_def gofield jac_add_def Let_def algebra_simps)
  show "line12 (alpha2 a) (alpha2 b) (alpha2 c)
      = chord_line (alphaT r) (alpha2 (tp_x p)) (alpha2 (tp_y p)) (emb2 (cp_x q)) (emb2 (cp_y q))"
    using r assms(1,2) by (simp add: alphaT_def t_valid_def gofield chord_line_def Let_def algebra_simps)
qed

text \<open>The two lines are, up to a factor in the quadratic extension, the tangent and the chord.\<close>

lemma tangent_line_slope:
  assumes "jac_point R X Y" and "l * (2 * Y) = 3 * (X * X)" and "s = 4 * (Y * snd (snd R) ^ 6)"
  shows "tangent_line R qx qy = line12 (s * (l * X - Y)) (- (s * (l * qx))) (s * qy)"
proof -
  obtain z where R: "R = (X * (z * z), Y * (z * z * z), z)" using assms(1) by (cases R) (auto simp: jac_point_def)
  have z: "z ^ 6 = z * z * z * (z * z * z)" by (simp add: eval_nat_numeral)
  have 6: "6 * (X * X) = l * (4 * Y)" using arg_cong [OF assms(2), of "\<lambda>v. 2 * v"] by (simp add: ac_simps)
  have "6 * (X * X * X) = l * (4 * Y) * X" unfolding 6 [symmetric] by (simp add: ac_simps)
  moreover have "6 * (X * X) * qx = l * (4 * Y) * qx" by (simp only: 6)
  ultimately have
    "(6 * (X * X * X) - 4 * (Y * Y)) * (z * z * z * (z * z * z)) = (l * (4 * Y) * X - 4 * (Y * Y)) * (z * z * z * (z * z * z))"
    "6 * (X * X) * qx * (z * z * z * (z * z * z)) = l * (4 * Y) * qx * (z * z * z * (z * z * z))"
    by simp_all
  then show ?thesis by (simp add: R tangent_line_def assms(3) z algebra_simps)
qed

lemma chord_line_slope:
  assumes "jac_point R X Y" and "l * (px - X) = py - Y" and "s = 4 * ((px - X) * snd (snd R) ^ 3)"
  shows "chord_line R px py qx qy = line12 (s * (l * px - py)) (- (s * (l * qx))) (s * qy)"
proof -
  obtain z where R: "R = (X * (z * z), Y * (z * z * z), z)" using assms(1) by (cases R) (auto simp: jac_point_def)
  have py: "py = Y + l * (px - X)" using assms(2) by simp
  show ?thesis by (simp add: R chord_line_def assms(3) Let_def py eval_nat_numeral algebra_simps)
qed

section \<open>The Miller loop\<close>

text \<open>
  The loop on field elements and Jacobian triples, over the signed digits from the highest: square,
  multiply with the tangent, double, and for a digit other than 0 multiply with the chord and add.
\<close>

fun miller_ref :: "int list \<Rightarrow> fp2 \<Rightarrow> fp2 \<Rightarrow> fp2 \<Rightarrow> fp2 \<Rightarrow> fp12 \<Rightarrow> fp2 triple \<Rightarrow> fp12 \<times> fp2 triple" where
  "miller_ref [] px py qx qy f R = (f, R)"
| "miller_ref (d # ds) px py qx qy f R =
     (let f = f * f * tangent_line R qx qy; R = jac_double R
      in if d = 1 then miller_ref ds px py qx qy (f * chord_line R px py qx qy) (jac_add R (px, py, 1))
         else if d = - 1 then miller_ref ds px py qx qy (f * chord_line R px (- py) qx qy) (jac_add R (px, - py, 1))
         else miller_ref ds px py qx qy f R)"

lemma miller_loop_ref:
  assumes "i \<le> 64" "i = 64 \<Longrightarrow> alpha12 ret = 1" and "t_valid r"
    and "alpha2 r2 = alpha2 (tp_y A) * alpha2 (tp_y A)"
    and "alpha2 (tp_x M) = alpha2 (tp_x A)" "alpha2 (tp_y M) = - alpha2 (tp_y A)"
    and "miller_loop A M B r2 i ret r = (ret', r')"
  shows "miller_ref (rev (take i sixuPlus2NAF)) (alpha2 (tp_x A)) (alpha2 (tp_y A)) (emb2 (cp_x B)) (emb2 (cp_y B))
      (alpha12 ret) (alphaT r) = (alpha12 ret', alphaT r') \<and> t_valid r'"
  using assms(1-3,7)
proof (induction i arbitrary: ret r)
  case (Suc i)
  have len: "length sixuPlus2NAF = 65" by (simp add: sixuPlus2NAF_def)
  have r2M: "alpha2 r2 = alpha2 (tp_y M) * alpha2 (tp_y M)" by (simp add: assms(4,6))
  have digits: "rev (take (Suc i) sixuPlus2NAF) = sixuPlus2NAF ! i # rev (take i sixuPlus2NAF)"
    using Suc.prems(1) by (simp add: take_Suc_conv_app_nth len)
  obtain a b c R where d: "lineFunctionDouble r B = (a, b, c, R)" by (cases "lineFunctionDouble r B")
  note D = lineFunctionDouble_correct [OF Suc.prems(3) d]
  define F where "F = mulLine (if Suc i \<noteq> length sixuPlus2NAF - 1 then gfP12_Square ret else ret) a b c"
  have F: "alpha12 F = alpha12 ret * alpha12 ret * tangent_line (alphaT r) (emb2 (cp_x B)) (emb2 (cp_y B))"
    using Suc.prems(2) by (auto simp: F_def alpha12_mulLine D(3) gofield len)
  obtain a1 b1 c1 R1 where p: "lineFunctionAdd R A B r2 = (a1, b1, c1, R1)" by (cases "lineFunctionAdd R A B r2")
  obtain a2 b2 c2 R2 where m: "lineFunctionAdd R M B r2 = (a2, b2, c2, R2)" by (cases "lineFunctionAdd R M B r2")
  note A = lineFunctionAdd_correct [OF D(2) assms(4) p] and M = lineFunctionAdd_correct [OF D(2) r2M m]
  have run: "(if sixuPlus2NAF ! i = 1 then miller_loop A M B r2 i (mulLine F a1 b1 c1) R1
      else if sixuPlus2NAF ! i = - 1 then miller_loop A M B r2 i (mulLine F a2 b2 c2) R2
      else miller_loop A M B r2 i F R) = (ret', r')"
    using Suc.prems(4) by (simp only: miller_loop.simps d p m Let_def prod.case F_def)
  have i: "i \<le> 64" "i = 64 \<Longrightarrow> alpha12 f = 1" for f using Suc.prems(1) by auto
  note IH = Suc.IH [OF i A(2), of "mulLine F a1 b1 c1"] Suc.IH [OF i M(2), of "mulLine F a2 b2 c2"] Suc.IH [OF i D(2), of F]
  show ?case
    unfolding digits miller_ref.simps Let_def F [symmetric] D(1) [symmetric]
    using run IH by (auto simp: alpha12_mulLine A(1,3) M(1,3) assms(5,6) split: if_splits)
qed simp

text \<open>
  The whole pairing value before the final exponentiation: the loop, then the chords to the images of
  the point under the Frobenius map of the twist and under its square, the latter negated.
\<close>

definition miller_value :: "fp2 \<Rightarrow> fp2 \<Rightarrow> fp2 \<Rightarrow> fp2 \<Rightarrow> fp12" where
  "miller_value X Y qx qy =
     (let (f, R) = miller_ref (rev (butlast sixuPlus2NAF)) X Y qx qy 1 (X, Y, 1);
          X1 = conj2 X * alpha2 xiToPMinus1Over3; Y1 = conj2 Y * alpha2 xiToPMinus1Over2;
          f = f * chord_line R X1 Y1 qx qy; R = jac_add R (X1, Y1, 1)
      in f * chord_line R (X * emb2 xiToPSquaredMinus1Over3) Y qx qy)"

lemma miller_affine:
  assumes "A = twistPoint_MakeAffine q" "B = curvePoint_MakeAffine p" "alphaT A = (X, Y, 1)" "t_valid A"
  shows "alpha12 (miller q p) = miller_value X Y (emb2 (cp_x B)) (emb2 (cp_y B))"
proof -
  have XY: "X = alpha2 (tp_x A)" "Y = alpha2 (tp_y A)" using assms(3) by (simp_all add: alphaT_def)
  let ?M = "twistPoint_Negative False A"
  obtain f r where loop: "miller_loop A ?M B (gfP2_Square (tp_y A)) 64 gfP12_SetOne A = (f, r)"
    by (cases "miller_loop A ?M B (gfP2_Square (tp_y A)) 64 gfP12_SetOne A")
  have "take 64 sixuPlus2NAF = butlast sixuPlus2NAF" and len: "length sixuPlus2NAF - 1 = 64"
    by (simp_all add: sixuPlus2NAF_def)
  then have ref: "miller_ref (rev (butlast sixuPlus2NAF)) X Y (emb2 (cp_x B)) (emb2 (cp_y B)) 1 (X, Y, 1) = (alpha12 f, alphaT r)"
    and tv: "t_valid r"
    using miller_loop_ref [OF _ _ assms(4) _ _ _ loop] by (simp_all add: gofield twistPoint_Negative_def XY assms(3))
  define Q1 where "Q1 = \<lparr>tp_x = gfP2_Mul (gfP2_Conjugate (tp_x A)) xiToPMinus1Over3,
    tp_y = gfP2_Mul (gfP2_Conjugate (tp_y A)) xiToPMinus1Over2, tp_z = gfP2_SetOne, tp_t = gfP2_SetOne\<rparr>"
  define Q2 where "Q2 = \<lparr>tp_x = gfP2_MulScalar (tp_x A) xiToPSquaredMinus1Over3, tp_y = tp_y A,
    tp_z = gfP2_SetOne, tp_t = gfP2_SetOne\<rparr>"
  have Q1: "alpha2 (tp_x Q1) = conj2 X * alpha2 xiToPMinus1Over3" "alpha2 (tp_y Q1) = conj2 Y * alpha2 xiToPMinus1Over2"
    and Q2: "alpha2 (tp_x Q2) = X * emb2 xiToPSquaredMinus1Over3" "alpha2 (tp_y Q2) = Y"
    by (simp_all add: Q1_def Q2_def gofield XY)
  obtain a1 b1 c1 r1 where 1: "lineFunctionAdd r Q1 B (gfP2_Square (tp_y Q1)) = (a1, b1, c1, r1)"
    by (cases "lineFunctionAdd r Q1 B (gfP2_Square (tp_y Q1))")
  note L1 = lineFunctionAdd_correct [OF tv alpha2_simps(12) 1]
  obtain a2 b2 c2 r2 where 2: "lineFunctionAdd r1 Q2 B (gfP2_Square (tp_y Q2)) = (a2, b2, c2, r2)"
    by (cases "lineFunctionAdd r1 Q2 B (gfP2_Square (tp_y Q2))")
  note L2 = lineFunctionAdd_correct [OF L1(2) alpha2_simps(12) 2]
  have "miller q p = mulLine (mulLine f a1 b1 c1) a2 b2 c2"
    by (simp only: miller_def Let_def twistPoint_Set_id alpha1_Set assms(1,2) [symmetric] len loop prod.case
        Q1_def [symmetric] Q2_def [symmetric] 1 2)
  then show ?thesis
    by (simp add: miller_value_def ref alpha12_mulLine L1(3) L2(3) L1(1) Q1 Q2 Let_def)
qed

section \<open>The final exponentiation\<close>

text \<open>The parameters of the curve are the values of the polynomials of Barreto and Naehrig at \<open>u\<close>.\<close>

lemma P_polynomial: "P = 36 * u_param ^ 4 + 36 * u_param ^ 3 + 24 * u_param ^ 2 + 6 * u_param + 1"
  by (simp add: P_def u_param_def)

lemma Order_polynomial: "Order = 36 * u_param ^ 4 + 36 * u_param ^ 3 + 18 * u_param ^ 2 + 6 * u_param + 1"
  by (simp add: Order_def u_param_def)

text \<open>The exponent that the chain of multiplications reaches, with \<open>p\<close> for the Frobenius map.\<close>

definition hard_exponent :: int where
  "hard_exponent = P ^ 3 + (6 * u_param ^ 2 + 1) * P ^ 2 + (1 - 12 * u_param - 18 * u_param ^ 2 - 36 * u_param ^ 3) * P
     - (2 + 18 * u_param + 30 * u_param ^ 2 + 36 * u_param ^ 3)"

lemma hard_exponent: "Order * hard_exponent = P ^ 4 - P ^ 2 + 1" and hard_exponent_pos: "0 < hard_exponent"
  by (simp_all add: hard_exponent_def P_def Order_def u_param_def)

lemma final_exponent:
  "(P ^ 12 - 1) div Order = (P ^ 6 - 1) * (P ^ 2 + 1) * hard_exponent"
proof -
  have "P ^ 12 - 1 = (P ^ 6 - 1) * (P ^ 2 + 1) * (P ^ 4 - P ^ 2 + 1)"
    by (simp add: algebra_simps power_add [symmetric])
  also have "\<dots> = (P ^ 6 - 1) * (P ^ 2 + 1) * hard_exponent * Order"
    unfolding hard_exponent [symmetric] by simp
  finally show ?thesis by (simp add: Order_def)
qed

lemma frob12_power: "frob12 (x ^ n) = frob12 x ^ n"
  by (induction n) (simp_all add: frob12_one frob12_mult)

lemma conj12_twice: "conj12 (conj12 x) = x"
  by (simp add: conj12_def)

text \<open>
  On the powers of an element that the Frobenius map raises to the power \<open>P\<close>, the maps used by
  \<open>finalExponentiation\<close> are powers.
\<close>

lemma frobenius_powers:
  assumes "frob12 F = F ^ p"
  shows "frob12 (F ^ n) = F ^ (n * p)" "frobP2_12 (F ^ n) = F ^ (n * p ^ 2)" "conj12 (F ^ n) = F ^ (n * p ^ 6)"
proof -
  show frob: "frob12 (F ^ n) = F ^ (n * p)" for n by (simp add: frob12_power assms power_mult [symmetric] mult.commute)
  show frob2: "frobP2_12 (F ^ n) = F ^ (n * p ^ 2)" for n
    by (simp add: frob12_twice [symmetric] frob power2_eq_square mult.assoc)
  show "conj12 (F ^ n) = F ^ (n * p ^ 6)"
    by (simp add: frobP2_12_thrice [symmetric] frob2 mult.assoc power_add [symmetric])
qed

lemma final_chain:
  fixes a :: gfP12
  assumes "frob12 F = F ^ p" "alpha12 a = F" "conj12 F * alpha12 (gfP12_Invert a) = F ^ k" "v = nat u_param"
  shows "\<exists>M. M = k * (p ^ 2 + 1) \<and> alpha12 (finalExponentiation a) = F ^ (M * (p + p ^ 2 + p ^ 3 + 6 * (v ^ 2 * p ^ 2)
    + p ^ 6 * (2 + 12 * (v * p) + 18 * (v + v ^ 2 * p) + 30 * v ^ 2 + 36 * (v ^ 3 + v ^ 3 * p))))"
proof (intro exI conjI)
  have u: "0 \<le> u_param" by (simp add: u_param_def)
  define t where "t = gfP12_Mul (gfP12_Mul (gfP12_Conjugate a) (gfP12_Invert a))
    (gfP12_FrobeniusP2 (gfP12_Mul (gfP12_Conjugate a) (gfP12_Invert a)))"
  define M q where "M = k * (p ^ 2 + 1)" and "q = p ^ 6"
  have t: "alpha12 t = F ^ M"
    by (simp add: t_def M_def gofield assms(2,3) frobenius_powers [OF assms(1)] power_add [symmetric] algebra_simps)
  have e: "alpha12 (gfP12_Exp x u_param) = alpha12 x ^ v" for x
    unfolding gfP12_Exp_def assms(4) by (rule pow12.exp_power [OF u])
  show "alpha12 (finalExponentiation a) = F ^ (k * (p ^ 2 + 1) * (p + p ^ 2 + p ^ 3 + 6 * (v ^ 2 * p ^ 2)
    + p ^ 6 * (2 + 12 * (v * p) + 18 * (v + v ^ 2 * p) + 30 * v ^ 2 + 36 * (v ^ 3 + v ^ 3 * p))))"
    unfolding finalExponentiation_def gfP12_Conjugate_def [symmetric] Let_def t_def [symmetric] M_def [symmetric] q_def [symmetric]
    by (simp only: alpha12_simps e t frobenius_powers [OF assms(1)] power_mult [symmetric] power_add [symmetric] q_def [symmetric])
      (rule arg_cong [where f = "(^) F"], algebra)
qed (rule refl)

lemma conjugate_inverse:
  assumes "frob12 F = F ^ p" "0 < p" "G * F = 1"
  shows "conj12 F * G = F ^ (p ^ 6 - 1)" and "F ^ (p ^ 12 - 1) = 1"
proof -
  have drop: "F ^ n * G = F ^ (n - 1)" if "0 < n" for n
    using that assms(3) by (cases n) (simp_all add: mult.assoc mult.left_commute [of F] power_commutes [symmetric] mult.commute [of F G])
  show "conj12 F * G = F ^ (p ^ 6 - 1)"
    using frobenius_powers(3) [OF assms(1), of 1] assms(2) by (simp add: drop)
  have "conj12 (conj12 F) = F ^ (p ^ 12)"
    using frobenius_powers(3) [OF assms(1), of 1] frobenius_powers(3) [OF assms(1), of "p ^ 6"]
    by (simp add: power_add [symmetric])
  then have "F = F ^ (p ^ 12)" by (simp only: conj12_twice)
  then show "F ^ (p ^ 12 - 1) = 1" using drop [of "p ^ 12"] assms(2,3) by (simp add: mult.commute)
qed

text \<open>The sum of the exponents with the conjugations as inverses.\<close>

lemma chain_exponent:
  assumes "int p = P" "v = nat u_param" "K = 2 + 12 * (v * p) + 18 * (v + v ^ 2 * p) + 30 * v ^ 2 + 36 * (v ^ 3 + v ^ 3 * p)"
  shows "p + p ^ 2 + p ^ 3 + 6 * (v ^ 2 * p ^ 2) = nat hard_exponent + K"
proof -
  have "0 \<le> u_param" by (simp add: u_param_def)
  then have v: "int v = u_param" using assms(2) by simp
  have "int (p + p ^ 2 + p ^ 3 + 6 * (v ^ 2 * p ^ 2)) = int (nat hard_exponent + K)"
    using hard_exponent_pos by (simp add: assms(1,3) v hard_exponent_def algebra_simps)
  then show ?thesis by (simp only: of_nat_eq_iff)
qed

lemma finalExponentiation_of:
  assumes F: "frob12 F = F ^ nat P" "alpha12 (gfP12_Invert a) * F = 1" "alpha12 a = F"
  shows "alpha12 (finalExponentiation a) = F ^ nat ((P ^ 12 - 1) div Order)"
proof -
  define p v where "p = nat P" and "v = nat u_param"
  have p: "int p = P" "0 < p" by (simp_all add: p_def P_def)
  define K where "K = 2 + 12 * (v * p) + 18 * (v + v ^ 2 * p) + 30 * v ^ 2 + 36 * (v ^ 3 + v ^ 3 * p)"
  define M where "M = (p ^ 6 - 1) * (p ^ 2 + 1)"
  note inv = conjugate_inverse [OF F(1) [folded p_def] p(2) F(2)]
  have "int (p ^ 6 - 1) = P ^ 6 - 1" using p by (simp add: of_nat_diff)
  then have M: "int M = (P ^ 6 - 1) * (P ^ 2 + 1)" by (simp only: M_def of_nat_mult of_nat_add of_nat_power p(1) of_nat_1)
  have "M * (p ^ 6 + 1) = (p ^ 12 - 1) * (p ^ 2 + 1)"
    by (simp add: M_def algebra_simps power_add [symmetric])
  then have one: "F ^ (M * (p ^ 6 + 1)) = 1" by (simp only: power_mult inv(2) power_one)
  have "alpha12 (finalExponentiation a) = F ^ (M * (nat hard_exponent + K + p ^ 6 * K))"
    using final_chain [OF F(1) [folded p_def] F(3) inv(1) v_def]
    unfolding M_def [symmetric] K_def [symmetric] chain_exponent [OF p(1) v_def K_def] by auto
  also have "M * (nat hard_exponent + K + p ^ 6 * K) = M * nat hard_exponent + M * (p ^ 6 + 1) * K"
    by (simp add: algebra_simps)
  also have "F ^ \<dots> = F ^ (M * nat hard_exponent)"
    unfolding power_add by (simp only: power_mult [of F "M * (p ^ 6 + 1)"] one power_one mult_1_right)
  also have "M * nat hard_exponent = nat ((P ^ 12 - 1) div Order)"
    unfolding final_exponent M [symmetric] by (simp add: nat_mult_distrib)
  finally show ?thesis .
qed

lemma miller_of_affine:
  assumes q: "0 \<le> gfP2_y (tp_z q)" "gfP2_IsOne (tp_z q) \<longrightarrow> t_valid q"
      "coprime (gfP2_x (tp_z q) * gfP2_x (tp_z q) + gfP2_y (tp_z q) * gfP2_y (tp_z q)) P" "jac_point (alphaT q) X Y"
    and p: "coprime (cp_z p) P" "cp_z p \<noteq> - 1" "jac_point (alpha1 p) x y"
  shows "alpha12 (miller q p) = miller_value X Y (Fp2 0 x) (Fp2 0 y)"
proof -
  obtain X' Y' where A: "alphaT (twistPoint_MakeAffine q) = (X', Y', 1)" "jac_point (alphaT q) X' Y'"
    using alphaT_MakeAffine [OF q(1,3)] by blast
  have unit: "snd (snd (alphaT q)) * alpha2 (gfP2_Invert (tp_z q)) = 1"
    using alpha2_Invert [OF q(3)] by (simp add: alphaT_def mult.commute)
  have "jac_same (alphaT q) (alphaT q)" by (cases "alphaT q") (simp add: jac_same_def)
  then have XY: "X' = X" "Y' = Y" using jac_same_iff [OF A(2) q(4) unit unit] by simp_all
  have "t_valid (twistPoint_MakeAffine q)"
    using q(2) by (auto simp: twistPoint_MakeAffine_def t_valid_def Let_def gofield)
  from miller_affine [OF refl refl A(1) this, of p] show ?thesis
    using MakeAffine_law [OF p] by (simp add: XY emb2_def)
qed

section \<open>Properties\<close>

text \<open>C17: \<open>finalExponentiation\<close> computes the power \<open>(P\<^sup>1\<^sup>2 - 1) / Order\<close>, as its comment says, of every
  invertible element that its Frobenius map raises to the power \<open>P\<close>.\<close>

theorem final_exponentiation_power:
  assumes "alpha12 (gfP12_Frobenius a) = alpha12 a ^ nat P" and "alpha12 (gfP12_Invert a) * alpha12 a = 1"
  shows "alpha12 (finalExponentiation a) = alpha12 a ^ nat ((P ^ 12 - 1) div Order)"
  using assms(1) by (intro finalExponentiation_of [OF _ assms(2) refl]) (simp add: gofield)

definition imaginary_unit :: gfP12 where
  "imaginary_unit = \<lparr>gfP12_x = gfP6_SetZero,
     gfP12_y = \<lparr>gfP6_x = gfP2_SetZero, gfP6_y = gfP2_SetZero, gfP6_z = \<lparr>gfP2_x = 1, gfP2_y = 0\<rparr>\<rparr>\<rparr>"

theorem final_exponentiation_power_witness:
  "alpha12 (finalExponentiation imaginary_unit) = alpha12 imaginary_unit ^ nat ((P ^ 12 - 1) div Order)"
proof (rule final_exponentiation_power)
  let ?i = "alpha12 imaginary_unit"
  have i: "?i = Fp12 0 (Fp6 0 0 (Fp2 1 0))"
    by (simp add: imaginary_unit_def alpha12_def alpha6_def alpha2_def gfP6_SetZero_def gfP2_SetZero_def zero_fp6_def zero_fp2_def)
  have sq: "?i * ?i = - 1" by (simp add: i fp12_ring_defs fp6_ring_defs fp2_ring_defs)
  have "nat P = 4 * nat 5472060717959818805561601436314318772174077789324455915672259473661306552145 + 3"
    by (simp add: P_def)
  then have "?i ^ nat P = (?i * ?i * (?i * ?i)) ^ nat 5472060717959818805561601436314318772174077789324455915672259473661306552145
      * (?i * ?i * ?i)"
    by (simp only: power_add power_mult power3_eq_cube power4_eq_xxxx mult.assoc)
  then have "?i ^ nat P = - ?i" by (simp add: sq)
  moreover have "frob12 ?i = - ?i"
    by (simp add: i frob12_def frob6_def conj2_def fp12_ring_defs fp6_ring_defs fp2_ring_defs)
  ultimately show "alpha12 (gfP12_Frobenius imaginary_unit) = ?i ^ nat P" by (simp add: gofield)
  have "gfP12_Invert imaginary_unit = \<lparr>gfP12_x = gfP6_SetZero,
     gfP12_y = \<lparr>gfP6_x = gfP2_SetZero, gfP6_y = gfP2_SetZero, gfP6_z = \<lparr>gfP2_x = P - 1, gfP2_y = 0\<rparr>\<rparr>\<rparr>"
    by code_simp
  then show "alpha12 (gfP12_Invert imaginary_unit) * ?i = 1"
    by (simp add: imaginary_unit_def alpha12_def alpha6_def alpha2_def gfP6_SetZero_def gfP2_SetZero_def fp12_ring_defs fp6_ring_defs fp2_ring_defs)
qed

text \<open>C18: \<open>miller\<close> computes the Miller function of its points: it is the loop over the signed digits with
  the tangents and chords of Jacobian arithmetic, followed by the chords to the two Frobenius images,
  for every pair of finite points. So the kept coordinate \<open>t\<close>, the skipped first squaring and the sparse
  multiplication change nothing.\<close>

theorem miller_reference:
  assumes "0 \<le> gfP2_y (tp_z q)" "gfP2_IsOne (tp_z q) \<longrightarrow> t_valid q"
      "coprime (gfP2_x (tp_z q) * gfP2_x (tp_z q) + gfP2_y (tp_z q) * gfP2_y (tp_z q)) P" "jac_point (alphaT q) X Y"
    and "coprime (cp_z p) P" "cp_z p \<noteq> - 1" "jac_point (alpha1 p) x y"
  shows "alpha12 (miller q p) = miller_value X Y (Fp2 0 x) (Fp2 0 y)"
  using assms by (rule miller_of_affine)

theorem miller_reference_witness:
  "alpha12 (miller twistGen curveGen) = miller_value (alpha2 (tp_x twistGen)) (alpha2 (tp_y twistGen)) (Fp2 0 1) (Fp2 0 (- 2))"
  by (rule miller_reference)
    (simp_all add: twistGen_def curveGen_def t_valid_def alpha2_def jac_point_def alphaT_def alpha1_def one_fp2_def
      fp2_ring_defs)

text \<open>Doubling in the Miller loop returns the double of the point and the tangent there: for the slope
  \<open>l\<close> of the tangent at \<open>(X, Y)\<close>, the coefficients are those of \<open>y - l x + (l X - Y)\<close> at the point \<open>q\<close>,
  up to one factor.\<close>

theorem line_double_tangent:
  assumes "t_valid r" "jac_point (alphaT r) X Y" "l * (2 * Y) = 3 * (X * X)"
    and "lineFunctionDouble r q = (a, b, c, r')"
    and "s = 4 * (Y * alpha2 (tp_z r) ^ 6)" and "X3 = l * l - 2 * X"
  shows "alpha2 a = s * (l * X - Y) \<and> alpha2 b = - (s * (l * emb2 (cp_x q))) \<and> alpha2 c = s * emb2 (cp_y q) \<and>
    jac_point (alphaT r') X3 (l * (X - X3) - Y) \<and> t_valid r'"
proof -
  have "line12 (alpha2 a) (alpha2 b) (alpha2 c)
      = line12 (s * (l * X - Y)) (- (s * (l * emb2 (cp_x q)))) (s * emb2 (cp_y q))"
    using tangent_line_slope [OF assms(2,3), of s] assms(5) lineFunctionDouble_correct(3) [OF assms(1,4)]
    by (simp add: alphaT_def)
  then show ?thesis
    using lineFunctionDouble_correct(1,2) [OF assms(1,4)] jac_double_tangent [OF assms(2,3,6)]
    by (simp add: line12_def)
qed

theorem line_double_tangent_witness:
  "\<exists>a b c r' s. lineFunctionDouble \<lparr>tp_x = gfP2_SetZero, tp_y = gfP2_SetOne, tp_z = gfP2_SetOne, tp_t = gfP2_SetOne\<rparr> curveGen = (a, b, c, r') \<and>
     alpha2 a = s * (0 * 0 - 1) \<and> alpha2 b = - (s * (0 * emb2 (cp_x curveGen))) \<and> alpha2 c = s * emb2 (cp_y curveGen) \<and>
     jac_point (alphaT r') (0 * 0 - 2 * 0) (0 * (0 - (0 * 0 - 2 * 0)) - 1) \<and> t_valid r'"
proof -
  let ?r = "\<lparr>tp_x = gfP2_SetZero, tp_y = gfP2_SetOne, tp_z = gfP2_SetOne, tp_t = gfP2_SetOne\<rparr>"
  obtain a b c r' where d: "lineFunctionDouble ?r curveGen = (a, b, c, r')" by (cases "lineFunctionDouble ?r curveGen")
  have r: "t_valid ?r" "jac_point (alphaT ?r) 0 1" by (simp_all add: t_valid_def jac_point_def alphaT_def gofield)
  show ?thesis using d line_double_tangent [OF r _ d refl refl, of 0] by auto
qed

text \<open>The digits of \<open>sixuPlus2NAF\<close> are a signed binary form of \<open>6u + 2\<close>; but two neighbours can both be
  different from 0, so it is not the non-adjacent form that the comment announces.\<close>

theorem six_u_plus_2:
  "foldr (\<lambda>d n. d + 2 * n) sixuPlus2NAF 0 = 6 * u_param + 2 \<and> set sixuPlus2NAF \<subseteq> {- 1, 0, 1} \<and>
   (\<exists>i. Suc i < length sixuPlus2NAF \<and> sixuPlus2NAF ! i \<noteq> 0 \<and> sixuPlus2NAF ! Suc i \<noteq> 0)"
  by (intro conjI exI [of _ 17]) (simp_all add: sixuPlus2NAF_def u_param_def)

end
