(* ===== verification/BN256.thy ===== *)
theory BN256
  imports OptAte
begin

text \<open>
  \<open>bn256.go\<close>: the three groups with their encodings, the pairing check, the generation of random points
  and the pool of temporaries. The field \<open>p\<close> of a group element is \<open>None\<close> for the zero value of the Go
  type; using it as an argument dereferences a nil pointer. A method that updates its receiver
  returns the new receiver.
\<close>

section \<open>G1\<close>

record G1 =
  G1_p :: "curvePoint option"

definition G1_receiver :: "G1 \<Rightarrow> curvePoint" where
  "G1_receiver e = (case G1_p e of None \<Rightarrow> newCurvePoint | Some p \<Rightarrow> p)"

definition G1_CurvePoints :: "G1 \<Rightarrow> (unit, int \<times> int \<times> int \<times> int) outcome" where
  "G1_CurvePoints e = (case G1_p e of None \<Rightarrow> Panic | Some p \<Rightarrow> Ok (cp_x p, cp_y p, cp_z p, cp_t p))"

definition G1_ScalarBaseMult :: "int \<Rightarrow> G1" where
  "G1_ScalarBaseMult k = \<lparr>G1_p = Some (curvePoint_Mul curveGen k)\<rparr>"

definition G1_ScalarMult :: "G1 \<Rightarrow> int \<Rightarrow> (unit, G1) outcome" where
  "G1_ScalarMult a k = (case G1_p a of None \<Rightarrow> Panic | Some p \<Rightarrow> Ok \<lparr>G1_p = Some (curvePoint_Mul p k)\<rparr>)"

text \<open>\<open>inplace\<close> says that the receiver is the first summand.\<close>

definition G1_Add :: "bool \<Rightarrow> G1 \<Rightarrow> G1 \<Rightarrow> G1 \<Rightarrow> (unit, G1) outcome" where
  "G1_Add inplace e a b =
     (case (G1_p a, G1_p b) of
        (Some p, Some q) \<Rightarrow> Ok \<lparr>G1_p = Some (curvePoint_Add inplace (G1_receiver e) p q)\<rparr>
      | _ \<Rightarrow> Panic)"

definition G1_Neg :: "G1 \<Rightarrow> (unit, G1) outcome" where
  "G1_Neg a = (case G1_p a of None \<Rightarrow> Panic | Some p \<Rightarrow> Ok \<lparr>G1_p = Some (curvePoint_Negative p)\<rparr>)"

definition G1_Marshal :: "G1 \<Rightarrow> (unit, byte list \<times> G1) outcome" where
  "G1_Marshal n =
     (case G1_p n of None \<Rightarrow> Panic
      | Some p \<Rightarrow>
        let p = curvePoint_MakeAffine p;
            xBytes = big_Bytes (big_Mod (cp_x p) P);
            yBytes = big_Bytes (big_Mod (cp_y p) P);
            ret = replicate (32 * 2) 0;
            ret = go_copy ret (1 * 32 - length xBytes) xBytes;
            ret = go_copy ret (2 * 32 - length yBytes) yBytes
        in Ok (ret, \<lparr>G1_p = Some p\<rparr>))"

text \<open>The new receiver, and whether the encoding was accepted.\<close>

definition G1_Unmarshal :: "G1 \<Rightarrow> byte list \<Rightarrow> G1 \<times> bool" where
  "G1_Unmarshal e m =
     (if length m \<noteq> 2 * 32 then (e, False)
      else
        let p = G1_receiver e;
            p = p\<lparr>cp_x := big_SetBytes (subslice m (0 * 32) (1 * 32))\<rparr>;
            p = p\<lparr>cp_y := big_SetBytes (subslice m (1 * 32) (2 * 32))\<rparr>
        in
        if cp_x p = 0 \<and> cp_y p = 0 then (\<lparr>G1_p = Some (p\<lparr>cp_y := 1, cp_z := 0, cp_t := 0\<rparr>)\<rparr>, True)
        else
          let p = p\<lparr>cp_z := 1, cp_t := 1\<rparr>
          in if \<not> curvePoint_IsOnCurve p then (\<lparr>G1_p = Some p\<rparr>, False) else (\<lparr>G1_p = Some p\<rparr>, True))"

section \<open>G2\<close>

record G2 =
  G2_p :: "twistPoint option"

definition G2_receiver :: "G2 \<Rightarrow> twistPoint" where
  "G2_receiver e = (case G2_p e of None \<Rightarrow> newTwistPoint | Some p \<Rightarrow> p)"

definition G2_CurvePoints :: "G2 \<Rightarrow> (unit, gfP2 \<times> gfP2 \<times> gfP2 \<times> gfP2) outcome" where
  "G2_CurvePoints e = (case G2_p e of None \<Rightarrow> Panic | Some p \<Rightarrow> Ok (tp_x p, tp_y p, tp_z p, tp_t p))"

definition G2_ScalarBaseMult :: "int \<Rightarrow> G2" where
  "G2_ScalarBaseMult k = \<lparr>G2_p = Some (twistPoint_Mul twistGen k)\<rparr>"

definition G2_ScalarMult :: "G2 \<Rightarrow> int \<Rightarrow> (unit, G2) outcome" where
  "G2_ScalarMult a k = (case G2_p a of None \<Rightarrow> Panic | Some p \<Rightarrow> Ok \<lparr>G2_p = Some (twistPoint_Mul p k)\<rparr>)"

definition G2_Add :: "bool \<Rightarrow> G2 \<Rightarrow> G2 \<Rightarrow> G2 \<Rightarrow> (unit, G2) outcome" where
  "G2_Add inplace e a b =
     (case (G2_p a, G2_p b) of
        (Some p, Some q) \<Rightarrow> Ok \<lparr>G2_p = Some (twistPoint_Add inplace (G2_receiver e) p q)\<rparr>
      | _ \<Rightarrow> Panic)"

definition G2_Marshal :: "G2 \<Rightarrow> (unit, byte list \<times> G2) outcome" where
  "G2_Marshal n =
     (case G2_p n of None \<Rightarrow> Panic
      | Some p \<Rightarrow>
        let p = twistPoint_MakeAffine p;
            xxBytes = big_Bytes (big_Mod (gfP2_x (tp_x p)) P);
            xyBytes = big_Bytes (big_Mod (gfP2_y (tp_x p)) P);
            yxBytes = big_Bytes (big_Mod (gfP2_x (tp_y p)) P);
            yyBytes = big_Bytes (big_Mod (gfP2_y (tp_y p)) P);
            ret = replicate (32 * 4) 0;
            ret = go_copy ret (1 * 32 - length xxBytes) xxBytes;
            ret = go_copy ret (2 * 32 - length xyBytes) xyBytes;
            ret = go_copy ret (3 * 32 - length yxBytes) yxBytes;
            ret = go_copy ret (4 * 32 - length yyBytes) yyBytes
        in Ok (ret, \<lparr>G2_p = Some p\<rparr>))"

definition G2_Unmarshal :: "G2 \<Rightarrow> byte list \<Rightarrow> G2 \<times> bool" where
  "G2_Unmarshal e m =
     (if length m \<noteq> 4 * 32 then (e, False)
      else
        let p = G2_receiver e;
            xx = big_SetBytes (subslice m (0 * 32) (1 * 32));
            xy = big_SetBytes (subslice m (1 * 32) (2 * 32));
            yx = big_SetBytes (subslice m (2 * 32) (3 * 32));
            yy = big_SetBytes (subslice m (3 * 32) (4 * 32));
            p = p\<lparr>tp_x := \<lparr>gfP2_x = xx, gfP2_y = xy\<rparr>, tp_y := \<lparr>gfP2_x = yx, gfP2_y = yy\<rparr>\<rparr>
        in
        if xx = 0 \<and> xy = 0 \<and> yx = 0 \<and> yy = 0
        then (\<lparr>G2_p = Some (p\<lparr>tp_y := gfP2_SetOne, tp_z := gfP2_SetZero, tp_t := gfP2_SetZero\<rparr>)\<rparr>, True)
        else
          let p = p\<lparr>tp_z := gfP2_SetOne, tp_t := gfP2_SetOne\<rparr>
          in if \<not> twistPoint_IsOnCurve p then (\<lparr>G2_p = Some p\<rparr>, False) else (\<lparr>G2_p = Some p\<rparr>, True))"

section \<open>GT\<close>

record GT =
  GT_p :: "gfP12 option"

definition GT_ScalarMult :: "GT \<Rightarrow> int \<Rightarrow> (unit, GT) outcome" where
  "GT_ScalarMult a k = (case GT_p a of None \<Rightarrow> Panic | Some p \<Rightarrow> Ok \<lparr>GT_p = Some (gfP12_Exp p k)\<rparr>)"

definition GT_Add :: "GT \<Rightarrow> GT \<Rightarrow> (unit, GT) outcome" where
  "GT_Add a b =
     (case (GT_p a, GT_p b) of (Some p, Some q) \<Rightarrow> Ok \<lparr>GT_p = Some (gfP12_Mul p q)\<rparr> | _ \<Rightarrow> Panic)"

definition GT_Neg :: "GT \<Rightarrow> (unit, GT) outcome" where
  "GT_Neg a = (case GT_p a of None \<Rightarrow> Panic | Some p \<Rightarrow> Ok \<lparr>GT_p = Some (gfP12_Invert p)\<rparr>)"

definition GT_Marshal :: "GT \<Rightarrow> (unit, byte list \<times> GT) outcome" where
  "GT_Marshal n =
     (case GT_p n of None \<Rightarrow> Panic
      | Some p \<Rightarrow>
        let p = gfP12_Minimal p;
            xxxBytes = big_Bytes (gfP2_x (gfP6_x (gfP12_x p)));
            xxyBytes = big_Bytes (gfP2_y (gfP6_x (gfP12_x p)));
            xyxBytes = big_Bytes (gfP2_x (gfP6_y (gfP12_x p)));
            xyyBytes = big_Bytes (gfP2_y (gfP6_y (gfP12_x p)));
            xzxBytes = big_Bytes (gfP2_x (gfP6_z (gfP12_x p)));
            xzyBytes = big_Bytes (gfP2_y (gfP6_z (gfP12_x p)));
            yxxBytes = big_Bytes (gfP2_x (gfP6_x (gfP12_y p)));
            yxyBytes = big_Bytes (gfP2_y (gfP6_x (gfP12_y p)));
            yyxBytes = big_Bytes (gfP2_x (gfP6_y (gfP12_y p)));
            yyyBytes = big_Bytes (gfP2_y (gfP6_y (gfP12_y p)));
            yzxBytes = big_Bytes (gfP2_x (gfP6_z (gfP12_y p)));
            yzyBytes = big_Bytes (gfP2_y (gfP6_z (gfP12_y p)));
            ret = replicate (32 * 12) 0;
            ret = go_copy ret (1 * 32 - length xxxBytes) xxxBytes;
            ret = go_copy ret (2 * 32 - length xxyBytes) xxyBytes;
            ret = go_copy ret (3 * 32 - length xyxBytes) xyxBytes;
            ret = go_copy ret (4 * 32 - length xyyBytes) xyyBytes;
            ret = go_copy ret (5 * 32 - length xzxBytes) xzxBytes;
            ret = go_copy ret (6 * 32 - length xzyBytes) xzyBytes;
            ret = go_copy ret (7 * 32 - length yxxBytes) yxxBytes;
            ret = go_copy ret (8 * 32 - length yxyBytes) yxyBytes;
            ret = go_copy ret (9 * 32 - length yyxBytes) yyxBytes;
            ret = go_copy ret (10 * 32 - length yyyBytes) yyyBytes;
            ret = go_copy ret (11 * 32 - length yzxBytes) yzxBytes;
            ret = go_copy ret (12 * 32 - length yzyBytes) yzyBytes
        in Ok (ret, \<lparr>GT_p = Some p\<rparr>))"

definition GT_Unmarshal :: "GT \<Rightarrow> byte list \<Rightarrow> GT \<times> bool" where
  "GT_Unmarshal e m =
     (if length m \<noteq> 12 * 32 then (e, False)
      else
        let part = (\<lambda>i. big_SetBytes (subslice m (i * 32) ((i + 1) * 32)))
        in (\<lparr>GT_p = Some
              \<lparr>gfP12_x = \<lparr>gfP6_x = \<lparr>gfP2_x = part 0, gfP2_y = part 1\<rparr>,
                          gfP6_y = \<lparr>gfP2_x = part 2, gfP2_y = part 3\<rparr>,
                          gfP6_z = \<lparr>gfP2_x = part 4, gfP2_y = part 5\<rparr>\<rparr>,
               gfP12_y = \<lparr>gfP6_x = \<lparr>gfP2_x = part 6, gfP2_y = part 7\<rparr>,
                          gfP6_y = \<lparr>gfP2_x = part 8, gfP2_y = part 9\<rparr>,
                          gfP6_z = \<lparr>gfP2_x = part 10, gfP2_y = part 11\<rparr>\<rparr>\<rparr>\<rparr>, True))"

section \<open>Pairing\<close>

definition Pair_GT :: "G1 \<Rightarrow> G2 \<Rightarrow> (unit, GT) outcome" where
  "Pair_GT g1 g2 =
     (case (G1_p g1, G2_p g2) of (Some p, Some q) \<Rightarrow> Ok \<lparr>GT_p = Some (optimalAte q p)\<rparr> | _ \<Rightarrow> Panic)"

text \<open>The loop of \<open>PairingCheck\<close>; an index past the end of \<open>b\<close> panics.\<close>

fun pairing_loop :: "G1 list \<Rightarrow> G2 list \<Rightarrow> gfP12 \<Rightarrow> (unit, gfP12) outcome" where
  "pairing_loop [] bs acc = Ok acc"
| "pairing_loop (a # as) [] acc =
     (case G1_p a of None \<Rightarrow> Panic
      | Some p \<Rightarrow> if curvePoint_IsInfinity p then pairing_loop as [] acc else Panic)"
| "pairing_loop (a # as) (b # bs) acc =
     (case G1_p a of None \<Rightarrow> Panic
      | Some p \<Rightarrow>
        if curvePoint_IsInfinity p then pairing_loop as bs acc
        else case G2_p b of None \<Rightarrow> Panic
             | Some q \<Rightarrow>
               if twistPoint_IsInfinity q then pairing_loop as bs acc
               else pairing_loop as bs (gfP12_Mul acc (miller q p)))"

definition PairingCheck :: "G1 list \<Rightarrow> G2 list \<Rightarrow> (unit, bool) outcome" where
  "PairingCheck a b =
     bind_outcome (pairing_loop a b gfP12_SetOne) (\<lambda>acc. Ok (gfP12_IsOne (finalExponentiation acc)))"

section \<open>Random points\<close>

text \<open>
  A reader is the list of the bytes it will still deliver. \<open>io.ReadFull\<close> fails at its end; \<open>rand.Int\<close>
  reads as many bytes as \<open>max - 1\<close> needs, clears the bits above it and tries again when the result is
  not below \<open>max\<close>.
\<close>

datatype read_error = EOF | ErrUnexpectedEOF

definition ReadFull :: "nat \<Rightarrow> byte list \<Rightarrow> (read_error, byte list \<times> byte list) outcome" where
  "ReadFull k r =
     (if k \<le> length r then Ok (take k r, drop k r) else if r = [] then Err EOF else Err ErrUnexpectedEOF)"

definition rand_value :: "nat \<Rightarrow> byte list \<Rightarrow> int" where
  "rand_value b bytes = big_SetBytes ((hd bytes AND mask b) # tl bytes)"

function rand_Int_loop :: "nat \<Rightarrow> nat \<Rightarrow> int \<Rightarrow> byte list \<Rightarrow> (read_error, int \<times> byte list) outcome" where
  "rand_Int_loop k b m r =
     (case ReadFull (Suc k) r of
        Ok (bytes, r') \<Rightarrow>
          let n = rand_value b bytes
          in if n < m then Ok (n, r') else rand_Int_loop k b m r'
      | Err e \<Rightarrow> Err e
      | Panic \<Rightarrow> Panic)"
  by pat_completeness auto
termination
  by (relation "measure (\<lambda>(k, b, m, r). length r)") (auto simp: ReadFull_def split: if_splits)

declare rand_Int_loop.simps [simp del]

definition rand_Int :: "byte list \<Rightarrow> int \<Rightarrow> (read_error, int \<times> byte list) outcome" where
  "rand_Int r m =
     (if m \<le> 0 then Panic
      else
        let bitLen = big_BitLen (m - 1)
        in if bitLen = 0 then Ok (0, r)
           else
             let k = (bitLen + 7) div 8;
                 b = bitLen mod 8;
                 b = (if b = 0 then 8 else b)
             in rand_Int_loop (k - 1) b m r)"

lemma rand_Int_loop_shorter: "rand_Int_loop k b m r = Ok (n, r') \<Longrightarrow> length r' < length r"
proof (induction k b m r rule: rand_Int_loop.induct)
  case (1 k b m r)
  show ?case
  proof (cases "ReadFull (Suc k) r")
    case (Ok res)
    then obtain bytes s where s: "ReadFull (Suc k) r = Ok (bytes, s)" by (cases res) auto
    then have "length s < length r" by (auto simp: ReadFull_def split: if_splits)
    with "1.IH" [OF s refl refl] "1.prems" show ?thesis
      by (subst (asm) (2) rand_Int_loop.simps) (auto simp: s Let_def split: if_splits)
  qed (use "1.prems" in \<open>simp_all add: rand_Int_loop.simps\<close>)
qed

lemma big_BitLen_Order: "big_BitLen (Order - 1) = 254"
  by code_simp

lemma rand_Int_Order: "rand_Int r Order = rand_Int_loop 31 6 Order r"
  unfolding rand_Int_def Let_def big_BitLen_Order by (simp add: Order_def)

function random_loop :: "byte list \<Rightarrow> (read_error, int \<times> byte list) outcome" where
  "random_loop r =
     (case rand_Int r Order of
        Ok (k, r') \<Rightarrow> if k > 0 then Ok (k, r') else random_loop r'
      | Err e \<Rightarrow> Err e
      | Panic \<Rightarrow> Panic)"
  by pat_completeness auto
termination
  by (relation "measure length") (auto simp: rand_Int_Order dest: rand_Int_loop_shorter)

declare random_loop.simps [simp del]

definition RandomG1 :: "byte list \<Rightarrow> (read_error, int \<times> G1 \<times> byte list) outcome" where
  "RandomG1 r = bind_outcome (random_loop r) (\<lambda>(k, r'). Ok (k, G1_ScalarBaseMult k, r'))"

definition RandomG2 :: "byte list \<Rightarrow> (read_error, int \<times> G2 \<times> byte list) outcome" where
  "RandomG2 r = bind_outcome (random_loop r) (\<lambda>(k, r'). Ok (k, G2_ScalarBaseMult k, r'))"

section \<open>The pool\<close>

text \<open>
  The pool holds addresses of \<open>big.Int\<close> objects; \<open>fresh\<close> is the next address the allocator gives out. A
  nil pool is \<open>None\<close>.
\<close>

record bnPool =
  bns :: "nat list"
  pool_count :: int

definition bnPool_Get :: "bnPool option \<Rightarrow> nat \<Rightarrow> nat \<times> bnPool option \<times> nat" where
  "bnPool_Get pool fresh =
     (case pool of None \<Rightarrow> (fresh, None, Suc fresh)
      | Some p \<Rightarrow>
        let p = p\<lparr>pool_count := pool_count p + 1\<rparr>;
            l = length (bns p)
        in if l = 0 then (fresh, Some p, Suc fresh)
           else (bns p ! (l - 1), Some (p\<lparr>bns := take (l - 1) (bns p)\<rparr>), fresh))"

definition bnPool_Put :: "bnPool option \<Rightarrow> nat \<Rightarrow> bnPool option" where
  "bnPool_Put pool bn =
     (case pool of None \<Rightarrow> None
      | Some p \<Rightarrow> Some (p\<lparr>bns := bns p @ [bn], pool_count := pool_count p - 1\<rparr>))"

definition bnPool_Count :: "bnPool \<Rightarrow> int" where
  "bnPool_Count pool = pool_count pool"

text \<open>
  A client of a pool: it takes objects, and puts back objects it holds, in any order.
\<close>

inductive pool_run :: "bnPool \<Rightarrow> nat \<Rightarrow> nat list \<Rightarrow> bool" where
  pool_new: "pool_run \<lparr>bns = [], pool_count = 0\<rparr> fresh []"
| pool_get: "pool_run p fresh held \<Longrightarrow> bnPool_Get (Some p) fresh = (bn, Some p', fresh') \<Longrightarrow> pool_run p' fresh' (bn # held)"
| pool_put: "pool_run p fresh held \<Longrightarrow> bn \<in> set held \<Longrightarrow> bnPool_Put (Some p) bn = Some p' \<Longrightarrow> pool_run p' fresh (remove1 bn held)"

definition pool_inv :: "bnPool \<Rightarrow> nat \<Rightarrow> nat list \<Rightarrow> bool" where
  "pool_inv p fresh held \<longleftrightarrow>
     distinct (held @ bns p) \<and> (\<forall>bn \<in> set held \<union> set (bns p). bn < fresh) \<and> pool_count p = int (length held)"

lemma pool_run_inv: "pool_run p fresh held \<Longrightarrow> pool_inv p fresh held"
proof (induction rule: pool_run.induct)
  case (pool_get p fresh held bn p' fresh')
  then have inv: "pool_inv p fresh held" by simp
  show ?case
  proof (cases "bns p" rule: rev_cases)
    case Nil
    with pool_get(2) inv show ?thesis by (auto simp: bnPool_Get_def pool_inv_def Let_def)
  next
    case (snoc ys y)
    with pool_get(2) inv show ?thesis by (auto simp: bnPool_Get_def pool_inv_def Let_def)
  qed
next
  case (pool_put p fresh held bn p')
  then have "0 < length held" by (cases held) auto
  with pool_put show ?case
    by (auto simp: pool_inv_def bnPool_Put_def length_remove1 of_nat_diff Suc_le_eq dest: notin_set_remove1)
qed (simp add: pool_inv_def)

section \<open>Encodings\<close>

lemma pad_Bytes:
  assumes "0 \<le> x" "x < 2 ^ 256"
  shows "replicate (32 - length (big_Bytes x)) 0 @ big_Bytes x = be_bytes 32 x" and "length (big_Bytes x) \<le> 32"
proof -
  show len: "length (big_Bytes x) \<le> 32" using assms by (simp add: Bytes_length_le_iff)
  have "big_SetBytes (replicate (32 - length (big_Bytes x)) 0 @ big_Bytes x) = big_SetBytes (be_bytes 32 x)"
    using assms by (simp add: SetBytes_append SetBytes_be_bytes)
  with len show "replicate (32 - length (big_Bytes x)) 0 @ big_Bytes x = be_bytes 32 x"
    by (intro SetBytes_inj) simp_all
qed

text \<open>One \<open>copy\<close> of \<open>Marshal\<close> writes one number into its 32 bytes.\<close>

lemma write_number:
  assumes "0 \<le> x" "x < 2 ^ 256" and "length A = 32 * k" "j = Suc k * 32"
  shows "go_copy (A @ replicate 32 0 @ Z) (j - length (big_Bytes x)) (big_Bytes x) = A @ be_bytes 32 x @ Z"
proof -
  let ?l = "length (big_Bytes x)"
  have "replicate 32 (0::byte) = replicate (32 - ?l) 0 @ replicate ?l 0"
    using pad_Bytes(2) [OF assms(1,2)] by (simp flip: replicate_add)
  then have "go_copy (A @ replicate 32 0 @ Z) (j - ?l) (big_Bytes x)
      = go_copy ((A @ replicate (32 - ?l) 0) @ replicate ?l 0 @ Z) (j - ?l) (big_Bytes x)" by simp
  also have "\<dots> = (A @ replicate (32 - ?l) 0) @ big_Bytes x @ Z"
    using pad_Bytes(2) [OF assms(1,2)] assms(3,4) by (intro go_copy_middle) simp_all
  also have "\<dots> = A @ be_bytes 32 x @ Z" by (simp add: pad_Bytes(1) [OF assms(1,2), symmetric])
  finally show ?thesis .
qed

definition fits256 :: "int \<Rightarrow> bool" where
  "fits256 x \<longleftrightarrow> 0 \<le> x \<and> x < 2 ^ 256"

lemma fits256_mod_P [simp]: "fits256 (x mod P)"
proof -
  have "x mod P < P" by (simp add: P_def)
  also have "P < 2 ^ 256" by (simp add: P_def)
  finally show ?thesis by (simp add: fits256_def P_def)
qed

lemma fits256_reduced2: "reduced2 e \<Longrightarrow> fits256 (gfP2_x e) \<and> fits256 (gfP2_y e)"
  by (auto simp: reduced2_def fits256_def P_def)

definition encode :: "int list \<Rightarrow> byte list" where
  "encode xs = concat (map (be_bytes 32) xs)"

lemma length_encode [simp]: "length (encode xs) = 32 * length xs"
  by (induction xs) (simp_all add: encode_def)

text \<open>The numbers so far, and the zeros that are still to be overwritten.\<close>

lemma encode_step:
  assumes "fits256 x" "off = Suc (length xs) * 32" "32 \<le> n"
  shows "go_copy (encode xs @ replicate n 0) (off - length (big_Bytes x)) (big_Bytes x)
    = encode (xs @ [x]) @ replicate (n - 32) 0"
proof -
  have "replicate n (0::byte) = replicate 32 0 @ replicate (n - 32) 0"
    using assms(3) by (simp flip: replicate_add)
  then have "go_copy (encode xs @ replicate n 0) (off - length (big_Bytes x)) (big_Bytes x)
      = encode xs @ be_bytes 32 x @ replicate (n - 32) 0"
    by (simp only: write_number [OF assms(1) [unfolded fits256_def, THEN conjunct1] assms(1) [unfolded fits256_def, THEN conjunct2]
          length_encode assms(2)])
  then show ?thesis by (simp add: encode_def)
qed

lemma encode_start:
  "replicate (32 * 2) (0::byte) = encode [] @ replicate 64 0"
  "replicate (32 * 4) (0::byte) = encode [] @ replicate 128 0"
  "replicate (32 * 12) (0::byte) = encode [] @ replicate 384 0"
  by (simp_all add: encode_def)

lemma subslice_encode:
  assumes "i < length xs"
  shows "subslice (encode xs) (i * 32) (Suc i * 32) = be_bytes 32 (xs ! i)"
  using assms
proof (induction xs arbitrary: i)
  case (Cons x xs)
  show ?case
  proof (cases i)
    case (Suc j)
    then show ?thesis using Cons by (simp add: encode_def subslice_def)
  qed (simp add: encode_def subslice_def)
qed simp

lemma decode_encode:
  "i < length xs \<Longrightarrow> j = Suc i * 32 \<Longrightarrow> big_SetBytes (subslice (encode xs) (i * 32) j) = xs ! i mod 2 ^ 256"
  by (simp only: subslice_encode SetBytes_be_bytes) simp

lemma G1_Marshal_eq:
  assumes "G1_p n = Some p" "p' = curvePoint_MakeAffine p"
  shows "G1_Marshal n = Ok (encode [cp_x p' mod P, cp_y p' mod P], \<lparr>G1_p = Some p'\<rparr>)"
  unfolding G1_Marshal_def assms(1) Let_def option.case assms(2) [symmetric] big_Mod_pos [OF P_pos(1)]
    encode_start
  by (simp add: encode_step)

lemma G2_Marshal_eq:
  assumes "G2_p n = Some p" "p' = twistPoint_MakeAffine p"
  shows "G2_Marshal n = Ok (encode [gfP2_x (tp_x p') mod P, gfP2_y (tp_x p') mod P,
    gfP2_x (tp_y p') mod P, gfP2_y (tp_y p') mod P], \<lparr>G2_p = Some p'\<rparr>)"
  unfolding G2_Marshal_def assms(1) Let_def option.case assms(2) [symmetric] big_Mod_pos [OF P_pos(1)]
    encode_start
  by (simp add: encode_step)

lemma GT_Marshal_eq:
  assumes "GT_p n = Some p" "p' = gfP12_Minimal p" "x = gfP12_x p'" "y = gfP12_y p'"
  shows "GT_Marshal n = Ok (encode [gfP2_x (gfP6_x x), gfP2_y (gfP6_x x), gfP2_x (gfP6_y x), gfP2_y (gfP6_y x),
    gfP2_x (gfP6_z x), gfP2_y (gfP6_z x), gfP2_x (gfP6_x y), gfP2_y (gfP6_x y), gfP2_x (gfP6_y y), gfP2_y (gfP6_y y),
    gfP2_x (gfP6_z y), gfP2_y (gfP6_z y)], \<lparr>GT_p = Some p'\<rparr>)"
proof -
  have r: "reduced2 (gfP6_x x)" "reduced2 (gfP6_y x)" "reduced2 (gfP6_z x)"
    "reduced2 (gfP6_x y)" "reduced2 (gfP6_y y)" "reduced2 (gfP6_z y)"
    by (simp_all add: assms gfP12_Minimal_def gfP6_Minimal_def)
  show ?thesis
    unfolding GT_Marshal_def assms(1) Let_def option.case assms(2) [symmetric] assms(3,4) [symmetric]
      encode_start
    by (simp add: encode_step r [THEN fits256_reduced2])
qed

lemma G1_Unmarshal_fits:
  assumes "fits256 x" "fits256 y"
  shows "G1_Unmarshal e (encode [x, y]) =
    (let p = \<lparr>cp_x = x, cp_y = y, cp_z = 1, cp_t = 1\<rparr>
     in if x = 0 \<and> y = 0 then (\<lparr>G1_p = Some \<lparr>cp_x = 0, cp_y = 1, cp_z = 0, cp_t = 0\<rparr>\<rparr>, True)
        else (\<lparr>G1_p = Some p\<rparr>, curvePoint_IsOnCurve p))"
proof -
  have xy: "x mod 2 ^ 256 = x" "y mod 2 ^ 256 = y" using assms by (simp_all add: fits256_def)
  have parts: "big_SetBytes (subslice (encode [x, y]) (0 * 32) (1 * 32)) = x"
    "big_SetBytes (subslice (encode [x, y]) (1 * 32) (2 * 32)) = y"
    using decode_encode [of 0 "[x, y]" "1 * 32"] decode_encode [of 1 "[x, y]" "2 * 32"] xy by simp_all
  show ?thesis unfolding G1_Unmarshal_def Let_def parts by (cases "G1_receiver e") simp
qed

lemma fits256_P: "0 \<le> x \<Longrightarrow> x < P \<Longrightarrow> fits256 x"
  by (simp add: fits256_def P_def)

lemmas G1_Unmarshal_encode = G1_Unmarshal_fits [OF fits256_P fits256_P]

lemma G2_Unmarshal_fits:
  assumes "fits256 (gfP2_x x) \<and> fits256 (gfP2_y x)" "fits256 (gfP2_x y) \<and> fits256 (gfP2_y y)"
  shows "G2_Unmarshal e (encode [gfP2_x x, gfP2_y x, gfP2_x y, gfP2_y y]) =
    (let p = \<lparr>tp_x = x, tp_y = y, tp_z = gfP2_SetOne, tp_t = gfP2_SetOne\<rparr>
     in if x = gfP2_SetZero \<and> y = gfP2_SetZero
        then (\<lparr>G2_p = Some \<lparr>tp_x = x, tp_y = gfP2_SetOne, tp_z = gfP2_SetZero, tp_t = gfP2_SetZero\<rparr>\<rparr>, True)
        else (\<lparr>G2_p = Some p\<rparr>, twistPoint_IsOnCurve p))"
proof -
  let ?l = "[gfP2_x x, gfP2_y x, gfP2_x y, gfP2_y y]"
  have xy: "gfP2_x x mod 2 ^ 256 = gfP2_x x" "gfP2_y x mod 2 ^ 256 = gfP2_y x"
    "gfP2_x y mod 2 ^ 256 = gfP2_x y" "gfP2_y y mod 2 ^ 256 = gfP2_y y"
    using assms by (simp_all add: fits256_def)
  have parts: "big_SetBytes (subslice (encode ?l) (0 * 32) (1 * 32)) = gfP2_x x"
    "big_SetBytes (subslice (encode ?l) (1 * 32) (2 * 32)) = gfP2_y x"
    "big_SetBytes (subslice (encode ?l) (2 * 32) (3 * 32)) = gfP2_x y"
    "big_SetBytes (subslice (encode ?l) (3 * 32) (4 * 32)) = gfP2_y y"
    using decode_encode [of 0 ?l "1 * 32"] decode_encode [of 1 ?l "2 * 32"] decode_encode [of 2 ?l "3 * 32"]
      decode_encode [of 3 ?l "4 * 32"] xy by simp_all
  have zero: "z = gfP2_SetZero \<longleftrightarrow> gfP2_x z = 0 \<and> gfP2_y z = 0" for z
    by (cases z) (simp add: gfP2_SetZero_def)
  show ?thesis unfolding G2_Unmarshal_def Let_def parts zero by (cases "G2_receiver e", cases x, cases y) simp
qed

lemmas G2_Unmarshal_encode = G2_Unmarshal_fits [OF fits256_reduced2 fits256_reduced2]

lemma GT_Unmarshal_encode:
  assumes "reduced2 a" "reduced2 b" "reduced2 c" "reduced2 d" "reduced2 f" "reduced2 g"
  shows "GT_Unmarshal e (encode [gfP2_x a, gfP2_y a, gfP2_x b, gfP2_y b, gfP2_x c, gfP2_y c,
      gfP2_x d, gfP2_y d, gfP2_x f, gfP2_y f, gfP2_x g, gfP2_y g])
    = (\<lparr>GT_p = Some \<lparr>gfP12_x = \<lparr>gfP6_x = a, gfP6_y = b, gfP6_z = c\<rparr>, gfP12_y = \<lparr>gfP6_x = d, gfP6_y = f, gfP6_z = g\<rparr>\<rparr>\<rparr>, True)"
    (is "GT_Unmarshal e (encode ?l) = _")
proof -
  have m: "x mod 2 ^ 256 = x" if "fits256 x" for x using that by (simp add: fits256_def)
  have part: "big_SetBytes (subslice (encode ?l) (i * 32) ((i + 1) * 32)) = ?l ! i mod 2 ^ 256" if "i < 12" for i
    using that decode_encode [of i ?l "(i + 1) * 32"] by simp
  have rec: "\<lparr>gfP2_x = gfP2_x z, gfP2_y = gfP2_y z\<rparr> = z" for z :: gfP2 by (cases z) simp
  have "GT_Unmarshal e (encode ?l) =
    (let part = (\<lambda>i. ?l ! i mod 2 ^ 256)
     in (\<lparr>GT_p = Some
           \<lparr>gfP12_x = \<lparr>gfP6_x = \<lparr>gfP2_x = part 0, gfP2_y = part 1\<rparr>, gfP6_y = \<lparr>gfP2_x = part 2, gfP2_y = part 3\<rparr>,
                       gfP6_z = \<lparr>gfP2_x = part 4, gfP2_y = part 5\<rparr>\<rparr>,
            gfP12_y = \<lparr>gfP6_x = \<lparr>gfP2_x = part 6, gfP2_y = part 7\<rparr>, gfP6_y = \<lparr>gfP2_x = part 8, gfP2_y = part 9\<rparr>,
                       gfP6_z = \<lparr>gfP2_x = part 10, gfP2_y = part 11\<rparr>\<rparr>\<rparr>\<rparr>, True))"
    unfolding GT_Unmarshal_def Let_def by (simp only: part) simp
  also have "\<dots> = (\<lparr>GT_p = Some \<lparr>gfP12_x = \<lparr>gfP6_x = a, gfP6_y = b, gfP6_z = c\<rparr>,
      gfP12_y = \<lparr>gfP6_x = d, gfP6_y = f, gfP6_z = g\<rparr>\<rparr>\<rparr>, True)"
    using assms [THEN fits256_reduced2] by (simp add: Let_def m rec del: power_numeral)
  finally show ?thesis .
qed

section \<open>Properties\<close>

lemma fp_3_nonzero: "(3 :: fp) \<noteq> 0"
  using fp_eq_0_iff [of 3] by (simp add: P_def)

text \<open>C36: What \<open>Marshal\<close> writes for a point of the curve, \<open>Unmarshal\<close> reads back as the same point in affine
  form with reduced coordinates, and the point at infinity comes back as infinity.\<close>

theorem g1_roundtrip:
  assumes "G1_p g = Some p" "on_curve p" "cp_z p = 0 \<or> coprime (cp_z p) P \<and> cp_z p \<noteq> - 1"
  shows "\<exists>bs g' q. G1_Marshal g = Ok (bs, g') \<and> length bs = 64 \<and> G1_Unmarshal e bs = (\<lparr>G1_p = Some q\<rparr>, True) \<and>
    (if curvePoint_IsInfinity p then curvePoint_IsInfinity q
     else cp_z q = 1 \<and> cp_x q \<in> {0..<P} \<and> cp_y q \<in> {0..<P} \<and> jac_point (alpha1 p) (of_int (cp_x q)) (of_int (cp_y q)))"
proof -
  define p' where "p' = curvePoint_MakeAffine p"
  let ?x = "cp_x p' mod P" and ?y = "cp_y p' mod P"
  let ?q = "\<lparr>cp_x = ?x, cp_y = ?y, cp_z = 1, cp_t = 1\<rparr>"
  have m: "G1_Marshal g = Ok (encode [?x, ?y], \<lparr>G1_p = Some p'\<rparr>)" by (rule G1_Marshal_eq [OF assms(1) p'_def])
  have b: "0 \<le> ?x" "?x < P" "0 \<le> ?y" "?y < P" by (simp_all add: P_def)
  note u = G1_Unmarshal_encode [OF b, of e]
  show ?thesis
  proof (cases "cp_z p = 0")
    case True
    then have "?x = 0 \<and> ?y = 0" by (simp add: p'_def curvePoint_MakeAffine_def)
    then show ?thesis using m u True by (simp add: curvePoint_IsInfinity_def)
  next
    case False
    then have z: "coprime (cp_z p) P" "cp_z p \<noteq> - 1" using assms(3) by auto
    obtain w where w: "snd (snd (alpha1 p)) * w = 1" using z_unit [OF z(1)] by blast
    obtain X Y where XY: "jac_point (alpha1 p) X Y" using jac_point_exists [OF w] by blast
    have aff: "of_int (cp_x p') = X" "of_int (cp_y p') = Y" using MakeAffine_law [OF z XY] by (simp_all add: p'_def)
    have "jac_on 3 (X, Y, 1)" using jac_on_affine [OF _ XY w] assms(2) False by (simp add: on_curve_def curvePoint_IsInfinity_def)
    then have on: "on_curve ?q" and "\<not> (X = 0 \<and> Y = 0)"
      using fp_3_nonzero by (auto simp: on_curve_def alpha1_def jac_on_def aff)
    then have "\<not> (?x = 0 \<and> ?y = 0)" using aff by (metis of_int_mod_P of_int_0)
    then have "G1_Unmarshal e (encode [?x, ?y]) = (\<lparr>G1_p = Some ?q\<rparr>, True)"
      using u on IsOnCurve_iff [of ?q] by (simp add: Let_def)
    then show ?thesis
      using m XY False b by (simp add: curvePoint_IsInfinity_def aff)
  qed
qed

theorem g1_roundtrip_witness:
  "\<exists>bs g' q. G1_Marshal \<lparr>G1_p = Some curveGen\<rparr> = Ok (bs, g') \<and> length bs = 64 \<and>
    G1_Unmarshal \<lparr>G1_p = None\<rparr> bs = (\<lparr>G1_p = Some q\<rparr>, True) \<and>
    cp_z q = 1 \<and> cp_x q \<in> {0..<P} \<and> cp_y q \<in> {0..<P} \<and> jac_point (alpha1 curveGen) (of_int (cp_x q)) (of_int (cp_y q))"
  using g1_roundtrip [of "\<lparr>G1_p = Some curveGen\<rparr>" curveGen "\<lparr>G1_p = None\<rparr>"]
  by (simp add: on_curve_def jac_on_def alpha1_def curveGen_def curvePoint_IsInfinity_def)

text \<open>What \<open>Marshal\<close> writes for an element of the target group, \<open>Unmarshal\<close> reads back as its reduced
  form.\<close>

theorem gt_roundtrip:
  assumes "GT_p n = Some p"
  shows "\<exists>bs n'. GT_Marshal n = Ok (bs, n') \<and> length bs = 384 \<and>
    GT_Unmarshal e bs = (\<lparr>GT_p = Some (gfP12_Minimal p)\<rparr>, True) \<and> alpha12 (gfP12_Minimal p) = alpha12 p"
proof -
  let ?p = "gfP12_Minimal p"
  have r: "reduced2 (gfP6_x x)" "reduced2 (gfP6_y x)" "reduced2 (gfP6_z x)" if "x = gfP12_x ?p \<or> x = gfP12_y ?p" for x
    using that by (auto simp: gfP12_Minimal_def gfP6_Minimal_def)
  have "\<lparr>gfP12_x = \<lparr>gfP6_x = gfP6_x x, gfP6_y = gfP6_y x, gfP6_z = gfP6_z x\<rparr>,
      gfP12_y = \<lparr>gfP6_x = gfP6_x y, gfP6_y = gfP6_y y, gfP6_z = gfP6_z y\<rparr>\<rparr> = ?p"
    if "x = gfP12_x ?p" "y = gfP12_y ?p" for x y
    by (cases "gfP12_x ?p", cases "gfP12_y ?p", cases "?p") (simp add: that)
  then show ?thesis
    using GT_Marshal_eq [OF assms refl refl refl] by (simp add: GT_Unmarshal_encode r gofield)
qed

theorem gt_roundtrip_witness:
  "\<exists>bs n'. GT_Marshal \<lparr>GT_p = Some two_plus_omega\<rparr> = Ok (bs, n') \<and> length bs = 384 \<and>
    GT_Unmarshal \<lparr>GT_p = None\<rparr> bs = (\<lparr>GT_p = Some (gfP12_Minimal two_plus_omega)\<rparr>, True) \<and>
    alpha12 (gfP12_Minimal two_plus_omega) = alpha12 two_plus_omega"
  by (rule gt_roundtrip) simp

text \<open>C37: Whatever bytes \<open>Unmarshal\<close> accepts, the element it builds is on its curve, in affine form or
  infinity, and its kept coordinate \<open>t\<close> is right.\<close>

theorem unmarshal_on_curve:
  assumes "G1_Unmarshal e m = (e', True)" and "G2_Unmarshal f n = (f', True)"
  shows "(\<exists>p. G1_p e' = Some p \<and> on_curve p \<and> cp_z p \<in> {0, 1}) \<and>
    (\<exists>q. G2_p f' = Some q \<and> on_twist q \<and> t_valid q \<and> tp_z q \<in> {gfP2_SetZero, gfP2_SetOne})"
proof
  show "\<exists>p. G1_p e' = Some p \<and> on_curve p \<and> cp_z p \<in> {0, 1}"
    using assms(1) by (auto simp: G1_Unmarshal_def Let_def on_curve_def curvePoint_IsInfinity_def IsOnCurve_iff
        split: if_splits)
  show "\<exists>q. G2_p f' = Some q \<and> on_twist q \<and> t_valid q \<and> tp_z q \<in> {gfP2_SetZero, gfP2_SetOne}"
    using assms(2) IsZero_iff [of gfP2_SetZero] by (auto simp: G2_Unmarshal_def Let_def twist_IsOnCurve_iff gofield t_valid_def
        on_twist_def twistPoint_IsInfinity_def split: if_splits)
qed

theorem unmarshal_on_curve_witness:
  "(\<exists>p. G1_p (fst (G1_Unmarshal \<lparr>G1_p = None\<rparr> (encode [1, 2]))) = Some p \<and> on_curve p \<and> cp_z p \<in> {0, 1}) \<and>
   (\<exists>q. G2_p (fst (G2_Unmarshal \<lparr>G2_p = None\<rparr> (encode [0, 0, 0, 0]))) = Some q \<and> on_twist q \<and> t_valid q \<and>
      tp_z q \<in> {gfP2_SetZero, gfP2_SetOne})"
proof (rule unmarshal_on_curve)
  show "G1_Unmarshal \<lparr>G1_p = None\<rparr> (encode [1, 2]) = (fst (G1_Unmarshal \<lparr>G1_p = None\<rparr> (encode [1, 2])), True)"
    using G1_Unmarshal_encode [of 1 2 "\<lparr>G1_p = None\<rparr>"] by (simp add: P_def curvePoint_IsOnCurve_def)
  show "G2_Unmarshal \<lparr>G2_p = None\<rparr> (encode [0, 0, 0, 0]) = (fst (G2_Unmarshal \<lparr>G2_p = None\<rparr> (encode [0, 0, 0, 0])), True)"
    using G2_Unmarshal_encode [of gfP2_SetZero gfP2_SetZero "\<lparr>G2_p = None\<rparr>"] by (simp add: Let_def gfP2_SetZero_def reduced2_def P_def)
qed

text \<open>The pairs that contribute: both points finite.\<close>

definition finite_pairs :: "(curvePoint \<times> twistPoint) list \<Rightarrow> (curvePoint \<times> twistPoint) list" where
  "finite_pairs ps = filter (\<lambda>(p, q). \<not> curvePoint_IsInfinity p \<and> \<not> twistPoint_IsInfinity q) ps"

lemma pairing_loop_product:
  assumes "map G1_p as = map (Some \<circ> fst) ps" "map G2_p bs = map (Some \<circ> snd) ps"
  shows "\<exists>acc'. pairing_loop as bs acc = Ok acc' \<and>
    alpha12 acc' = alpha12 acc * (\<Prod>(p, q) \<leftarrow> finite_pairs ps. alpha12 (miller q p))"
  using assms
proof (induction ps arbitrary: as bs acc)
  case (Cons r ps)
  obtain a as' b bs' where as: "as = a # as'" "bs = b # bs'" using Cons.prems by (cases as; cases bs) auto
  obtain p q where r: "r = (p, q)" by (cases r)
  have ab: "G1_p a = Some p" "G2_p b = Some q" "map G1_p as' = map (Some \<circ> fst) ps" "map G2_p bs' = map (Some \<circ> snd) ps"
    using Cons.prems by (simp_all add: as r)
  show ?case
    using Cons.IH [OF ab(3,4), of acc] Cons.IH [OF ab(3,4), of "gfP12_Mul acc (miller q p)"]
    by (auto simp: as r ab(1,2) finite_pairs_def gofield mult.assoc)
qed (simp add: finite_pairs_def)

lemma IsOne12_iff: "gfP12_IsOne e \<longleftrightarrow> alpha12 e = 1"
proof -
  have "gfP12_IsOne e \<longleftrightarrow> alpha12 (gfP12_Minimal e) = 1"
    by (simp add: gfP12_IsOne_def Let_def gfP6_IsZero_def gfP6_IsOne_def IsZero_iff IsOne_iff gfP12_Minimal_def
        gfP6_Minimal_def alpha12_def alpha6_def one_fp12_def one_fp6_def zero_fp6_def)
  then show ?thesis by (simp add: gofield)
qed

text \<open>\<open>PairingCheck\<close> accepts exactly when the final exponentiation of the product of the Miller values is
  one; pairs with a point at infinity count as one. With fewer points in the second list than
  in the first it panics at the first finite point that has no partner.\<close>

theorem pairing_check_verdict:
  assumes "map G1_p as = map (Some \<circ> fst) ps" "map G2_p bs = map (Some \<circ> snd) ps"
  shows "\<exists>acc. alpha12 acc = (\<Prod>(p, q) \<leftarrow> finite_pairs ps. alpha12 (miller q p)) \<and>
    PairingCheck as bs = Ok (alpha12 (finalExponentiation acc) = 1) \<and>
    PairingCheck as (bs @ cs) = PairingCheck as bs \<and>
    PairingCheck (as @ [\<lparr>G1_p = Some curveGen\<rparr>]) bs = Panic"
proof -
  obtain acc where acc: "pairing_loop as bs gfP12_SetOne = Ok acc"
    "alpha12 acc = (\<Prod>(p, q) \<leftarrow> finite_pairs ps. alpha12 (miller q p))"
    using pairing_loop_product [OF assms, of gfP12_SetOne] by (auto simp: gofield)
  have more: "pairing_loop as (bs @ cs) c = pairing_loop as bs c \<and>
      pairing_loop (as @ [\<lparr>G1_p = Some curveGen\<rparr>]) bs c = Panic" for c
    using assms
  proof (induction ps arbitrary: as bs c)
    case (Cons r ps)
    then obtain a as' b bs' where "as = a # as'" "bs = b # bs'" by (cases as; cases bs) auto
    then show ?case using Cons by (auto split: option.splits)
  qed (simp add: curvePoint_IsInfinity_def curveGen_def)
  show ?thesis using acc by (auto simp: PairingCheck_def IsOne12_iff more)
qed

theorem pairing_check_verdict_witness:
  "\<exists>acc. alpha12 acc = alpha12 (miller twistGen curveGen) \<and>
    PairingCheck [\<lparr>G1_p = Some curveGen\<rparr>] [\<lparr>G2_p = Some twistGen\<rparr>] = Ok (alpha12 (finalExponentiation acc) = 1)"
  using pairing_check_verdict [of "[\<lparr>G1_p = Some curveGen\<rparr>]" "[(curveGen, twistGen)]" "[\<lparr>G2_p = Some twistGen\<rparr>]" "[]"]
  by (auto simp: finite_pairs_def curveGen_def twistGen_def curvePoint_IsInfinity_def twistPoint_IsInfinity_def
      gfP2_IsZero_def)

lemma rand_Int_loop_range: "rand_Int_loop k b m r = Ok (n, r') \<Longrightarrow> 0 \<le> n \<and> n < m"
proof (induction k b m r rule: rand_Int_loop.induct)
  case (1 k b m r)
  show ?case
    using "1.prems" "1.IH" by (subst (asm) rand_Int_loop.simps) (auto simp: rand_value_def Let_def split: outcome.splits if_splits)
qed

lemma rand_Int_loop_skip:
  assumes "length blk = Suc k"
  shows "rand_Int_loop k b m (blk @ rest) =
    (if rand_value b blk < m then Ok (rand_value b blk, rest) else rand_Int_loop k b m rest)"
  using assms by (subst rand_Int_loop.simps) (simp add: ReadFull_def)

lemma random_loop_skip:
  assumes "length blk = 32"
  shows "random_loop (blk @ rest) =
    (if 0 < rand_value 6 blk \<and> rand_value 6 blk < Order then Ok (rand_value 6 blk, rest) else random_loop rest)"
proof -
  have "0 \<le> rand_value 6 blk" by (simp add: rand_value_def)
  moreover have "random_loop (blk @ rest) =
    (if rand_value 6 blk < Order then if 0 < rand_value 6 blk then Ok (rand_value 6 blk, rest) else random_loop rest
     else random_loop rest)"
    using assms by (subst (1 3) random_loop.simps) (simp add: rand_Int_Order rand_Int_loop_skip)
  ultimately show ?thesis by simp
qed

text \<open>C38: As long as the reader delivers a block of 32 bytes whose low 254 bits are a number between 0 and
  \<open>Order\<close>, exclusive, \<open>RandomG1\<close> and \<open>RandomG2\<close> return, whatever blocks come before it, with a scalar in that
  range and its multiple of the generator, a point of the curve.\<close>

theorem random_point_returns:
  assumes "\<forall>b \<in> set pre. length b = 32" "length blk = 32" "0 < rand_value 6 blk" "rand_value 6 blk < Order"
  shows "\<exists>k r'. 0 < k \<and> k < Order \<and>
    RandomG1 (concat pre @ blk @ rest) = Ok (k, \<lparr>G1_p = Some (curvePoint_Mul curveGen k)\<rparr>, r') \<and>
    RandomG2 (concat pre @ blk @ rest) = Ok (k, \<lparr>G2_p = Some (twistPoint_Mul twistGen k)\<rparr>, r') \<and>
    on_curve (curvePoint_Mul curveGen k) \<and> on_twist (twistPoint_Mul twistGen k)"
proof -
  have "\<exists>k r'. 0 < k \<and> k < Order \<and> random_loop (concat pre @ blk @ rest) = Ok (k, r')"
    using assms by (induction pre) (auto simp: random_loop_skip)
  moreover have "on_curve curveGen" by (simp add: on_curve_def jac_on_def alpha1_def curveGen_def)
  ultimately show ?thesis
    using twistGen_on_twist
    by (auto simp: RandomG1_def RandomG2_def G1_ScalarBaseMult_def G2_ScalarBaseMult_def on_curve_Mul on_twist_Mul)
qed

theorem random_point_returns_witness:
  "\<exists>k r'. 0 < k \<and> k < Order \<and>
    RandomG1 (concat [replicate 32 255, replicate 32 0] @ (replicate 31 0 @ [5]) @ []) = Ok (k, \<lparr>G1_p = Some (curvePoint_Mul curveGen k)\<rparr>, r') \<and>
    RandomG2 (concat [replicate 32 255, replicate 32 0] @ (replicate 31 0 @ [5]) @ []) = Ok (k, \<lparr>G2_p = Some (twistPoint_Mul twistGen k)\<rparr>, r') \<and>
    on_curve (curvePoint_Mul curveGen k) \<and> on_twist (twistPoint_Mul twistGen k)"
  by (rule random_point_returns) (simp_all, code_simp+)

text \<open>C39: Every client that puts back only what it took never gets an object twice: the objects it holds
  and those in the pool are all different, and \<open>Count\<close> is the number it holds, so it is 0 when all have
  been put back.\<close>

theorem pool_discipline:
  assumes "pool_run p fresh held"
  shows "distinct (held @ bns p) \<and> bnPool_Count p = int (length held) \<and>
    (\<forall>bn p' fresh'. bnPool_Get (Some p) fresh = (bn, p', fresh') \<longrightarrow> bn \<notin> set held)"
proof -
  have inv: "pool_inv p fresh held" by (rule pool_run_inv [OF assms])
  then show ?thesis
    by (cases "bns p" rule: rev_cases) (auto simp: pool_inv_def bnPool_Count_def bnPool_Get_def Let_def)
qed

theorem pool_discipline_witness:
  "distinct ([7 :: nat] @ [8]) \<and> bnPool_Count \<lparr>bns = [8], pool_count = 1\<rparr> = int (length [7::nat]) \<and>
    fst (bnPool_Get (Some \<lparr>bns = [8], pool_count = 1\<rparr>) 9) \<notin> set [7]"
proof -
  have 1: "pool_run \<lparr>bns = [], pool_count = 0\<rparr> 7 []" by (rule pool_new)
  have 2: "pool_run \<lparr>bns = [], pool_count = 1\<rparr> 8 [7]"
    by (rule pool_get [OF 1]) (simp add: bnPool_Get_def Let_def)
  have 3: "pool_run \<lparr>bns = [], pool_count = 2\<rparr> 9 [8, 7]"
    by (rule pool_get [OF 2]) (simp add: bnPool_Get_def Let_def)
  have "pool_run \<lparr>bns = [8], pool_count = 1\<rparr> 9 (remove1 8 [8, 7])"
    by (rule pool_put [OF 3]) (simp_all add: bnPool_Put_def)
  then have "pool_run \<lparr>bns = [8], pool_count = 1\<rparr> 9 [7]" by simp
  from pool_discipline [OF this] show ?thesis by (simp add: bnPool_Get_def Let_def)
qed

end
