(* ===== verification/GoCommon.thy ===== *)
theory GoCommon
  imports GoBig
begin

text \<open>
  The packages \<open>common\<close> and \<open>common/math\<close> and the helpers of \<open>core/vm/common.go\<close>, as far as the
  virtual machine uses them: padding of byte slices, arithmetic on 256-bit numbers, 64-bit arithmetic
  with overflow flags, and the access to input data. Addresses and hashes, arrays of 20 and 32 bytes, are words of 160
  and 256 bits. The length of a slice is a Go \<open>int\<close>, so it is below \<open>2\<^sup>6\<^sup>3\<close>.
\<close>

type_synonym uint64 = "64 word"
type_synonym address = "160 word"
type_synonym hash = "256 word"

definition max_uint64 :: uint64 where
  "max_uint64 = - 1"

section \<open>\<open>common/bytes.go\<close> and \<open>common/types.go\<close>\<close>

definition RightPadBytes :: "byte list \<Rightarrow> int \<Rightarrow> byte list" where
  "RightPadBytes sl l =
     (if l \<le> int (length sl) then sl
      else let padded = replicate (nat l) 0 in go_copy padded 0 sl)"

definition LeftPadBytes :: "byte list \<Rightarrow> int \<Rightarrow> byte list" where
  "LeftPadBytes sl l =
     (if l \<le> int (length sl) then sl
      else let padded = replicate (nat l) 0 in go_copy padded (nat l - length sl) sl)"

definition BigToAddress :: "int \<Rightarrow> address" where
  "BigToAddress b = word_of_int \<bar>b\<bar>"

definition BytesToAddress :: "byte list \<Rightarrow> address" where
  "BytesToAddress b = word_of_int (big_SetBytes b)"

definition BigToHash :: "int \<Rightarrow> hash" where
  "BigToHash b = word_of_int \<bar>b\<bar>"

definition EmptyHash :: "hash \<Rightarrow> bool" where
  "EmptyHash h \<longleftrightarrow> h = 0"

section \<open>\<open>common/math\<close>\<close>

definition SafeSub :: "uint64 \<Rightarrow> uint64 \<Rightarrow> uint64 \<times> bool" where
  "SafeSub x y = (x - y, x < y)"

definition SafeAdd :: "uint64 \<Rightarrow> uint64 \<Rightarrow> uint64 \<times> bool" where
  "SafeAdd x y = (x + y, y > max_uint64 - x)"

definition SafeMul :: "uint64 \<Rightarrow> uint64 \<Rightarrow> uint64 \<times> bool" where
  "SafeMul x y = (if x = 0 \<or> y = 0 then (0, False) else (x * y, y > max_uint64 div x))"

definition BigMax :: "int \<Rightarrow> int \<Rightarrow> int" where
  "BigMax x y = (if x < y then y else x)"

definition BigMin :: "int \<Rightarrow> int \<Rightarrow> int" where
  "BigMin x y = (if x > y then y else x)"

definition tt255 :: int where
  "tt255 = 2 ^ 255"

definition tt256 :: int where
  "tt256 = 2 ^ 256"

definition tt256m1 :: int where
  "tt256m1 = tt256 - 1"

definition U256 :: "int \<Rightarrow> int" where
  "U256 x = x AND tt256m1"

definition S256 :: "int \<Rightarrow> int" where
  "S256 x = (if x < tt255 then x else x - tt256)"

text \<open>The words of the absolute value, least significant first, as \<open>Bits\<close> returns them.\<close>

function nat_words :: "nat \<Rightarrow> uint64 list" where
  "nat_words n = (if n = 0 then [] else of_nat n # nat_words (n div 2 ^ 64))"
  by pat_completeness auto
termination
  by (relation "measure id") (auto intro: div_less_dividend)

declare nat_words.simps [simp del]

definition big_Bits :: "int \<Rightarrow> uint64 list" where
  "big_Bits x = nat_words (nat \<bar>x\<bar>)"

text \<open>The two loops of \<open>Exp\<close>, with the base that they square in place.\<close>

fun exp_word :: "nat \<Rightarrow> uint64 \<Rightarrow> int \<Rightarrow> int \<Rightarrow> int \<times> int" where
  "exp_word 0 w result base = (result, base)"
| "exp_word (Suc i) w result base =
     (let result = (if w AND 1 = 1 then U256 (result * base) else result);
          base = U256 (base * base)
      in exp_word i (drop_bit 1 w) result base)"

fun exp_words :: "uint64 list \<Rightarrow> int \<Rightarrow> int \<Rightarrow> int \<times> int" where
  "exp_words [] result base = (result, base)"
| "exp_words (w # ws) result base =
     (let (result, base) = exp_word 64 w result base in exp_words ws result base)"

text \<open>The result, and what \<open>base\<close> is afterwards.\<close>

definition math_Exp :: "int \<Rightarrow> int \<Rightarrow> int \<times> int" where
  "math_Exp base exponent = exp_words (big_Bits exponent) 1 base"

definition bigEndianByteAt :: "int \<Rightarrow> nat \<Rightarrow> byte" where
  "bigEndianByteAt bigint n =
     (let words = big_Bits bigint;
          i = n div 8
      in if i \<ge> length words then 0
         else ucast (drop_bit (8 * (n mod 8)) (words ! i)))"

definition math_Byte :: "int \<Rightarrow> nat \<Rightarrow> nat \<Rightarrow> byte" where
  "math_Byte bigint padlength n = (if n \<ge> padlength then 0 else bigEndianByteAt bigint (padlength - 1 - n))"

text \<open>\<open>ReadBits\<close> writes the bytes of the absolute value from the end of the buffer.\<close>

fun read_word :: "nat \<Rightarrow> uint64 \<Rightarrow> nat \<Rightarrow> byte list \<Rightarrow> nat \<times> byte list" where
  "read_word 0 d i buf = (i, buf)"
| "read_word (Suc j) d i buf =
     (if i = 0 then (i, buf) else read_word j (drop_bit 8 d) (i - 1) (buf[i - 1 := ucast d]))"

fun read_words :: "uint64 list \<Rightarrow> nat \<Rightarrow> byte list \<Rightarrow> byte list" where
  "read_words [] i buf = buf"
| "read_words (d # ds) i buf = (let (i, buf) = read_word 8 d i buf in read_words ds i buf)"

definition ReadBits :: "int \<Rightarrow> byte list \<Rightarrow> byte list" where
  "ReadBits bigint buf = read_words (big_Bits bigint) (length buf) buf"

definition PaddedBigBytes :: "int \<Rightarrow> nat \<Rightarrow> byte list" where
  "PaddedBigBytes bigint n =
     (if big_BitLen bigint div 8 \<ge> n then big_Bytes bigint
      else ReadBits bigint (replicate n 0))"

section \<open>\<open>core/vm/common.go\<close>\<close>

definition calcMemSize :: "int \<Rightarrow> int \<Rightarrow> int" where
  "calcMemSize off l = (if l = 0 then 0 else off + l)"

definition getData :: "byte list \<Rightarrow> uint64 \<Rightarrow> uint64 \<Rightarrow> (unit, byte list) outcome" where
  "getData data start sz =
     (let len = of_nat (length data);
          start = (if start > len then len else start);
          end' = start + sz;
          end' = (if end' > len then len else end')
      in if end' < start then Panic
         else Ok (RightPadBytes (subslice data (unat start) (unat end')) (sint sz)))"

definition getDataBig :: "byte list \<Rightarrow> int \<Rightarrow> int \<Rightarrow> (unit, byte list) outcome" where
  "getDataBig data start sz =
     (let dlen = int (length data);
          s = BigMin start dlen;
          e = BigMin (s + sz) dlen;
          i = big_Uint64 s;
          j = big_Uint64 e
      in if i \<le> j \<and> unat j \<le> length data
         then Ok (RightPadBytes (subslice data (unat i) (unat j)) (sint (big_Uint64 sz)))
         else Panic)"

definition bigUint64 :: "int \<Rightarrow> uint64 \<times> bool" where
  "bigUint64 v = (big_Uint64 v, big_BitLen v > 64)"

definition toWordSize :: "uint64 \<Rightarrow> uint64" where
  "toWordSize sz = (if sz > max_uint64 - 31 then max_uint64 div 32 + 1 else (sz + 31) div 32)"

definition allZero :: "byte list \<Rightarrow> bool" where
  "allZero b = list_all (\<lambda>x. x = 0) b"

section \<open>Padding\<close>

lemma RightPadBytes_eq: "RightPadBytes sl l = sl @ replicate (nat l - length sl) 0"
  by (auto simp: RightPadBytes_def go_copy_def Let_def)

lemma LeftPadBytes_eq: "LeftPadBytes sl l = replicate (nat l - length sl) 0 @ sl"
  by (auto simp: LeftPadBytes_def go_copy_def Let_def)

lemma SetBytes_LeftPadBytes [simp]: "big_SetBytes (LeftPadBytes sl l) = big_SetBytes sl"
  by (simp add: LeftPadBytes_eq SetBytes_append)

section \<open>256-bit numbers\<close>

lemma U256_mod: "U256 x = x mod 2 ^ 256"
proof -
  have m: "tt256m1 = mask 256" by (simp only: tt256m1_def tt256_def mask_eq_exp_minus_1)
  show ?thesis unfolding U256_def m take_bit_eq_mask [symmetric] take_bit_eq_mod ..
qed

definition u256 :: "int \<Rightarrow> bool" where
  "u256 x \<longleftrightarrow> 0 \<le> x \<and> x < 2 ^ 256"

lemma u256_U256 [simp]: "u256 (U256 x)"
  by (simp add: u256_def U256_mod del: power_numeral)

lemma U256_id: "u256 x \<Longrightarrow> U256 x = x"
  by (simp add: u256_def U256_mod del: power_numeral)

lemma S256_range:
  assumes "u256 x"
  shows "- (2 ^ 255) \<le> S256 x \<and> S256 x < 2 ^ 255 \<and> U256 (S256 x) = x"
proof -
  have "(x - 2 ^ 256) mod 2 ^ 256 = x mod 2 ^ 256" by (rule minus_mod_self2)
  then have "U256 (S256 x) = U256 x" by (simp only: U256_mod S256_def tt256_def split: if_split) simp
  then show ?thesis
    using assms U256_id [OF assms] by (auto simp: S256_def tt255_def tt256_def u256_def)
qed

section \<open>Words of a number\<close>

lemma nat_words_0 [simp]: "nat_words 0 = []"
  by (simp add: nat_words.simps)

lemma nat_words_unfold: "nat_words n = (if n = 0 then [] else of_nat n # nat_words (n div 2 ^ 64))"
  by (simp add: nat_words.simps)

lemma unat_of_nat64: "unat (of_nat n :: uint64) = n mod 2 ^ 64"
  by (simp add: unat_of_nat)

lemma nat_words_nth: "i < length (nat_words n) \<Longrightarrow> unat (nat_words n ! i) = n div 2 ^ (64 * i) mod 2 ^ 64"
proof (induction n arbitrary: i rule: nat_words.induct)
  case (1 n)
  have n: "n \<noteq> 0" using "1.prems" by (cases "n = 0") simp_all
  show ?case
  proof (cases i)
    case 0
    then show ?thesis using n by (simp add: nat_words_unfold [of n] unat_of_nat64 del: power_numeral of_nat_numeral)
  next
    case (Suc j)
    then have "j < length (nat_words (n div 2 ^ 64))" using "1.prems" n by (simp add: nat_words_unfold [of n])
    from "1.IH" [OF n this] show ?thesis
      using n Suc by (simp add: nat_words_unfold [of n] div_mult2_eq [symmetric] power_add [symmetric] del: power_numeral)
  qed
qed

lemma nat_words_high: "length (nat_words n) \<le> i \<Longrightarrow> n div 2 ^ (64 * i) = 0"
proof (induction n arbitrary: i rule: nat_words.induct)
  case (1 n)
  show ?case
  proof (cases "n = 0")
    case False
    then obtain j where i: "i = Suc j" using "1.prems" by (cases i) (auto simp: nat_words_unfold)
    then have "n div 2 ^ 64 div 2 ^ (64 * j) = 0"
      using "1.IH" [OF False, of j] "1.prems" False by (simp add: nat_words_unfold [of n] del: power_numeral)
    then show ?thesis unfolding i by (simp add: div_mult2_eq [symmetric] power_add [symmetric] del: power_numeral)
  qed simp
qed

section \<open>Exponentiation\<close>

text \<open>One word of the exponent, read from its lowest bit, multiplies the power it stands for.\<close>

lemma U256_mult: "U256 (U256 a * b) = U256 (a * b)" "U256 (a * U256 b) = U256 (a * b)"
  by (simp_all only: U256_mod mod_mult_left_eq mod_mult_right_eq)

lemma U256_power: "U256 (U256 a ^ n) = U256 (a ^ n)"
  by (simp only: U256_mod power_mod)

lemma even_unat: "even (unat w) \<longleftrightarrow> even (w :: 'a::len word)"
proof -
  have "bit (unat w) 0 \<longleftrightarrow> bit w 0" by (simp only: bit_unsigned_iff) simp
  then show ?thesis by (simp add: bit_0)
qed

lemma exp_word_power:
  "exp_word i w result base = (r, b) \<Longrightarrow>
    U256 r = U256 (result * base ^ (unat w mod 2 ^ i)) \<and> U256 b = U256 (base ^ 2 ^ i) \<and>
    (u256 result \<longrightarrow> u256 r) \<and> (0 < i \<or> u256 base \<longrightarrow> u256 b)"
proof (induction i arbitrary: w result base)
  case (Suc i)
  define w' res' where "w' = drop_bit 1 w" and "res' = (if w AND 1 = 1 then U256 (result * base) else result)"
  have run: "exp_word i w' res' (U256 (base * base)) = (r, b)"
    using Suc.prems by (simp add: Let_def w'_def res'_def)
  have w': "unat w' = unat w div 2" by (simp add: w'_def unat_drop_bit_eq del: drop_bit_Suc) (simp add: drop_bit_Suc)
  have odd: "w AND 1 = 1 \<longleftrightarrow> odd (unat w)"
    by (simp add: and_one_eq odd_iff_mod_2_eq_one [symmetric] even_unat)
  have split: "unat w mod 2 ^ Suc i = 2 * (unat w' mod 2 ^ i) + (if odd (unat w) then 1 else 0)"
    using mod_mult2_eq [of "unat w" 2 "2 ^ i"] by (simp add: w' mod2_eq_if)
  have b2: "U256 (x * U256 (base * base) ^ n) = U256 (x * base ^ (2 * n))" for x n
  proof -
    have "U256 (x * U256 (base * base) ^ n) = U256 (x * U256 (U256 (base * base) ^ n))" by (simp only: U256_mult)
    also have "\<dots> = U256 (x * (base * base) ^ n)" by (simp only: U256_power U256_mult)
    finally show ?thesis by (simp add: power_mult power2_eq_square)
  qed
  have res: "U256 (res' * y) = U256 (result * (if odd (unat w) then base else 1) * y)" for y
    by (simp add: res'_def odd U256_mult)
  note IH = Suc.IH [OF run]
  have "U256 r = U256 (result * base ^ (unat w mod 2 ^ Suc i))"
    using IH unfolding split b2 res by (simp add: power_add ac_simps)
  moreover have "U256 b = U256 (base ^ 2 ^ Suc i)" using IH b2 [of 1 "2 ^ i"] by simp
  moreover have "u256 result \<longrightarrow> u256 res'" by (simp add: res'_def)
  ultimately show ?case using IH by auto
qed simp

lemma exp_words_power:
  "exp_words (nat_words n) result base = (r, b) \<Longrightarrow>
    U256 r = U256 (result * base ^ n) \<and> U256 b = U256 (base ^ 2 ^ (64 * length (nat_words n))) \<and>
    (u256 result \<longrightarrow> u256 r) \<and> (n \<noteq> 0 \<longrightarrow> u256 b)"
proof (induction n arbitrary: result base rule: nat_words.induct)
  case (1 n)
  show ?case
  proof (cases "n = 0")
    case False
    obtain r1 b1 where step: "exp_word 64 (of_nat n) result base = (r1, b1)" by (cases "exp_word 64 (of_nat n) result base")
    define m where "m = n div 2 ^ 64"
    have words: "nat_words n = of_nat n # nat_words m" using False by (simp add: nat_words_unfold [of n] m_def del: power_numeral)
    have run: "exp_words (nat_words m) r1 b1 = (r, b)" using "1.prems" unfolding words by (simp add: step)
    note S = exp_word_power [OF step] and IH = "1.IH" [OF False, folded m_def, OF run]
    have n: "unat (of_nat n :: uint64) mod 2 ^ 64 + 2 ^ 64 * m = n"
      unfolding m_def unat_of_nat64 mod_mod_trivial by (rule mod_mult_div_eq)
    have "U256 r = U256 (r1 * b1 ^ m)" using IH by simp
    also have "\<dots> = U256 (U256 r1 * U256 (U256 b1 ^ m))" by (simp only: U256_mult U256_power)
    also have "\<dots> = U256 (result * base ^ (unat (of_nat n :: uint64) mod 2 ^ 64) * (base ^ 2 ^ 64) ^ m)"
      using S by (simp only: U256_mult U256_power)
    also have "\<dots> = U256 (result * base ^ n)"
      by (simp only: mult.assoc power_mult [symmetric] power_add [symmetric] n)
    finally have r: "U256 r = U256 (result * base ^ n)" .
    have "U256 b = U256 (U256 b1 ^ 2 ^ (64 * length (nat_words m)))" using IH by (simp only: U256_power)
    also have "\<dots> = U256 (base ^ 2 ^ (64 * length (nat_words n)))"
      using S by (simp only: U256_power words power_mult [symmetric] power_add [symmetric] list.size mult_Suc_right plus_1_eq_Suc One_nat_def add_Suc_right add_0_right)
    finally have b: "U256 b = U256 (base ^ 2 ^ (64 * length (nat_words n)))" .
    have "u256 b" using IH S run by (cases "m = 0") auto
    with r b IH S show ?thesis by blast
  qed (use "1.prems" in simp)
qed

lemma math_Exp_power:
  assumes "u256 base"
  shows "fst (math_Exp base e) = base ^ nat \<bar>e\<bar> mod 2 ^ 256"
    and "e \<noteq> 0 \<Longrightarrow> snd (math_Exp base e) = base ^ 2 ^ (64 * length (big_Bits e)) mod 2 ^ 256"
proof -
  obtain r b where rb: "exp_words (nat_words (nat \<bar>e\<bar>)) 1 base = (r, b)"
    by (cases "exp_words (nat_words (nat \<bar>e\<bar>)) 1 base")
  have one: "u256 1" by (simp add: u256_def)
  note E = exp_words_power [OF rb]
  show "fst (math_Exp base e) = base ^ nat \<bar>e\<bar> mod 2 ^ 256"
    using E one U256_id [of r] by (simp add: math_Exp_def big_Bits_def rb U256_mod del: power_numeral)
  show "snd (math_Exp base e) = base ^ 2 ^ (64 * length (big_Bits e)) mod 2 ^ 256" if "e \<noteq> 0"
    using E that U256_id [of b] by (simp add: math_Exp_def big_Bits_def rb U256_mod del: power_numeral)
qed

section \<open>Bytes of a number\<close>

lemma unat_bigEndianByteAt: "unat (bigEndianByteAt x m) = nat \<bar>x\<bar> div 256 ^ m mod 256"
proof -
  define n i j where "n = nat \<bar>x\<bar>" and "i = m div 8" and "j = m mod 8"
  have m: "m = 8 * i + j" "j < 8" by (simp_all add: i_def j_def)
  have pow: "(256 :: nat) ^ m = 2 ^ (64 * i) * 2 ^ (8 * j)"
    by (simp add: m power_add power_mult [symmetric]) (simp add: power_mult)
  show ?thesis
  proof (cases "length (nat_words n) \<le> i")
    case True
    then have "n div 256 ^ m = 0" by (simp only: pow div_mult2_eq nat_words_high div_0)
    then show ?thesis using True by (simp add: bigEndianByteAt_def big_Bits_def n_def [symmetric] i_def [symmetric])
  next
    case False
    let ?w = "nat_words n ! i"
    have w: "unat ?w = take_bit 64 (n div 2 ^ (64 * i))" using False nat_words_nth [of i n] by (simp only: take_bit_eq_mod not_le)
    have "unat (ucast (drop_bit (8 * j) ?w) :: byte) = take_bit 8 (drop_bit (8 * j) (unat ?w))"
      by (simp add: unsigned_ucast_eq unat_drop_bit_eq)
    also have "\<dots> = take_bit 8 (drop_bit (8 * j) (n div 2 ^ (64 * i)))"
      using m(2) by (simp add: w drop_bit_take_bit min_def)
    also have "\<dots> = n div 256 ^ m mod 256"
      by (simp add: take_bit_eq_mod drop_bit_eq_div pow div_mult2_eq)
    finally show ?thesis
      using False by (simp add: bigEndianByteAt_def big_Bits_def n_def [symmetric] i_def [symmetric] j_def [symmetric])
  qed
qed

lemma be_bytes_add: "be_bytes (a + b) x = be_bytes a (x div 256 ^ b) @ be_bytes b x"
proof (induction b arbitrary: x)
  case (Suc b)
  show ?case using Suc [of "x div 256"] zdiv_zmult2_eq [of "256 ^ b" x 256] by (simp add: mult.commute)
qed simp

lemma be_bytes_0: "be_bytes k 0 = replicate k 0"
  by (induction k) (simp_all add: replicate_append_same)

lemma be_bytes_mod: "m \<le> k \<Longrightarrow> be_bytes m (x mod 256 ^ k) = be_bytes m x"
proof -
  assume "m \<le> k"
  then have "x mod 256 ^ k mod 256 ^ m = x mod 256 ^ m"
    by (intro mod_mod_cancel) (simp add: le_imp_power_dvd)
  then show ?thesis by (intro SetBytes_inj) (simp_all add: SetBytes_be_bytes)
qed

lemma read_word_bytes:
  assumes "i \<le> length buf"
  shows "read_word j d i buf =
    (i - min j i, take (i - min j i) buf @ be_bytes (min j i) (uint d) @ drop i buf)"
  using assms
proof (induction j arbitrary: d i buf)
  case (Suc j)
  show ?case
  proof (cases "i = 0")
    case False
    then obtain k where k: "i = Suc k" by (cases i) auto
    have "uint (drop_bit 8 d) = uint d div 256" using uint_lt2p [of d] by (simp only: unsigned_drop_bit_eq) (simp add: drop_bit_eq_div take_bit_eq_mod)
    then show ?thesis
      using Suc.IH [of k "buf[k := ucast d]" "drop_bit 8 d"] Suc.prems k
      by (simp add: min_def drop_update_swap Cons_nth_drop_Suc [symmetric])
  qed simp
qed simp

lemma read_words_bytes:
  assumes "i \<le> length buf" "\<forall>b \<in> set (take i buf). b = 0"
  shows "read_words (nat_words n) i buf = be_bytes i (int n) @ drop i buf"
  using assms
proof (induction n arbitrary: i buf rule: nat_words.induct)
  case (1 n)
  show ?case
  proof (cases "n = 0")
    case True
    have "take i buf = replicate i 0"
      using "1.prems" by (intro replicate_eqI) (auto simp: min_def)
    then show ?thesis using True append_take_drop_id [of i buf] by (simp add: be_bytes_0)
  next
    case False
    define m k where "m = n div 2 ^ 64" and "k = i - min 8 i"
    have ik: "i = k + min 8 i" by (simp add: k_def)
    have words: "nat_words n = of_nat n # nat_words m" using False by (simp add: nat_words_unfold [of n] m_def del: power_numeral)
    have low: "be_bytes (min 8 i) (uint (of_nat n :: uint64)) = be_bytes (min 8 i) (int n)"
      using be_bytes_mod [of "min 8 i" 8 "int n"] by (simp add: unsigned_of_nat take_bit_eq_mod zmod_int)
    have high: "be_bytes k (int m) = be_bytes k (int n div 256 ^ min 8 i)"
    proof (cases "8 \<le> i")
      case True
      then show ?thesis by (simp add: m_def zdiv_int)
    qed (simp add: k_def)
    let ?buf = "take k buf @ be_bytes (min 8 i) (uint (of_nat n :: uint64)) @ drop i buf"
    have "set (take k buf) \<subseteq> set (take i buf)" by (rule set_take_subset_set_take) (simp add: k_def)
    then have "\<forall>b \<in> set (take k ?buf). b = 0" using "1.prems" by (auto simp: k_def min_def split: if_splits)
    then have "read_words (nat_words m) k ?buf = be_bytes k (int m) @ drop k ?buf"
      using "1.IH" [OF False, folded m_def, of k ?buf] "1.prems"(1) by (simp add: k_def)
    moreover have "drop k ?buf = be_bytes (min 8 i) (uint (of_nat n :: uint64)) @ drop i buf"
      using "1.prems"(1) by (simp add: k_def)
    ultimately have "read_words (nat_words m) k ?buf
        = be_bytes k (int m) @ be_bytes (min 8 i) (uint (of_nat n :: uint64)) @ drop i buf" by (simp only:)
    then show ?thesis
      using "1.prems"(1) be_bytes_add [of k "min 8 i" "int n", folded ik]
      by (simp only: words read_words.simps read_word_bytes Let_def prod.case k_def [symmetric] low high append.assoc)
  qed
qed

lemma PaddedBigBytes_32: "u256 x \<Longrightarrow> PaddedBigBytes x 32 = be_bytes 32 x"
proof -
  assume x: "u256 x"
  show ?thesis
  proof (cases "32 \<le> big_BitLen x div 8")
    case True
    have "\<not> \<bar>x\<bar> < 256 ^ 31"
    proof
      assume "\<bar>x\<bar> < 256 ^ 31"
      then have "nat \<bar>x\<bar> < 2 ^ 248" by (simp add: nat_less_iff)
      then have "big_BitLen x \<le> 248" by (simp only: big_BitLen_def nat_bitlen_le_iff)
      with True show False by simp
    qed
    then have "\<not> length (big_Bytes x) \<le> 31" by (simp only: Bytes_length_le_iff) simp
    moreover have "length (big_Bytes x) \<le> 32" using x by (simp add: Bytes_length_le_iff u256_def)
    ultimately have "length (big_Bytes x) = 32" by simp
    then have "big_Bytes x = be_bytes 32 x"
      using x by (intro SetBytes_inj) (simp_all add: SetBytes_be_bytes u256_def)
    then show ?thesis using True by (simp add: PaddedBigBytes_def)
  next
    case False
    then show ?thesis
      using x read_words_bytes [of 32 "replicate 32 0" "nat \<bar>x\<bar>"]
      by (simp add: PaddedBigBytes_def ReadBits_def big_Bits_def u256_def)
  qed
qed

section \<open>64-bit arithmetic\<close>

lemma uint64_bounds: "unat (x :: uint64) < 2 ^ 64"
  using uint_lt2p [of x] by (simp add: nat_less_iff flip: nat_uint_eq)

lemma unat_max_uint64: "unat max_uint64 = 2 ^ 64 - 1"
  by (simp add: max_uint64_def unsigned_minus_1_eq_mask mask_eq_exp_minus_1)

lemma SafeAdd_iff: "SafeAdd x y = (s, ov) \<longleftrightarrow> s = x + y \<and> (ov \<longleftrightarrow> 2 ^ 64 \<le> unat x + unat y)"
proof -
  have "unat (max_uint64 - x) = 2 ^ 64 - 1 - unat x"
    using uint64_bounds [of x] unat_max_uint64 by (simp add: unat_sub_if')
  then show ?thesis
    using uint64_bounds [of x] by (auto simp: SafeAdd_def word_less_nat_alt)
qed

lemma SafeMul_iff: "SafeMul x y = (s, ov) \<longleftrightarrow> s = x * y \<and> (ov \<longleftrightarrow> 2 ^ 64 \<le> unat x * unat y)"
proof (cases "x = 0 \<or> y = 0")
  case False
  then have pos: "0 < unat x" by (simp add: unat_gt_0)
  have "y > max_uint64 div x \<longleftrightarrow> (2 ^ 64 - 1) div unat x < unat y"
    by (simp add: word_less_nat_alt unat_div unat_max_uint64)
  also have "\<dots> \<longleftrightarrow> 2 ^ 64 - 1 < unat y * unat x" using pos by (rule div_less_iff_less_mult)
  finally show ?thesis using False by (auto simp: SafeMul_def mult.commute)
qed (auto simp: SafeMul_def)

lemma SafeAdd_no_overflow: "SafeAdd x y = (s, False) \<Longrightarrow> unat s = unat x + unat y"
  by (auto simp: SafeAdd_iff unat_word_ariths)

lemma SafeMul_no_overflow: "SafeMul x y = (s, False) \<Longrightarrow> unat s = unat x * unat y"
  by (auto simp: SafeMul_iff unat_word_ariths)

text \<open>\<open>toWordSize\<close> rounds up for every size.\<close>

lemma unat_toWordSize: "unat (toWordSize sz) = (unat sz + 31) div 32"
proof -
  have lim: "unat (max_uint64 - 31) = 2 ^ 64 - 32" using unat_max_uint64 by (simp add: unat_sub_if')
  show ?thesis
  proof (cases "sz > max_uint64 - 31")
    case True
    then have "2 ^ 64 - 32 < unat sz" by (simp only: word_less_nat_alt lim)
    then have "(unat sz + 31) div 32 = 2 ^ 59" using uint64_bounds [of sz] by auto
    moreover have "unat (max_uint64 div 32 + 1) = 2 ^ 59" using unat_max_uint64 by (simp add: unat_word_ariths)
    ultimately show ?thesis using True by (simp add: toWordSize_def)
  next
    case False
    then have le: "unat sz \<le> 2 ^ 64 - 32" by (simp only: word_less_nat_alt lim not_less)
    then have "unat (sz + 31) = unat sz + 31" by (simp add: unat_word_ariths)
    then show ?thesis using False by (simp add: toWordSize_def unat_div)
  qed
qed

section \<open>Input data\<close>

lemma unat_length: "length data < 2 ^ 63 \<Longrightarrow> unat (of_nat (length data) :: uint64) = length data"
  by (simp add: unat_of_nat)

text \<open>
  \<open>getData\<close> panics exactly when the sum of start and size does not fit 64 bits; otherwise it returns the
  part of the data that is there, padded to the size.
\<close>

lemma getData_eq:
  assumes "length data < 2 ^ 63"
  shows "getData data start sz =
    (if 2 ^ 64 \<le> min (unat start) (length data) + unat sz then Panic
     else Ok (RightPadBytes (take (unat sz) (drop (unat start) data)) (sint sz)))"
proof -
  define len where "len = (of_nat (length data) :: uint64)"
  have len: "unat len = length data" using unat_length [OF assms] by (simp add: len_def)
  define s where "s = (if start > len then len else start)"
  have s: "unat s = min (unat start) (length data)" by (simp add: s_def word_less_nat_alt len min_def)
  show ?thesis
  proof (cases "2 ^ 64 \<le> unat s + unat sz")
    case True
    then have "unat (s + sz) = unat s + unat sz - 2 ^ 64"
      using uint64_bounds [of s] uint64_bounds [of sz] by (simp add: unat_plus_if')
    then have "unat (s + sz) < unat s" using uint64_bounds [of sz] True by linarith
    moreover from this have "\<not> s + sz > len" using s len by (simp add: word_less_nat_alt)
    ultimately show ?thesis
      unfolding getData_def Let_def len_def [symmetric] s_def [symmetric] using True s by (simp add: word_less_nat_alt)
  next
    case False
    then have sum: "unat (s + sz) = unat s + unat sz" using uint64_bounds [of s] by (simp add: unat_word_ariths)
    define e where "e = (if s + sz > len then len else s + sz)"
    have e: "unat e = min (unat s + unat sz) (length data)" by (simp add: e_def word_less_nat_alt len sum min_def)
    have "subslice data (unat s) (unat e) = take (unat sz) (drop (unat start) data)"
      unfolding subslice_def e s by (cases "unat start \<le> length data") (auto simp: min_def)
    moreover have "\<not> e < s" by (auto simp: word_less_nat_alt e s)
    ultimately show ?thesis
      unfolding getData_def Let_def len_def [symmetric] s_def [symmetric] e_def [symmetric] using False s by simp
  qed
qed

lemma sint_small: "unat (x :: uint64) < 2 ^ 63 \<Longrightarrow> sint x = int (unat x)"
proof -
  assume "unat x < 2 ^ 63"
  then have "uint x < 2 ^ 63" by (simp add: nat_less_iff flip: nat_uint_eq)
  moreover have "- (2 ^ 63) \<le> uint x" by (rule order_trans [of _ 0]) simp_all
  ultimately have "signed_take_bit 63 (uint x) = uint x" by (intro signed_take_bit_int_eq_self)
  then show ?thesis by (simp add: sint_uint flip: uint_nat)
qed

lemma getData_small:
  assumes "length data < 2 ^ 63" "unat sz < 2 ^ 63"
  shows "getData data start sz =
    Ok (take (unat sz) (drop (unat start) data) @ replicate (unat sz - (length data - unat start)) 0)"
  using assms by (auto simp: getData_eq sint_small RightPadBytes_eq min_def)

section \<open>Properties\<close>

text \<open>\<open>getData\<close>, announced as safe against overflow, panics exactly when the start, cut to the length of the
  data, plus the size does not fit 64 bits.\<close>

theorem get_data_panics:
  assumes "length data < 2 ^ 63"
  shows "getData data start sz = Panic \<longleftrightarrow> 2 ^ 64 \<le> min (unat start) (length data) + unat sz"
  using getData_eq [OF assms] by simp

theorem get_data_panics_witness:
  "getData [1, 2] 1 max_uint64 = Panic \<longleftrightarrow> 2 ^ 64 \<le> min (unat (1 :: uint64)) (length [1 :: byte, 2]) + unat max_uint64"
  by (rule get_data_panics) simp

text \<open>The exponentiation by squaring of \<open>math.Exp\<close> computes the power modulo \<open>2\<^sup>2\<^sup>5\<^sup>6\<close>; contrary to its
  comment it changes \<open>base\<close>, which is squared once for every bit of the words of the exponent.\<close>

theorem math_exp_correct:
  assumes "u256 base"
  shows "fst (math_Exp base e) = base ^ nat \<bar>e\<bar> mod 2 ^ 256 \<and>
    (e \<noteq> 0 \<longrightarrow> snd (math_Exp base e) = base ^ 2 ^ (64 * length (big_Bits e)) mod 2 ^ 256)"
  using math_Exp_power [OF assms] by simp

theorem math_exp_correct_witness:
  "fst (math_Exp 3 5) = 3 ^ nat \<bar>5\<bar> mod 2 ^ 256 \<and>
    snd (math_Exp 3 5) = 3 ^ 2 ^ (64 * length (big_Bits 5)) mod 2 ^ 256"
  using math_exp_correct [of 3 5] by (simp only: u256_def) simp

end
