(* ===== verification/Contract.thy ===== *)
theory Contract
  imports GoCommon
begin

text \<open>
  \<open>core/vm/contract.go\<close>, \<open>core/vm/analysis.go\<close> and \<open>core/vm/errors.go\<close>: the contract that is executed, with
  its gas, and the analysis of its code for jump destinations. A reference to the calling contract is
  what \<open>NewContract\<close> and \<open>AsDelegate\<close> read of it. The cache of analysed codes is shared by reference
  between a contract and the contracts it calls, so it is part of the state that is passed along.
\<close>

section \<open>Errors of the virtual machine\<close>

datatype vm_error =
    ErrOutOfGas | ErrCodeStoreOutOfGas | ErrDepth | ErrTraceLimitReached | ErrInsufficientBalance
  | ErrContractAddressCollision
  | errWriteProtection | errReturnDataOutOfBounds | errExecutionReverted | errMaxCodeSizeExceeded
  | errGasUintOverflow
  | errStackUnderflow nat nat | errStackLimit nat | errInvalidOpcode byte | errInvalidJump byte int
  | errNotOnCurve | errInvalidCurvePoint | errBadPairingInput | errInvalidInputRangeProof | errParse

section \<open>Analysis of the code\<close>

type_synonym OpCode = byte

definition JUMPDEST :: OpCode where "JUMPDEST = 0x5b"
abbreviation PUSH1 :: OpCode where "PUSH1 \<equiv> 0x60"
abbreviation PUSH32 :: OpCode where "PUSH32 \<equiv> 0x7f"

text \<open>The loop of \<open>jumpdests\<close> over the program counter; one bit of \<open>m\<close> for every position.\<close>

function jumpdests_loop :: "byte list \<Rightarrow> nat \<Rightarrow> byte list \<Rightarrow> byte list" where
  "jumpdests_loop code pc m =
     (if pc < length code then
        let op = code ! pc
        in if op = JUMPDEST then jumpdests_loop code (pc + 1) (m[pc div 8 := m ! (pc div 8) OR push_bit (pc mod 8) 1])
           else if op \<ge> PUSH1 \<and> op \<le> PUSH32
           then let a = unat op - unat PUSH1 + 1 in jumpdests_loop code (pc + a + 1) m
           else jumpdests_loop code (pc + 1) m
      else m)"
  by pat_completeness auto
termination
  by (relation "measure (\<lambda>(code, pc, m). length code - pc)") (auto simp: Let_def)

declare jumpdests_loop.simps [simp del]

definition jumpdests :: "byte list \<Rightarrow> byte list" where
  "jumpdests code = jumpdests_loop code 0 (replicate (length code div 8 + 1) 0)"

type_synonym destinations = "hash \<Rightarrow> byte list option"

text \<open>The verdict, and the cache afterwards.\<close>

definition has :: "destinations \<Rightarrow> hash \<Rightarrow> byte list \<Rightarrow> int \<Rightarrow> bool \<times> destinations" where
  "has d codehash code dest =
     (let udest = big_Uint64 dest
      in if big_BitLen dest \<ge> 63 \<or> udest \<ge> of_nat (length code) then (False, d)
         else
           let m = (case d codehash of Some m \<Rightarrow> m | None \<Rightarrow> jumpdests code);
               d = (case d codehash of Some m \<Rightarrow> d | None \<Rightarrow> d(codehash := Some m))
           in (m ! (unat udest div 8) AND push_bit (unat udest mod 8) 1 \<noteq> 0, d))"

section \<open>Contracts\<close>

datatype contract_ref =
    AccountRef address
  | ContractRef (ref_self: address) (ref_CallerAddress: address) (ref_value: int)

fun ref_Address :: "contract_ref \<Rightarrow> address" where
  "ref_Address (AccountRef a) = a"
| "ref_Address (ContractRef a c v) = a"

record Contract =
  CallerAddress :: address
  caller :: contract_ref
  self :: contract_ref
  Code :: "byte list"
  CodeHash :: hash
  CodeAddr :: "address option"
  Input :: "byte list"
  Gas :: uint64
  value' :: int
  DelegateCall :: bool

definition NewContract :: "contract_ref \<Rightarrow> contract_ref \<Rightarrow> int \<Rightarrow> uint64 \<Rightarrow> Contract" where
  "NewContract clr object v gas =
     \<lparr>CallerAddress = ref_Address clr, caller = clr, self = object, Code = [], CodeHash = 0, CodeAddr = None,
      Input = [], Gas = gas, value' = v, DelegateCall = False\<rparr>"

text \<open>The caller must be a contract; the type assertion panics otherwise.\<close>

definition AsDelegate :: "Contract \<Rightarrow> (vm_error, Contract) outcome" where
  "AsDelegate c =
     (case caller c of
        AccountRef a \<Rightarrow> Panic
      | ContractRef s ca v \<Rightarrow> Ok (c\<lparr>DelegateCall := True, CallerAddress := ca, value' := v\<rparr>))"

definition GetByte :: "Contract \<Rightarrow> uint64 \<Rightarrow> byte" where
  "GetByte c n = (if n < of_nat (length (Code c)) then Code c ! unat n else 0)"

definition GetOp :: "Contract \<Rightarrow> uint64 \<Rightarrow> OpCode" where
  "GetOp c n = GetByte c n"

definition Caller :: "Contract \<Rightarrow> address" where
  "Caller c = CallerAddress c"

definition UseGas :: "Contract \<Rightarrow> uint64 \<Rightarrow> bool \<times> Contract" where
  "UseGas c gas = (if Gas c < gas then (False, c) else (True, c\<lparr>Gas := Gas c - gas\<rparr>))"

definition Address :: "Contract \<Rightarrow> address" where
  "Address c = ref_Address (self c)"

definition Value :: "Contract \<Rightarrow> int" where
  "Value c = value' c"

definition SetCode :: "hash \<Rightarrow> byte list \<Rightarrow> Contract \<Rightarrow> Contract" where
  "SetCode h code c = c\<lparr>Code := code, CodeHash := h\<rparr>"

definition SetCallCode :: "address \<Rightarrow> hash \<Rightarrow> byte list \<Rightarrow> Contract \<Rightarrow> Contract" where
  "SetCallCode addr h code c = c\<lparr>Code := code, CodeHash := h, CodeAddr := Some addr\<rparr>"

section \<open>Instruction boundaries\<close>

text \<open>The positions at which an instruction starts: the bytes that a push instruction carries are skipped.\<close>

definition immediate :: "byte \<Rightarrow> nat" where
  "immediate op = (if op \<ge> PUSH1 \<and> op \<le> PUSH32 then unat op - unat PUSH1 + 1 else 0)"

inductive starts :: "byte list \<Rightarrow> nat \<Rightarrow> nat \<Rightarrow> bool" for code p where
  starts_here: "starts code p p"
| starts_next: "starts code p q \<Longrightarrow> q < length code \<Longrightarrow> starts code p (q + 1 + immediate (code ! q))"

inductive_cases startsE: "starts code p q"

lemma starts_shift: "starts code (p + 1 + immediate (code ! p)) q \<Longrightarrow> p < length code \<Longrightarrow> starts code p q"
proof (induction rule: starts.induct)
  case starts_here
  then show ?case using starts_next [OF starts.starts_here [of code p]] by simp
qed (blast intro: starts_next)

lemma starts_unfold:
  "starts code p q \<longleftrightarrow> q = p \<or> p < length code \<and> starts code (p + 1 + immediate (code ! p)) q" (is "?l \<longleftrightarrow> ?r")
proof
  show "?l \<Longrightarrow> ?r"
  proof (induction rule: starts.induct)
    case (starts_next q)
    from starts_next.IH show ?case
    proof
      assume "q = p"
      then show ?thesis using starts_next.hyps(2) starts.starts_here by simp
    next
      assume "p < length code \<and> starts code (p + 1 + immediate (code ! p)) q"
      then show ?thesis using starts.starts_next starts_next.hyps(2) by blast
    qed
  qed simp
qed (auto intro: starts_here starts_shift)

lemma starts_le: "starts code p q \<Longrightarrow> p \<le> q"
  by (induction rule: starts.induct) auto

definition marked :: "byte list \<Rightarrow> nat \<Rightarrow> bool" where
  "marked m i \<longleftrightarrow> m ! (i div 8) AND push_bit (i mod 8) 1 \<noteq> 0"

lemma marked_bit: "marked m i \<longleftrightarrow> bit (m ! (i div 8)) (i mod 8)"
  by (simp add: marked_def push_bit_eq_mult and_exp_eq_0_iff_not_bit)

lemma marked_update:
  assumes "i div 8 < length m" "k div 8 < length m"
  shows "marked (m[k div 8 := m ! (k div 8) OR 2 ^ (k mod 8)]) i \<longleftrightarrow> marked m i \<or> i = k"
proof (cases "i div 8 = k div 8")
  case True
  then have "i mod 8 = k mod 8 \<longleftrightarrow> i = k" by (metis div_mult_mod_eq)
  then show ?thesis using True assms by (auto simp: marked_bit bit_or_iff bit_exp_iff)
qed (auto simp: marked_bit)

lemma length_jumpdests_loop [simp]: "length (jumpdests_loop code pc m) = length m"
  by (induction code pc m rule: jumpdests_loop.induct) (subst jumpdests_loop.simps, simp add: Let_def)

lemma jumpdests_loop_marked:
  assumes "length m = length code div 8 + 1" "i < length code"
  shows "marked (jumpdests_loop code pc m) i \<longleftrightarrow> marked m i \<or> code ! i = JUMPDEST \<and> starts code pc i"
  using assms
proof (induction code pc m rule: jumpdests_loop.induct)
  case (1 code pc m)
  show ?case
  proof (cases "pc < length code")
    case False
    then have "\<not> starts code pc i" using "1.prems" starts_le by fastforce
    then show ?thesis using False by (subst jumpdests_loop.simps) simp
  next
    case True
    let ?op = "code ! pc"
    have div: "i div 8 < length m" "pc div 8 < length m" using "1.prems" True by (auto simp: div_le_mono less_Suc_eq_le)
    consider (dest) "?op = JUMPDEST" | (push) "?op \<noteq> JUMPDEST" "?op \<ge> PUSH1 \<and> ?op \<le> PUSH32"
      | (other) "?op \<noteq> JUMPDEST" "\<not> (?op \<ge> PUSH1 \<and> ?op \<le> PUSH32)" by blast
    then show ?thesis
    proof cases
      case dest
      then have "immediate ?op = 0" by (simp add: immediate_def JUMPDEST_def)
      then show ?thesis
        using "1.IH"(1) [OF True refl dest] "1.prems" dest True div starts_unfold [of code pc i]
        by (subst jumpdests_loop.simps) (auto simp: Let_def marked_update)
    next
      case push
      then show ?thesis
        using "1.IH"(2) [OF True refl push(1) push(2) refl] "1.prems" True starts_unfold [of code pc i]
        by (subst jumpdests_loop.simps) (auto simp: Let_def immediate_def ac_simps)
    next
      case other
      then show ?thesis
        using "1.IH"(3) [OF True refl other(1) other(2)] "1.prems" True starts_unfold [of code pc i]
        by (subst jumpdests_loop.simps) (auto simp: Let_def immediate_def)
    qed
  qed
qed

lemma jumpdests_marked: "i < length code \<Longrightarrow> marked (jumpdests code) i \<longleftrightarrow> code ! i = JUMPDEST \<and> starts code 0 i"
proof -
  assume i: "i < length code"
  then have "i div 8 < length code div 8 + 1" by (simp add: div_le_mono less_Suc_eq_le)
  then have "\<not> marked (replicate (length code div 8 + 1) 0) i" by (simp only: marked_bit nth_replicate) simp
  with i show ?thesis by (simp only: jumpdests_def jumpdests_loop_marked length_replicate simp_thms)
qed

lemma big_Uint64_small: "0 \<le> x \<Longrightarrow> x < 2 ^ 64 \<Longrightarrow> unat (big_Uint64 x) = nat x"
  by (simp add: big_Uint64_def unat_eq_nat_uint uint_word_of_int flip: nat_uint_eq)

section \<open>Properties\<close>

text \<open>C19: A jump is accepted exactly when its target is a \<open>JUMPDEST\<close> at which an instruction starts, not
  inside the data of a push instruction; and the answer does not depend on whether the analysis was cached, as
  long as the cache holds the analysis of this code under its hash, which the call preserves.\<close>

theorem jump_target_valid:
  assumes "0 \<le> dest" "length code < 2 ^ 62" "d codehash \<in> {None, Some (jumpdests code)}"
  shows "(fst (has d codehash code dest) \<longleftrightarrow>
      dest < int (length code) \<and> code ! nat dest = JUMPDEST \<and> starts code 0 (nat dest)) \<and>
    snd (has d codehash code dest) codehash \<in> {None, Some (jumpdests code)}"
proof (cases "dest < int (length code)")
  case True
  then have "nat dest < 2 ^ 62" using assms(1,2) by linarith
  then have "big_BitLen dest \<le> 62" using assms(1) by (simp add: big_BitLen_def nat_bitlen_le_iff)
  moreover have u: "unat (big_Uint64 dest) = nat dest" using \<open>nat dest < 2 ^ 62\<close> assms(1) by (intro big_Uint64_small) auto
  moreover have "big_Uint64 dest < of_nat (length code)"
    using True assms(1,2) by (simp add: word_less_nat_alt u unat_of_nat nat_less_iff)
  ultimately show ?thesis
    using True assms jumpdests_marked [of "nat dest" code]
    by (auto simp: has_def Let_def marked_def not_le nat_less_iff)
next
  case False
  have "big_BitLen dest \<ge> 63 \<or> big_Uint64 dest \<ge> of_nat (length code)"
  proof (cases "big_BitLen dest \<ge> 63")
    case small: False
    then have "nat dest < 2 ^ 63" using assms(1) nat_bitlen_le_iff [of "nat dest" 63] by (simp add: big_BitLen_def)
    then have "unat (big_Uint64 dest) = nat dest" using assms(1) by (intro big_Uint64_small) auto
    then show ?thesis using False assms(1,2) by (simp add: word_le_nat_alt unat_of_nat le_nat_iff)
  qed simp
  then show ?thesis using False assms(3) by (simp add: has_def Let_def)
qed

theorem jump_target_valid_witness:
  "(fst (has (\<lambda>_. None) 7 [0x60, 0x5b, 0x5b, 0x00] 2) \<longleftrightarrow>
      2 < int (length [0x60 :: byte, 0x5b, 0x5b, 0x00]) \<and> [0x60, 0x5b, 0x5b, 0x00] ! nat 2 = JUMPDEST \<and>
      starts [0x60, 0x5b, 0x5b, 0x00] 0 (nat 2)) \<and>
    snd (has (\<lambda>_. None) 7 [0x60, 0x5b, 0x5b, 0x00] 2) 7 \<in> {None, Some (jumpdests [0x60, 0x5b, 0x5b, 0x00])}"
  by (rule jump_target_valid) simp_all

end
