(* ===== verification/Precompiles.thy ===== *)
theory Precompiles
  imports RangeProver BN256 Contract
begin

text \<open>
  \<open>core/vm/contracts.go\<close>: the precompiled contracts, among them the range proof validator at address 9.
  The hash functions and the recovery of a public key from a signature, which other packages
  implement, are the fields of a parameter \<open>prm\<close>; its field \<open>prim_undef\<close> is the value of a big integer after
  a failed \<open>SetString\<close>. A nil slice is the empty list.
\<close>

section \<open>Operations\<close>

record primitives =
  prim_sha256 :: "byte list \<Rightarrow> byte list"
  prim_ripemd160 :: "byte list \<Rightarrow> byte list"
  prim_keccak256 :: "byte list \<Rightarrow> byte list"
  prim_Ecrecover :: "byte list \<Rightarrow> byte list \<Rightarrow> byte list option"
  prim_undef :: "byte list \<Rightarrow> int"

datatype precompiled =
    ecrecover | sha256hash | ripemd160hash | dataCopy | bigModExp | bn256Add | bn256ScalarMul | bn256Pairing
  | zkpRangeProof

definition PrecompiledContractsHomestead :: "address \<Rightarrow> precompiled option" where
  "PrecompiledContractsHomestead = Map.empty
     (1 \<mapsto> ecrecover, 2 \<mapsto> sha256hash, 3 \<mapsto> ripemd160hash, 4 \<mapsto> dataCopy, 9 \<mapsto> zkpRangeProof)"

definition PrecompiledContractsMetropolis :: "address \<Rightarrow> precompiled option" where
  "PrecompiledContractsMetropolis = Map.empty
     (1 \<mapsto> ecrecover, 2 \<mapsto> sha256hash, 3 \<mapsto> ripemd160hash, 4 \<mapsto> dataCopy, 5 \<mapsto> bigModExp, 6 \<mapsto> bn256Add,
      7 \<mapsto> bn256ScalarMul, 8 \<mapsto> bn256Pairing, 9 \<mapsto> zkpRangeProof)"

abbreviation secp256k1_N :: int where
  "secp256k1_N \<equiv> 0xfffffffffffffffffffffffffffffffebaaedce6af48a03bbfd25e8cd0364141"

definition ValidateSignatureValues :: "byte \<Rightarrow> int \<Rightarrow> int \<Rightarrow> bool \<Rightarrow> bool" where
  "ValidateSignatureValues v r s homestead =
     (if r < 1 \<or> s < 1 then False
      else if homestead \<and> s > secp256k1_N div 2 then False
      else r < secp256k1_N \<and> s < secp256k1_N \<and> (v = 0 \<or> v = 1))"

definition ecrecover_Run :: "primitives \<Rightarrow> byte list \<Rightarrow> (vm_error, byte list) outcome" where
  "ecrecover_Run prm inp =
     (let inp = RightPadBytes inp 128;
          r = big_SetBytes (subslice inp 64 96);
          s = big_SetBytes (subslice inp 96 128);
          v = inp ! 63 - 27
      in if \<not> allZero (subslice inp 32 63) \<or> \<not> ValidateSignatureValues v r s False then Ok []
         else case prim_Ecrecover prm (take 32 inp) (subslice inp 64 128 @ [v]) of
                None \<Rightarrow> Ok []
              | Some [] \<Rightarrow> Panic
              | Some (_ # pubKey) \<Rightarrow> Ok (LeftPadBytes (drop 12 (prim_keccak256 prm pubKey)) 32))"

definition words_gas :: "byte list \<Rightarrow> uint64 \<Rightarrow> uint64 \<Rightarrow> uint64" where
  "words_gas inp perWord base = of_nat (length inp + 31) div 32 * perWord + base"

definition ripemd160hash_Run :: "primitives \<Rightarrow> byte list \<Rightarrow> (vm_error, byte list) outcome" where
  "ripemd160hash_Run prm inp = Ok (LeftPadBytes (prim_ripemd160 prm inp) 32)"

text \<open>A slice expression or an index in a helper that has no error result.\<close>

fun no_error :: "(unit, 'a) outcome \<Rightarrow> (vm_error, 'a) outcome" where
  "no_error (Ok x) = Ok x"
| "no_error (Err _) = Panic"
| "no_error Panic = Panic"

definition bigModExp_RequiredGas :: "byte list \<Rightarrow> (vm_error, uint64) outcome" where
  "bigModExp_RequiredGas inp =
     bind_outcome (no_error (getData inp 0 32)) (\<lambda>d.
     let baseLen = big_SetBytes d in
     bind_outcome (no_error (getData inp 32 32)) (\<lambda>d.
     let expLen = big_SetBytes d in
     bind_outcome (no_error (getData inp 64 32)) (\<lambda>d.
     let modLen = big_SetBytes d;
         inp = (if length inp > 96 then drop 96 inp else []) in
     bind_outcome
       (if int (length inp) \<le> baseLen then Ok 0
        else if expLen > 32 then bind_outcome (no_error (getData inp (big_Uint64 baseLen) 32)) (\<lambda>d. Ok (big_SetBytes d))
        else bind_outcome (no_error (getData inp (big_Uint64 baseLen) (big_Uint64 expLen))) (\<lambda>d. Ok (big_SetBytes d)))
       (\<lambda>expHead.
     let bitlen = big_BitLen expHead;
         msb = (if bitlen > 0 then bitlen - 1 else 0);
         adjExpLen = (if expLen > 32 then 8 * (expLen - 32) else 0);
         adjExpLen = adjExpLen + int msb;
         gas = BigMax modLen baseLen;
         gas = (if gas \<le> 64 then gas * gas
                else if gas \<le> 1024 then gas * gas div 4 + (96 * gas - 3072)
                else gas * gas div 16 + (480 * gas - 199680));
         gas = gas * BigMax adjExpLen 1;
         gas = gas div 100
     in if big_BitLen gas > 64 then Ok max_uint64 else Ok (big_Uint64 gas)))))"

definition bigModExp_Run :: "byte list \<Rightarrow> (vm_error, byte list) outcome" where
  "bigModExp_Run inp =
     bind_outcome (no_error (getData inp 0 32)) (\<lambda>d.
     let baseLen = big_Uint64 (big_SetBytes d) in
     bind_outcome (no_error (getData inp 32 32)) (\<lambda>d.
     let expLen = big_Uint64 (big_SetBytes d) in
     bind_outcome (no_error (getData inp 64 32)) (\<lambda>d.
     let modLen = big_Uint64 (big_SetBytes d);
         inp = (if length inp > 96 then drop 96 inp else []) in
     if baseLen = 0 \<and> modLen = 0 then Ok []
     else
       bind_outcome (no_error (getData inp 0 baseLen)) (\<lambda>d.
       let base = big_SetBytes d in
       bind_outcome (no_error (getData inp baseLen expLen)) (\<lambda>d.
       let exponent = big_SetBytes d in
       bind_outcome (no_error (getData inp (baseLen + expLen) modLen)) (\<lambda>d.
       let modulus = big_SetBytes d in
       if big_BitLen modulus = 0 then Ok (LeftPadBytes [] (sint modLen))
       else Ok (LeftPadBytes (big_Bytes (big_Exp base exponent modulus)) (sint modLen))))))))"

definition newCurvePoint_G1 :: "byte list \<Rightarrow> (vm_error, G1) outcome" where
  "newCurvePoint_G1 blob =
     (case G1_Unmarshal \<lparr>G1_p = None\<rparr> blob of
        (p, onCurve) \<Rightarrow>
          if \<not> onCurve then Err errNotOnCurve
          else bind_outcome (no_error (G1_CurvePoints p)) (\<lambda>(gx, gy, _, _).
            if gx \<ge> P \<or> gy \<ge> P then Err errInvalidCurvePoint else Ok p))"

definition newTwistPoint_G2 :: "byte list \<Rightarrow> (vm_error, G2) outcome" where
  "newTwistPoint_G2 blob =
     (case G2_Unmarshal \<lparr>G2_p = None\<rparr> blob of
        (p, onCurve) \<Rightarrow>
          if \<not> onCurve then Err errNotOnCurve
          else bind_outcome (no_error (G2_CurvePoints p)) (\<lambda>(x2, y2, _, _).
            if gfP2_Real x2 \<ge> P \<or> gfP2_Imag x2 \<ge> P \<or> gfP2_Real y2 \<ge> P \<or> gfP2_Imag y2 \<ge> P
            then Err errInvalidCurvePoint else Ok p))"

definition bn256Add_Run :: "byte list \<Rightarrow> (vm_error, byte list) outcome" where
  "bn256Add_Run inp =
     bind_outcome (no_error (getData inp 0 64)) (\<lambda>d.
     bind_outcome (newCurvePoint_G1 d) (\<lambda>x.
     bind_outcome (no_error (getData inp 64 64)) (\<lambda>d.
     bind_outcome (newCurvePoint_G1 d) (\<lambda>y.
     bind_outcome (no_error (G1_Add False \<lparr>G1_p = None\<rparr> x y)) (\<lambda>res.
     bind_outcome (no_error (G1_Marshal res)) (\<lambda>(bytes, _). Ok bytes))))))"

definition bn256ScalarMul_Run :: "byte list \<Rightarrow> (vm_error, byte list) outcome" where
  "bn256ScalarMul_Run inp =
     bind_outcome (no_error (getData inp 0 64)) (\<lambda>d.
     bind_outcome (newCurvePoint_G1 d) (\<lambda>p.
     bind_outcome (no_error (getData inp 64 32)) (\<lambda>d.
     bind_outcome (no_error (G1_ScalarMult p (big_SetBytes d))) (\<lambda>res.
     bind_outcome (no_error (G1_Marshal res)) (\<lambda>(bytes, _). Ok bytes)))))"

definition true32Byte :: "byte list" where
  "true32Byte = replicate 31 0 @ [1]"

definition false32Byte :: "byte list" where
  "false32Byte = replicate 32 0"

text \<open>The loop of the pairing contract, on the rest of its input.\<close>

function pairing_points :: "byte list \<Rightarrow> G1 list \<Rightarrow> G2 list \<Rightarrow> (vm_error, G1 list \<times> G2 list) outcome" where
  "pairing_points inp cs ts =
     (if inp = [] then Ok (cs, ts)
      else
        bind_outcome (newCurvePoint_G1 (subslice inp 0 64)) (\<lambda>c.
        bind_outcome (newTwistPoint_G2 (subslice inp 64 192)) (\<lambda>t.
        pairing_points (drop 192 inp) (cs @ [c]) (ts @ [t]))))"
  by pat_completeness auto
termination
  by (relation "measure (\<lambda>(inp, cs, ts). length inp)") auto

declare pairing_points.simps [simp del]

definition bn256Pairing_Run :: "byte list \<Rightarrow> (vm_error, byte list) outcome" where
  "bn256Pairing_Run inp =
     (if length inp mod 192 > 0 then Err errBadPairingInput
      else
        bind_outcome (pairing_points inp [] []) (\<lambda>(cs, ts).
        bind_outcome (no_error (PairingCheck cs ts)) (\<lambda>b.
        if b then Ok true32Byte else Ok false32Byte)))"

text \<open>
  The offsets of the range proof contract are of type \<open>int64\<close> and wrap around; a slice whose end is past
  the input panics.
\<close>

definition zkpRangeProof_Run :: "primitives \<Rightarrow> byte list \<Rightarrow> (vm_error, byte list) outcome" where
  "zkpRangeProof_Run prm inp =
     (if length inp < 4 + 6 * 32 then Err errInvalidInputRangeProof
      else
        let lower = big_SetBytes (subslice inp 4 36);
            upper = big_SetBytes (subslice inp 36 68);
            startProof = big_Int64 (big_SetBytes (subslice inp 100 132)) + 4
        in
        if sint startProof \<le> 164 \<or> sint (startProof + 32) > int (length inp) then Err errInvalidInputRangeProof
        else
          let commitmentLength = sint (big_Int64 (big_SetBytes (subslice inp 132 164)))
          in
          if sint startProof > int (length inp) then Panic
          else
            let start = nat (sint startProof);
                byteArrayCommitment = subslice inp 164 start;
                proofLength = sint (big_Int64 (big_SetBytes (subslice inp start (start + 32))));
                byteArrayProof = drop (start + 32) inp
            in
            if commitmentLength \<le> 0 \<or> proofLength \<le> 0 \<or> commitmentLength > int (length byteArrayCommitment)
               \<or> proofLength > int (length byteArrayProof)
            then Err errInvalidInputRangeProof
            else
              case ParseInput (prim_undef prm) (take (nat commitmentLength) byteArrayCommitment) of
                Err _ \<Rightarrow> Err errParse
              | Panic \<Rightarrow> Panic
              | Ok parsedCommitment \<Rightarrow>
                case ParseInput (prim_undef prm) (take (nat proofLength) byteArrayProof) of
                  Err _ \<Rightarrow> Err errParse
                | Panic \<Rightarrow> Panic
                | Ok parsedProof \<Rightarrow>
                  case ValidateRangeProof (prim_sha256 prm) lower upper parsedCommitment parsedProof of
                    Ok (verdict, _) \<Rightarrow> Ok (if verdict then true32Byte else false32Byte)
                  | _ \<Rightarrow> Panic)"

text \<open>The prices, from \<open>params/protocol_params.go\<close>.\<close>

definition ecrecover_RequiredGas :: "byte list \<Rightarrow> uint64" where
  "ecrecover_RequiredGas inp = 3000"

definition sha256hash_RequiredGas :: "byte list \<Rightarrow> uint64" where
  "sha256hash_RequiredGas inp = words_gas inp 12 60"

definition ripemd160hash_RequiredGas :: "byte list \<Rightarrow> uint64" where
  "ripemd160hash_RequiredGas inp = words_gas inp 120 600"

definition dataCopy_RequiredGas :: "byte list \<Rightarrow> uint64" where
  "dataCopy_RequiredGas inp = words_gas inp 3 15"

definition bn256Add_RequiredGas :: "byte list \<Rightarrow> uint64" where
  "bn256Add_RequiredGas inp = 500"

definition bn256ScalarMul_RequiredGas :: "byte list \<Rightarrow> uint64" where
  "bn256ScalarMul_RequiredGas inp = 2000"

definition bn256Pairing_RequiredGas :: "byte list \<Rightarrow> uint64" where
  "bn256Pairing_RequiredGas inp = 100000 + of_nat (length inp div 192) * 80000"

definition zkpRangeProof_RequiredGas :: "byte list \<Rightarrow> uint64" where
  "zkpRangeProof_RequiredGas inp = 180000"

definition sha256hash_Run :: "primitives \<Rightarrow> byte list \<Rightarrow> (vm_error, byte list) outcome" where
  "sha256hash_Run prm inp = Ok (prim_sha256 prm inp)"

definition dataCopy_Run :: "byte list \<Rightarrow> (vm_error, byte list) outcome" where
  "dataCopy_Run inp = Ok inp"

text \<open>The methods of the interface, dispatched on the contract.\<close>

fun RequiredGas :: "precompiled \<Rightarrow> byte list \<Rightarrow> (vm_error, uint64) outcome" where
  "RequiredGas ecrecover inp = Ok (ecrecover_RequiredGas inp)"
| "RequiredGas sha256hash inp = Ok (sha256hash_RequiredGas inp)"
| "RequiredGas ripemd160hash inp = Ok (ripemd160hash_RequiredGas inp)"
| "RequiredGas dataCopy inp = Ok (dataCopy_RequiredGas inp)"
| "RequiredGas bigModExp inp = bigModExp_RequiredGas inp"
| "RequiredGas bn256Add inp = Ok (bn256Add_RequiredGas inp)"
| "RequiredGas bn256ScalarMul inp = Ok (bn256ScalarMul_RequiredGas inp)"
| "RequiredGas bn256Pairing inp = Ok (bn256Pairing_RequiredGas inp)"
| "RequiredGas zkpRangeProof inp = Ok (zkpRangeProof_RequiredGas inp)"

fun Run :: "primitives \<Rightarrow> precompiled \<Rightarrow> byte list \<Rightarrow> (vm_error, byte list) outcome" where
  "Run prm ecrecover inp = ecrecover_Run prm inp"
| "Run prm sha256hash inp = sha256hash_Run prm inp"
| "Run prm ripemd160hash inp = ripemd160hash_Run prm inp"
| "Run prm dataCopy inp = dataCopy_Run inp"
| "Run prm bigModExp inp = bigModExp_Run inp"
| "Run prm bn256Add inp = bn256Add_Run inp"
| "Run prm bn256ScalarMul inp = bn256ScalarMul_Run inp"
| "Run prm bn256Pairing inp = bn256Pairing_Run inp"
| "Run prm zkpRangeProof inp = zkpRangeProof_Run prm inp"

text \<open>The result, and the contract with the gas that is left.\<close>

definition RunPrecompiledContract ::
  "primitives \<Rightarrow> precompiled \<Rightarrow> byte list \<Rightarrow> Contract \<Rightarrow> (vm_error, byte list) outcome \<times> Contract" where
  "RunPrecompiledContract prm p inp c =
     (case RequiredGas p inp of
        Ok gas \<Rightarrow>
          (case UseGas c gas of
             (ok, c') \<Rightarrow> if ok then (Run prm p inp, c') else (Err ErrOutOfGas, c'))
      | Err e \<Rightarrow> (Err e, c)
      | Panic \<Rightarrow> (Panic, c))"

section \<open>The range proof contract\<close>

text \<open>Signed 64-bit values of numbers below \<open>2\<^sup>6\<^sup>3\<close>.\<close>

lemma sint_Int64: "0 \<le> x \<Longrightarrow> x < 2 ^ 63 \<Longrightarrow> sint (big_Int64 x) = x"
proof -
  assume x: "0 \<le> x" "x < 2 ^ 63"
  then have "unat (big_Int64 x) = nat x"
    by (simp add: big_Int64_def uint_word_of_int flip: nat_uint_eq)
  then show ?thesis using x sint_small [of "big_Int64 x"] by simp
qed

lemma sint_word_of_int64:
  assumes "- (2 ^ 63) \<le> x" "x < 2 ^ 63"
  shows "sint (word_of_int x :: 64 word) = x"
  using signed_take_bit_int_eq_self [OF assms] by (simp only: signed_of_int) simp

text \<open>The layout that a Solidity caller produces for two numbers and two byte arrays.\<close>

definition abi_input :: "byte list \<Rightarrow> int \<Rightarrow> int \<Rightarrow> byte list \<Rightarrow> byte list \<Rightarrow> byte list \<Rightarrow> byte list \<Rightarrow> byte list \<Rightarrow> byte list" where
  "abi_input sel lo up w com pad pf pad' =
     sel @ be_bytes 32 lo @ be_bytes 32 up @ w @ be_bytes 32 (160 + int (length (com @ pad)))
       @ be_bytes 32 (int (length com)) @ (com @ pad) @ be_bytes 32 (int (length pf)) @ (pf @ pad')"

lemma subslice_at:
  "length as = i \<Longrightarrow> length xs = j - i \<Longrightarrow> i \<le> j \<Longrightarrow> subslice (as @ xs @ bs) i j = xs"
  by (simp add: subslice_def)

lemma zkp_Run_abi:
  assumes "length sel = 4" "length w = 32" "0 \<le> lo" "lo < 2 ^ 256" "0 \<le> up" "up < 2 ^ 256"
    and "com \<noteq> []" "pf \<noteq> []" "inp = abi_input sel lo up w com pad pf pad'" "length inp < 2 ^ 62"
    and "ParseInput (prim_undef prm) com = Ok coms" "ParseInput (prim_undef prm) pf = Ok pfs"
  shows "zkpRangeProof_Run prm inp =
    (case ValidateRangeProof (prim_sha256 prm) lo up coms pfs of
       Ok (verdict, _) \<Rightarrow> Ok (if verdict then true32Byte else false32Byte)
     | _ \<Rightarrow> Panic)"
proof -
  define L s where "L = length (com @ pad)" and "s = 164 + L"
  define len where "len = int (length inp)"
  have len: "length inp = s + 32 + length (pf @ pad')" "0 < L" "0 < length pf"
    using assms(1,2,7,8,9) by (simp_all add: abi_input_def s_def L_def)
  have i: "subslice inp 4 36 = be_bytes 32 lo" "subslice inp 36 68 = be_bytes 32 up"
    "subslice inp 100 132 = be_bytes 32 (160 + int L)" "subslice inp 132 164 = be_bytes 32 (int (length com))"
    "subslice inp 164 s = com @ pad" "subslice inp s (s + 32) = be_bytes 32 (int (length pf))" "drop (s + 32) inp = pf @ pad'"
    using assms(1,2) by (simp_all add: assms(9) abi_input_def subslice_def s_def L_def)
  have v: "big_SetBytes (be_bytes 32 x) = x" if "0 \<le> x" "x < 2 ^ 256" for x
    using that by (simp add: SetBytes_be_bytes)
  have small: "int n < 2 ^ 256" if "n \<le> length inp" for n
  proof -
    have "int n < 2 ^ 62" using that assms(10) by (simp add: of_nat_less_numeral_power_cancel_iff)
    then show ?thesis by simp
  qed
  have bounds: "160 + int L < 2 ^ 256" "int (length com) < 2 ^ 256" "int (length pf) < 2 ^ 256"
    using small [of "160 + L"] small [of "length com"] small [of "length pf"] len by (simp_all add: s_def L_def)
  have nums: "big_SetBytes (subslice inp 4 36) = lo" "big_SetBytes (subslice inp 36 68) = up"
    "big_SetBytes (subslice inp 100 132) = 160 + int L" "big_SetBytes (subslice inp 132 164) = int (length com)"
    "big_SetBytes (subslice inp s (s + 32)) = int (length pf)"
    using assms(3-6) bounds by (simp_all only: i v add_nonneg_nonneg of_nat_0_le_iff zero_le_numeral)
  have ll: "int (160 + L + 4 + 32) \<le> len" "len < 2 ^ 62" "int (length com) \<le> len" "int (length pf) \<le> len"
    using len assms(10) by (simp_all add: s_def len_def L_def)
  have start: "big_Int64 (160 + int L) + 4 = word_of_int (int s)"
    "(word_of_int (int s) + 32 :: 64 word) = word_of_int (int s + 32)"
    by (simp_all add: big_Int64_def s_def)
  have sints: "sint (word_of_int (int s) :: 64 word) = int s" "sint (word_of_int (int s + 32) :: 64 word) = int s + 32"
    "sint (big_Int64 (int (length com))) = int (length com)" "sint (big_Int64 (int (length pf))) = int (length pf)"
  proof -
    have "int s + 32 < 2 ^ 63" "int (length com) < 2 ^ 63" "int (length pf) < 2 ^ 63" using ll by (simp_all add: s_def)
    moreover from this have "- (2 ^ 63) \<le> int s" "int s < 2 ^ 63" "- (2 ^ 63) \<le> int s + 32" by linarith+
    ultimately show "sint (word_of_int (int s) :: 64 word) = int s" "sint (word_of_int (int s + 32) :: 64 word) = int s + 32"
      "sint (big_Int64 (int (length com))) = int (length com)" "sint (big_Int64 (int (length pf))) = int (length pf)"
      by (simp_all only: sint_word_of_int64 sint_Int64 of_nat_0_le_iff)
  qed
  show ?thesis
    unfolding zkpRangeProof_Run_def Let_def nums(1-4) start sints nat_int nums(5) i(5,7)
    using len assms(7,11,12) by (simp add: s_def)
qed

section \<open>Results without panics\<close>

lemma no_error_Ok_iff [simp]: "no_error r = Ok x \<longleftrightarrow> r = Ok x"
  by (cases r) auto

lemma bind_outcome_not_Panic:
  "r \<noteq> Panic \<Longrightarrow> (\<And>x. r = Ok x \<Longrightarrow> f x \<noteq> Panic) \<Longrightarrow> bind_outcome r f \<noteq> Panic"
  by (cases r) auto

lemma getData_const:
  assumes "length inp < 2 ^ 63" "unat n < 2 ^ 63"
  shows "\<exists>d. no_error (getData inp start n) = Ok d \<and> length d = unat n"
  using assms by (simp add: getData_small)

lemma newCurvePoint_G1_cases:
  obtains (bad) e where "newCurvePoint_G1 blob = Err e"
  | (good) p where "newCurvePoint_G1 blob = Ok \<lparr>G1_p = Some p\<rparr>" "on_curve p" "cp_z p \<in> {0, 1}"
      "cp_x p < P" "cp_y p < P" "0 \<le> cp_x p" "0 \<le> cp_y p"
proof (cases "G1_Unmarshal \<lparr>G1_p = None\<rparr> blob")
  case (Pair g ok)
  show thesis
  proof (cases ok)
    case True
    then obtain p where p: "g = \<lparr>G1_p = Some p\<rparr>" "on_curve p" "cp_z p \<in> {0, 1}" "0 \<le> cp_x p" "0 \<le> cp_y p"
      using Pair by (auto simp: G1_Unmarshal_def Let_def on_curve_def curvePoint_IsInfinity_def IsOnCurve_iff split: if_splits)
    then have "newCurvePoint_G1 blob =
        (if cp_x p \<ge> P \<or> cp_y p \<ge> P then Err errInvalidCurvePoint else Ok \<lparr>G1_p = Some p\<rparr>)"
      using Pair True by (simp add: newCurvePoint_G1_def G1_CurvePoints_def)
    then show thesis using p good bad by (cases "cp_x p \<ge> P \<or> cp_y p \<ge> P") auto
  qed (use bad Pair in \<open>simp add: newCurvePoint_G1_def\<close>)
qed

lemma newTwistPoint_G2_cases:
  obtains (bad) e where "newTwistPoint_G2 blob = Err e"
  | (good) q where "newTwistPoint_G2 blob = Ok \<lparr>G2_p = Some q\<rparr>" "on_twist q" "t_valid q"
proof (cases "G2_Unmarshal \<lparr>G2_p = None\<rparr> blob")
  case (Pair g ok)
  show thesis
  proof (cases ok)
    case True
    then obtain q where q: "g = \<lparr>G2_p = Some q\<rparr>" "on_twist q" "t_valid q"
      using Pair IsZero_iff [of gfP2_SetZero]
      by (auto simp: G2_Unmarshal_def Let_def twist_IsOnCurve_iff gofield t_valid_def on_twist_def
          twistPoint_IsInfinity_def split: if_splits)
    then show thesis
      using Pair True good bad
      by (cases "newTwistPoint_G2 blob") (auto simp: newTwistPoint_G2_def G2_CurvePoints_def split: if_splits)
  qed (use bad Pair in \<open>simp add: newTwistPoint_G2_def\<close>)
qed

lemma bn256Add_not_Panic: "length inp < 2 ^ 63 \<Longrightarrow> bn256Add_Run inp \<noteq> Panic"
proof -
  assume len: "length inp < 2 ^ 63"
  obtain d e where de: "no_error (getData inp 0 64) = Ok d" "no_error (getData inp 64 64) = Ok e"
    using getData_const [OF len, of 64 0] getData_const [OF len, of 64 64] by auto
  show ?thesis
    by (cases rule: newCurvePoint_G1_cases [of d]; cases rule: newCurvePoint_G1_cases [of e])
      (simp_all add: bn256Add_Run_def de G1_Add_def G1_Marshal_def Let_def)
qed

lemma bn256ScalarMul_not_Panic: "length inp < 2 ^ 63 \<Longrightarrow> bn256ScalarMul_Run inp \<noteq> Panic"
proof -
  assume len: "length inp < 2 ^ 63"
  obtain d e where de: "no_error (getData inp 0 64) = Ok d" "no_error (getData inp 64 32) = Ok e"
    using getData_const [OF len, of 64 0] getData_const [OF len, of 32 64] by auto
  show ?thesis
    by (cases rule: newCurvePoint_G1_cases [of d])
      (simp_all add: bn256ScalarMul_Run_def de G1_ScalarMult_def G1_Marshal_def Let_def)
qed

section \<open>Encodings of points\<close>

text \<open>
  The points of the two curves, independent of the code that reads them: infinity, or two reduced coordinates that satisfy
  \<open>y\<^sup>2 = x\<^sup>3 + 3\<close> modulo \<open>P\<close>, and \<open>y\<^sup>2 = x\<^sup>3 + 3 / (i + 9)\<close> for the coordinates \<open>(x1, x0) = x1 i + x0\<close> of the twisted curve. A
  point is encoded by its coordinates as numbers of 32 bytes, infinity by zeros.
\<close>

type_synonym g1_affine = "(int \<times> int) option"
type_synonym g2_affine = "((int \<times> int) \<times> (int \<times> int)) option"

definition g1_valid :: "g1_affine \<Rightarrow> bool" where
  "g1_valid pt = (case pt of None \<Rightarrow> True | Some (x, y) \<Rightarrow> x \<in> {0..<P} \<and> y \<in> {0..<P} \<and> y ^ 2 mod P = (x ^ 3 + 3) mod P)"

definition g1_bytes :: "g1_affine \<Rightarrow> byte list" where
  "g1_bytes pt = (case pt of None \<Rightarrow> replicate 64 0 | Some (x, y) \<Rightarrow> be_bytes 32 x @ be_bytes 32 y)"

definition g1_point :: "g1_affine \<Rightarrow> curvePoint" where
  "g1_point pt = (case pt of None \<Rightarrow> \<lparr>cp_x = 0, cp_y = 1, cp_z = 0, cp_t = 0\<rparr> | Some (x, y) \<Rightarrow> \<lparr>cp_x = x, cp_y = y, cp_z = 1, cp_t = 1\<rparr>)"

definition g2_valid :: "g2_affine \<Rightarrow> bool" where
  "g2_valid pt =
     (case pt of None \<Rightarrow> True
      | Some ((x1, x0), (y1, y0)) \<Rightarrow>
          let x = Fp2 (of_int x1) (of_int x0); y = Fp2 (of_int y1) (of_int y0)
          in x1 \<in> {0..<P} \<and> x0 \<in> {0..<P} \<and> y1 \<in> {0..<P} \<and> y0 \<in> {0..<P} \<and> (y * y - x * x * x) * Fp2 1 9 = 3)"

definition g2_bytes :: "g2_affine \<Rightarrow> byte list" where
  "g2_bytes pt =
     (case pt of None \<Rightarrow> replicate 128 0
      | Some ((x1, x0), (y1, y0)) \<Rightarrow> be_bytes 32 x1 @ be_bytes 32 x0 @ be_bytes 32 y1 @ be_bytes 32 y0)"

definition g2_point :: "g2_affine \<Rightarrow> twistPoint" where
  "g2_point pt =
     (case pt of None \<Rightarrow> \<lparr>tp_x = gfP2_SetZero, tp_y = gfP2_SetOne, tp_z = gfP2_SetZero, tp_t = gfP2_SetZero\<rparr>
      | Some ((x1, x0), (y1, y0)) \<Rightarrow>
          \<lparr>tp_x = \<lparr>gfP2_x = x1, gfP2_y = x0\<rparr>, tp_y = \<lparr>gfP2_x = y1, gfP2_y = y0\<rparr>, tp_z = gfP2_SetOne, tp_t = gfP2_SetOne\<rparr>)"

lemma length_point_bytes [simp]: "length (g1_bytes pt) = 64" "length (g2_bytes pt') = 128"
  by (simp_all add: g1_bytes_def g2_bytes_def split: option.split)

lemma IsOnCurve_eq:
  "curvePoint_IsOnCurve \<lparr>cp_x = x, cp_y = y, cp_z = 1, cp_t = 1\<rparr> \<longleftrightarrow> y ^ 2 mod P = (x ^ 3 + 3) mod P"
proof -
  have "on_curve \<lparr>cp_x = x, cp_y = y, cp_z = 1, cp_t = 1\<rparr> \<longleftrightarrow> (of_int (y ^ 2) :: fp) = of_int (x ^ 3 + 3)"
    by (simp add: on_curve_def curvePoint_IsInfinity_def jac_on_def alpha1_def power2_eq_square power3_eq_cube)
  then show ?thesis by (simp add: IsOnCurve_iff fp_eq_iff del: of_int_add of_int_power)
qed

lemma three_fp2: "(3 :: fp2) = emb2 3"
proof -
  have "(3 :: fp2) = 1 + 1 + 1" by simp
  also have "\<dots> = emb2 3" unfolding one_fp2_def plus_fp2_def emb2_def by simp
  finally show ?thesis .
qed

text \<open>The constant of the twisted curve is the only solution of \<open>b (i + 9) = 3\<close>.\<close>

lemma twist_constant: "(c :: fp2) * Fp2 1 9 = 3 \<longleftrightarrow> c = alpha2 twistB"
proof
  have xi: "xi = Fp2 1 9" by (simp add: xi_def)
  assume c: "c * Fp2 1 9 = 3"
  define k where "k = (1 + 2 * P) div 3"
  have "emb2 (3 * k) = emb2 1" by (rule emb2_eqI [where q = 2]) (simp add: k_def P_def)
  then have k3: "3 * emb2 k = 1" unfolding three_fp2 emb2_mult by (simp add: emb2_def one_fp2_def)
  have "c = c * (alpha2 twistB * xi) * emb2 k" using k3 twistB_xi by (simp add: mult.assoc)
  also have "\<dots> = alpha2 twistB * (c * xi) * emb2 k" by (simp only: ac_simps)
  also have "\<dots> = alpha2 twistB" using c k3 by (simp add: xi mult.assoc)
  finally show "c = alpha2 twistB" .
qed (use twistB_xi in \<open>simp add: xi_def\<close>)

lemma twist_IsOnCurve_eq:
  "twistPoint_IsOnCurve \<lparr>tp_x = x, tp_y = y, tp_z = gfP2_SetOne, tp_t = gfP2_SetOne\<rparr> \<longleftrightarrow>
     (alpha2 y * alpha2 y - alpha2 x * alpha2 x * alpha2 x) * Fp2 1 9 = 3"
proof -
  have "\<not> gfP2_IsZero gfP2_SetOne" by (simp add: gfP2_IsZero_def gfP2_SetOne_def)
  then have "twistPoint_IsOnCurve \<lparr>tp_x = x, tp_y = y, tp_z = gfP2_SetOne, tp_t = gfP2_SetOne\<rparr> \<longleftrightarrow>
      alpha2 y * alpha2 y = alpha2 x * alpha2 x * alpha2 x + alpha2 twistB"
    by (simp add: twist_IsOnCurve_iff on_twist_def twistPoint_IsInfinity_def jac_on_def alphaT_def gofield)
  then show ?thesis unfolding twist_constant by (simp add: diff_eq_eq add.commute)
qed

text \<open>Every block of bytes is the encoding of the numbers that it holds.\<close>

lemma encoded_numbers: "length m = 32 * n \<Longrightarrow> \<exists>xs. m = encode xs \<and> length xs = n \<and> list_all fits256 xs"
proof (induction n arbitrary: m)
  case (Suc n)
  obtain xs where xs: "drop 32 m = encode xs" "length xs = n" "list_all fits256 xs" using Suc.IH [of "drop 32 m"] Suc.prems by auto
  let ?x = "big_SetBytes (take 32 m)"
  have len: "length (take 32 m) = 32" using Suc.prems by simp
  have "take 32 m = be_bytes 32 ?x" using be_bytes_SetBytes [of "take 32 m"] by (simp only: len)
  then have "m = encode (?x # xs)" using xs(1) append_take_drop_id [of 32 m] by (simp add: encode_def)
  moreover have "fits256 ?x" using SetBytes_less [of "take 32 m"] by (simp only: len fits256_def) simp
  ultimately show ?case using xs by (intro exI [of _ "?x # xs"]) simp
qed (simp add: encode_def)

lemma encode_zeros: "encode [0, 0] = replicate 64 0" "encode [0, 0, 0, 0] = replicate 128 0"
  by (simp_all add: encode_def be_bytes_0 flip: replicate_add)

lemma g1_bytes_encode: "g1_bytes (Some (x, y)) = encode [x, y]" "g1_bytes None = encode [0, 0]"
  by (simp_all add: g1_bytes_def encode_zeros) (simp add: encode_def)

lemma g2_bytes_encode: "g2_bytes (Some ((x1, x0), (y1, y0))) = encode [x1, x0, y1, y0]" "g2_bytes None = encode [0, 0, 0, 0]"
  by (simp_all add: g2_bytes_def encode_zeros) (simp add: encode_def)

text \<open>The decoders of the contracts accept exactly the encodings of the points.\<close>

lemma newCurvePoint_encode:
  assumes "fits256 x" "fits256 y"
  shows "newCurvePoint_G1 (encode [x, y]) =
    (if x = 0 \<and> y = 0 then Ok \<lparr>G1_p = Some (g1_point None)\<rparr>
     else if y ^ 2 mod P \<noteq> (x ^ 3 + 3) mod P then Err errNotOnCurve
     else if P \<le> x \<or> P \<le> y then Err errInvalidCurvePoint else Ok \<lparr>G1_p = Some (g1_point (Some (x, y)))\<rparr>)"
  using P_pos by (simp add: newCurvePoint_G1_def G1_Unmarshal_fits [OF assms] Let_def IsOnCurve_eq G1_CurvePoints_def g1_point_def P_def)

lemma newCurvePoint_iff:
  "newCurvePoint_G1 m = Ok g \<longleftrightarrow> (\<exists>pt. g1_valid pt \<and> m = g1_bytes pt \<and> g = \<lparr>G1_p = Some (g1_point pt)\<rparr>)"
proof
  assume ok: "newCurvePoint_G1 m = Ok g"
  then have "length m = 32 * 2" by (auto simp: newCurvePoint_G1_def G1_Unmarshal_def split: if_splits)
  then obtain xs where "m = encode xs" "length xs = 2" "list_all fits256 xs" using encoded_numbers by blast
  then obtain x y where xy: "m = encode [x, y]" "fits256 x" "fits256 y" by (auto simp: length_Suc_conv numeral_2_eq_2)
  show "\<exists>pt. g1_valid pt \<and> m = g1_bytes pt \<and> g = \<lparr>G1_p = Some (g1_point pt)\<rparr>"
  proof (cases "x = 0 \<and> y = 0")
    case True
    then show ?thesis using ok xy by (intro exI [of _ None]) (simp add: newCurvePoint_encode g1_valid_def g1_bytes_encode)
  next
    case False
    then show ?thesis
      using ok xy
      by (intro exI [of _ "Some (x, y)"]) (simp add: newCurvePoint_encode g1_valid_def g1_bytes_encode fits256_def not_le split: if_splits)
  qed
next
  assume "\<exists>pt. g1_valid pt \<and> m = g1_bytes pt \<and> g = \<lparr>G1_p = Some (g1_point pt)\<rparr>"
  then obtain pt where pt: "g1_valid pt" "m = g1_bytes pt" "g = \<lparr>G1_p = Some (g1_point pt)\<rparr>" by blast
  have "(0 :: int) mod P \<noteq> 3 mod P" by (simp add: P_def)
  then show "newCurvePoint_G1 m = Ok g"
    using pt by (auto simp: g1_valid_def g1_bytes_encode newCurvePoint_encode fits256_P not_le split: option.splits)
qed

lemma newTwistPoint_encode:
  assumes "fits256 x1" "fits256 x0" "fits256 y1" "fits256 y0"
  shows "newTwistPoint_G2 (encode [x1, x0, y1, y0]) =
    (let x = Fp2 (of_int x1) (of_int x0); y = Fp2 (of_int y1) (of_int y0)
     in if x1 = 0 \<and> x0 = 0 \<and> y1 = 0 \<and> y0 = 0 then Ok \<lparr>G2_p = Some (g2_point None)\<rparr>
        else if (y * y - x * x * x) * Fp2 1 9 \<noteq> 3 then Err errNotOnCurve
        else if P \<le> x1 \<or> P \<le> x0 \<or> P \<le> y1 \<or> P \<le> y0 then Err errInvalidCurvePoint
        else Ok \<lparr>G2_p = Some (g2_point (Some ((x1, x0), (y1, y0))))\<rparr>)"
proof -
  let ?x = "\<lparr>gfP2_x = x1, gfP2_y = x0\<rparr>" and ?y = "\<lparr>gfP2_x = y1, gfP2_y = y0\<rparr>"
  note u = G2_Unmarshal_fits [of ?x ?y "\<lparr>G2_p = None\<rparr>", simplified, OF conjI [OF assms(1,2)] conjI [OF assms(3,4)]]
  have z: "\<lparr>gfP2_x = a, gfP2_y = b\<rparr> = gfP2_SetZero \<longleftrightarrow> a = 0 \<and> b = 0" for a b by (simp add: gfP2_SetZero_def)
  have r: "gfP2_Real gfP2_SetOne < P" "gfP2_Imag gfP2_SetOne < P" "0 < P"
    by (simp_all add: gfP2_Real_def gfP2_Imag_def gfP2_SetOne_def P_def)
  show ?thesis
    unfolding newTwistPoint_G2_def u Let_def twist_IsOnCurve_eq z
    using r by (auto simp: G2_CurvePoints_def g2_point_def alpha2_def gfP2_Real_def gfP2_Imag_def gfP2_SetZero_def not_le)
qed

lemma newTwistPoint_iff:
  "newTwistPoint_G2 m = Ok g \<longleftrightarrow> (\<exists>pt. g2_valid pt \<and> m = g2_bytes pt \<and> g = \<lparr>G2_p = Some (g2_point pt)\<rparr>)"
proof
  assume ok: "newTwistPoint_G2 m = Ok g"
  then have "length m = 32 * 4" by (auto simp: newTwistPoint_G2_def G2_Unmarshal_def split: if_splits)
  then obtain xs where "m = encode xs" "length xs = 4" "list_all fits256 xs" using encoded_numbers by blast
  then obtain x1 x0 y1 y0 where xy: "m = encode [x1, x0, y1, y0]" "fits256 x1" "fits256 x0" "fits256 y1" "fits256 y0"
    by (auto simp: length_Suc_conv eval_nat_numeral)
  show "\<exists>pt. g2_valid pt \<and> m = g2_bytes pt \<and> g = \<lparr>G2_p = Some (g2_point pt)\<rparr>"
  proof (cases "x1 = 0 \<and> x0 = 0 \<and> y1 = 0 \<and> y0 = 0")
    case True
    then show ?thesis using ok xy by (intro exI [of _ None]) (simp add: newTwistPoint_encode g2_valid_def g2_bytes_encode)
  next
    case False
    then show ?thesis
      using ok xy
      by (intro exI [of _ "Some ((x1, x0), (y1, y0))"])
        (simp add: newTwistPoint_encode g2_valid_def g2_bytes_encode fits256_def not_le Let_def split: if_splits)
  qed
next
  assume "\<exists>pt. g2_valid pt \<and> m = g2_bytes pt \<and> g = \<lparr>G2_p = Some (g2_point pt)\<rparr>"
  then obtain pt where pt: "g2_valid pt" "m = g2_bytes pt" "g = \<lparr>G2_p = Some (g2_point pt)\<rparr>" by blast
  have "(of_int 3 :: fp) \<noteq> 0" by (simp only: fp_eq_0_iff) (simp add: P_def)
  then have "(3 :: fp2) \<noteq> 0" by (simp add: three_fp2 emb2_def zero_fp2_def)
  then have "(Fp2 0 0 * Fp2 0 0 - Fp2 0 0 * Fp2 0 0 * Fp2 0 0) * Fp2 1 9 \<noteq> 3" by (simp add: zero_fp2_def [symmetric])
  then show "newTwistPoint_G2 m = Ok g"
    using pt by (auto simp: g2_valid_def g2_bytes_encode newTwistPoint_encode fits256_P not_le Let_def split: option.splits)
qed

section \<open>The input of the pairing contract\<close>

definition encodes_pairs :: "byte list \<Rightarrow> (g1_affine \<times> g2_affine) list \<Rightarrow> bool" where
  "encodes_pairs inp ps \<longleftrightarrow>
     inp = concat (map (\<lambda>(p, q). g1_bytes p @ g2_bytes q) ps) \<and> list_all (\<lambda>(p, q). g1_valid p \<and> g2_valid q) ps"

lemma encodes_pairs_Nil: "encodes_pairs [] ps \<longleftrightarrow> ps = []"
proof (cases ps)
  case (Cons r ps')
  then have "length (concat (map (\<lambda>(p, q). g1_bytes p @ g2_bytes q) ps)) > 0" by (cases r) simp
  then show ?thesis by (auto simp: encodes_pairs_def Cons)
qed (simp add: encodes_pairs_def)

lemma encodes_pairs_Cons:
  "encodes_pairs inp ((p, q) # ps) \<longleftrightarrow> 192 \<le> length inp \<and> g1_valid p \<and> subslice inp 0 64 = g1_bytes p \<and>
     g2_valid q \<and> subslice inp 64 192 = g2_bytes q \<and> encodes_pairs (drop 192 inp) ps"
proof
  assume "encodes_pairs inp ((p, q) # ps)"
  then show "192 \<le> length inp \<and> g1_valid p \<and> subslice inp 0 64 = g1_bytes p \<and>
     g2_valid q \<and> subslice inp 64 192 = g2_bytes q \<and> encodes_pairs (drop 192 inp) ps"
    by (auto simp: encodes_pairs_def subslice_def)
next
  assume a: "192 \<le> length inp \<and> g1_valid p \<and> subslice inp 0 64 = g1_bytes p \<and>
     g2_valid q \<and> subslice inp 64 192 = g2_bytes q \<and> encodes_pairs (drop 192 inp) ps"
  have "inp = take 64 inp @ (take 128 (drop 64 inp) @ drop 128 (drop 64 inp))" by (simp only: append_take_drop_id)
  then have "inp = subslice inp 0 64 @ subslice inp 64 192 @ drop 192 inp" by (simp add: subslice_def)
  then show "encodes_pairs inp ((p, q) # ps)" using a by (simp add: encodes_pairs_def)
qed

lemma pairing_points_cases:
  assumes "192 dvd length inp"
  obtains (bad) e where "pairing_points inp cs ts = Err e" "\<And>ps. \<not> encodes_pairs inp ps"
  | (good) ps where "encodes_pairs inp ps"
      "pairing_points inp cs ts
        = Ok (cs @ map (\<lambda>(p, q). \<lparr>G1_p = Some (g1_point p)\<rparr>) ps, ts @ map (\<lambda>(p, q). \<lparr>G2_p = Some (g2_point q)\<rparr>) ps)"
  using assms
proof (induction inp cs ts arbitrary: thesis rule: pairing_points.induct)
  case (1 inp cs ts)
  note unf = pairing_points.simps [of inp cs ts]
  show ?case
  proof (cases "inp = []")
    case True
    then show ?thesis using "1.prems"(2) [of "[]"] unf by (simp add: encodes_pairs_Nil)
  next
    case False
    with "1.prems"(3) have len: "192 \<le> length inp" by (simp add: dvd_imp_le)
    have no: "\<exists>p q ps'. ps = (p, q) # ps'" if "encodes_pairs inp ps" for ps
      using that False by (cases ps) (auto simp: encodes_pairs_def)
    let ?c = "newCurvePoint_G1 (subslice inp 0 64)" and ?t = "newTwistPoint_G2 (subslice inp 64 192)"
    consider (ok) c t where "?c = Ok c" "?t = Ok t" | (fail) e where "?c = Err e \<or> (\<exists>c. ?c = Ok c) \<and> ?t = Err e"
      by (cases rule: newCurvePoint_G1_cases [of "subslice inp 0 64"]; cases rule: newTwistPoint_G2_cases [of "subslice inp 64 192"]) auto
    then show ?thesis
    proof cases
      case (ok c t)
      obtain p q where pq: "g1_valid p" "subslice inp 0 64 = g1_bytes p" "c = \<lparr>G1_p = Some (g1_point p)\<rparr>"
        "g2_valid q" "subslice inp 64 192 = g2_bytes q" "t = \<lparr>G2_p = Some (g2_point q)\<rparr>"
        using ok newCurvePoint_iff newTwistPoint_iff by metis
      show ?thesis
      proof (rule "1.IH" [OF False, where x = c and xa = t])
        show "192 dvd length (drop 192 inp)" using "1.prems"(3) len by (simp add: dvd_diff_nat)
      next
        fix e assume "pairing_points (drop 192 inp) (cs @ [c]) (ts @ [t]) = Err e" "\<And>ps. \<not> encodes_pairs (drop 192 inp) ps"
        then show ?thesis using "1.prems"(1) [of e] unf False ok no by (fastforce simp: encodes_pairs_Cons)
      next
        fix ps assume "encodes_pairs (drop 192 inp) ps" "pairing_points (drop 192 inp) (cs @ [c]) (ts @ [t]) =
          Ok ((cs @ [c]) @ map (\<lambda>(p, q). \<lparr>G1_p = Some (g1_point p)\<rparr>) ps, (ts @ [t]) @ map (\<lambda>(p, q). \<lparr>G2_p = Some (g2_point q)\<rparr>) ps)"
        then show ?thesis using "1.prems"(2) [of "(p, q) # ps"] unf False ok len pq by (simp add: encodes_pairs_Cons)
      qed
    next
      case (fail e)
      have "\<not> encodes_pairs inp ps" for ps
      proof
        assume e: "encodes_pairs inp ps"
        then obtain p q ps' where "ps = (p, q) # ps'" using no by blast
        then have "?c = Ok \<lparr>G1_p = Some (g1_point p)\<rparr>" "?t = Ok \<lparr>G2_p = Some (g2_point q)\<rparr>"
          using e newCurvePoint_iff newTwistPoint_iff by (auto simp: encodes_pairs_Cons)
        then show False using fail by auto
      qed
      then show ?thesis using "1.prems"(1) [of e] unf False fail by auto
    qed
  qed
qed

lemma finite_points:
  "finite_pairs (map (\<lambda>(p, q). (g1_point p, g2_point q)) ps)
     = map (\<lambda>(p, q). (g1_point p, g2_point q)) (filter (\<lambda>(p, q). p \<noteq> None \<and> q \<noteq> None) ps)"
proof (induction ps)
  case (Cons r ps)
  have "curvePoint_IsInfinity (g1_point p) \<longleftrightarrow> p = None" "twistPoint_IsInfinity (g2_point q) \<longleftrightarrow> q = None" for p q
    by (auto simp: g1_point_def g2_point_def curvePoint_IsInfinity_def twistPoint_IsInfinity_def gfP2_IsZero_def gfP2_SetZero_def
        gfP2_SetOne_def split: option.split)
  then show ?case using Cons by (cases r) (simp add: finite_pairs_def)
qed (simp add: finite_pairs_def)

section \<open>Honest packets\<close>

lemma honest_Run:
  assumes "random_fair rand" and "\<forall>bs. length (prim_sha256 prm bs) = 32"
    and "1 < N" "coprime g N" "coprime h N" and "0 \<le> lo" "lo \<le> x" "x \<le> up" "up < 2 ^ 256"
    and "commit \<lparr>getN = N, getG = g, getH = h\<rparr> x y = Ok com"
    and "length sel = 4" "length w = 32"
  shows "\<exists>packet n'.
    RangeproofPacket rand (prim_sha256 prm) \<lparr>getCommitment = com, getX = x, getY = y\<rparr> \<lparr>getStart = lo, getEnd = up\<rparr> n
      = Some (Ok (packet, n')) \<and>
    (\<forall>pad pad' inp. inp = abi_input sel lo up w (join_commas (map print_int [getCommitmentValue com, N, g, h])) pad packet pad' \<longrightarrow>
       length inp < 2 ^ 62 \<longrightarrow> Run prm zkpRangeProof inp = Ok true32Byte)"
proof -
  let ?cs = "[getCommitmentValue com, N, g, h]"
  obtain packet pf n' com' where
    pk: "RangeproofPacket rand (prim_sha256 prm) \<lparr>getCommitment = com, getX = x, getY = y\<rparr>
      \<lparr>getStart = lo, getEnd = up\<rparr> n = Some (Ok (packet, n'))"
    and pf: "ParseInput (prim_undef prm) packet = Ok pf"
    and v: "ValidateRangeProof (prim_sha256 prm) lo up ?cs pf = Ok (True, com')"
    using honest_packet [OF assms(1-5,7,8,10)] by blast
  have cs: "ParseInput (prim_undef prm) (join_commas (map print_int ?cs)) = Ok ?cs" by (rule parse_printed) simp
  have ne: "join_commas (map print_int ?cs) \<noteq> []" by simp
  have pne: "packet \<noteq> []"
    using pf v by (auto simp: ParseInput_def ValidateRangeProof_def ConvertToBigInt_def split: if_splits)
  have "Run prm zkpRangeProof inp = Ok true32Byte"
    if "inp = abi_input sel lo up w (join_commas (map print_int ?cs)) pad packet pad'" "length inp < 2 ^ 62" for inp pad pad'
    using zkp_Run_abi [OF assms(11,12,6) _ _ assms(9) ne pne that cs pf] v assms(6-9) by simp
  then show ?thesis using pk by blast
qed

lemma range_contract_address: "PrecompiledContractsMetropolis (BytesToAddress [9]) = Some zkpRangeProof" "BytesToAddress [9] = 9"
  by (simp_all add: PrecompiledContractsMetropolis_def BytesToAddress_def SetBytes_Cons)

lemma range_contract_runs:
  assumes "Run prm zkpRangeProof inp = Ok true32Byte" "180000 \<le> Gas c"
  shows "RunPrecompiledContract prm zkpRangeProof inp c = (Ok true32Byte, c\<lparr>Gas := Gas c - 180000\<rparr>)"
  using assms by (simp add: RunPrecompiledContract_def zkpRangeProof_RequiredGas_def UseGas_def not_less Let_def del: Run.simps)

section \<open>Properties\<close>

text \<open>C6: The range proof contract, called through the table at address 9 with the layout of a Solidity call: for a
  committed number inside the range, the packet of the demo server together with the printed commitment makes the
  contract return the word 1 and charge 180000 gas, whatever the padding of the byte arrays, as long as
  the input is a slice of less than \<open>2\<^sup>6\<^sup>2\<close> bytes.\<close>

theorem precompile_accepts_honest:
  assumes "random_fair rand" and "\<forall>bs. length (prim_sha256 prm bs) = 32"
    and "1 < N" "coprime g N" "coprime h N" and "0 \<le> lo" "lo \<le> x" "x \<le> up" "up < 2 ^ 256"
    and "commit \<lparr>getN = N, getG = g, getH = h\<rparr> x y = Ok com"
    and "length sel = 4" "length w = 32" "180000 \<le> Gas c"
  shows "\<exists>packet n'.
    RangeproofPacket rand (prim_sha256 prm) \<lparr>getCommitment = com, getX = x, getY = y\<rparr> \<lparr>getStart = lo, getEnd = up\<rparr> n
      = Some (Ok (packet, n')) \<and>
    (\<forall>pad pad'.
       let inp = abi_input sel lo up w (join_commas (map print_int [getCommitmentValue com, N, g, h])) pad packet pad'
       in 2 ^ 62 \<le> length inp \<or>
          map_option (\<lambda>p. RunPrecompiledContract prm p inp c) (PrecompiledContractsMetropolis (BytesToAddress [9]))
            = Some (Ok true32Byte, c\<lparr>Gas := Gas c - 180000\<rparr>))"
proof -
  obtain packet n' where
    pk: "RangeproofPacket rand (prim_sha256 prm) \<lparr>getCommitment = com, getX = x, getY = y\<rparr> \<lparr>getStart = lo, getEnd = up\<rparr> n = Some (Ok (packet, n'))"
    and run: "\<And>inp pad pad'. inp = abi_input sel lo up w (join_commas (map print_int [getCommitmentValue com, N, g, h])) pad packet pad' \<Longrightarrow>
      length inp < 2 ^ 62 \<Longrightarrow> Run prm zkpRangeProof inp = Ok true32Byte"
    using honest_Run [OF assms(1-12), of n] by blast
  have "2 ^ 62 \<le> length inp \<or> RunPrecompiledContract prm zkpRangeProof inp c = (Ok true32Byte, c\<lparr>Gas := Gas c - 180000\<rparr>)"
    if "inp = abi_input sel lo up w (join_commas (map print_int [getCommitmentValue com, N, g, h])) pad packet pad'" for inp pad pad'
    using range_contract_runs [OF run [OF that] assms(13)] by (meson not_le)
  then show ?thesis
    using pk range_contract_address(1) by (simp add: Let_def del: Run.simps)
qed

theorem precompile_accepts_honest_witness:
  "\<exists>packet n'.
    RangeproofPacket (\<lambda>n lo hi. (lo + hi) div 2) (\<lambda>bs. replicate 32 7)
      \<lparr>getCommitment = \<lparr>getGroup = \<lparr>getN = 35, getG = 4, getH = 9\<rparr>, getCommitmentValue = 11\<rparr>, getX = 18, getY = 2\<rparr>
      \<lparr>getStart = 18, getEnd = 200\<rparr> 0 = Some (Ok (packet, n')) \<and>
    (\<forall>pad pad'.
       let inp = abi_input [0, 0, 0, 0] 18 200 (replicate 32 0) (join_commas (map print_int [11, 35, 4, 9])) pad packet pad'
       in 2 ^ 62 \<le> length inp \<or> map_option (\<lambda>p. RunPrecompiledContract
           \<lparr>prim_sha256 = (\<lambda>bs. replicate 32 7), prim_ripemd160 = id, prim_keccak256 = id, prim_Ecrecover = (\<lambda>_ _. None),
            prim_undef = (\<lambda>_. 0)\<rparr> p inp (NewContract (AccountRef 0) (AccountRef 0) 0 200000))
           (PrecompiledContractsMetropolis (BytesToAddress [9]))
         = Some (Ok true32Byte, (NewContract (AccountRef 0) (AccountRef 0) 0 200000)\<lparr>Gas := 20000\<rparr>))"
proof -
  let ?com = "\<lparr>getGroup = \<lparr>getN = 35, getG = 4, getH = 9\<rparr>, getCommitmentValue = 11\<rparr>"
  have fair: "random_fair (\<lambda>n lo hi. (lo + hi) div 2)" by (simp add: random_fair_def)
  have cop: "coprime (4 :: int) 35" "coprime (9 :: int) 35" by code_simp+
  have com: "commit \<lparr>getN = 35, getG = 4, getH = 9\<rparr> 18 2 = Ok ?com" by code_simp
  show ?thesis
    using precompile_accepts_honest [OF fair _ _ cop _ _ _ _ com, of
        "\<lparr>prim_sha256 = (\<lambda>bs. replicate 32 7), prim_ripemd160 = id, prim_keccak256 = id, prim_Ecrecover = (\<lambda>_ _. None),
          prim_undef = (\<lambda>_. 0)\<rparr>" 18 200 "[0, 0, 0, 0]" "replicate 32 0" "NewContract (AccountRef 0) (AccountRef 0) 0 200000" 0]
    by (simp add: NewContract_def)
qed

text \<open>The range of \<open>startProof\<close> for which adding 32 wraps around.\<close>

lemma sint_plus_32:
  fixes w :: "64 word"
  shows "sint (w + 32) = (if sint w < 2 ^ 63 - 32 then sint w + 32 else sint w + 32 - 2 ^ 64)"
proof -
  have b: "- (2 ^ 63) \<le> sint w" "sint w < 2 ^ 63" using sint_greater_eq [of w] sint_lt [of w] by simp_all
  have w: "w + 32 = word_of_int (sint w + 32)" "w + 32 = word_of_int (sint w + 32 - 2 ^ 64)"
    by (simp_all add: wi_hom_syms)
  have "sint w < 2 ^ 63 - 32 \<Longrightarrow> sint (word_of_int (sint w + 32) :: 64 word) = sint w + 32"
    "\<not> sint w < 2 ^ 63 - 32 \<Longrightarrow> sint (word_of_int (sint w + 32 - 2 ^ 64) :: 64 word) = sint w + 32 - 2 ^ 64"
    using b by - (rule sint_word_of_int64; simp)+
  with w show ?thesis by presburger
qed

lemma ParseInput_not_Panic [simp]: "ParseInput undef s \<noteq> Panic"
  by (simp add: ParseInput_def parse_loop_fields Let_def)

lemma ValidateRangeProof_Ok [simp]:
  "ValidateRangeProof sha lo up com pf \<noteq> Panic" "ValidateRangeProof sha lo up com pf \<noteq> Err e"
proof -
  have "\<exists>r. ValidateRangeProof sha lo up com pf = Ok r"
    by (cases "length com < 4 \<or> length pf < 18") (auto simp: ValidateRangeProof_alt)
  then show "ValidateRangeProof sha lo up com pf \<noteq> Panic" "ValidateRangeProof sha lo up com pf \<noteq> Err e" by auto
qed

text \<open>C24: The range proof contract panics exactly when the offset of the proof, plus 4, is one of the 32 largest
  values of a signed 64-bit integer: the bound check adds 32 to it, wraps around and lets it pass, and the
  slice that follows fails. Every other input of at least 196 bytes gives a result or an error.\<close>

theorem range_contract_panics:
  assumes "length inp < 2 ^ 62"
  shows "zkpRangeProof_Run prm inp = Panic \<longleftrightarrow>
    196 \<le> length inp \<and> 2 ^ 63 - 32 \<le> sint (big_Int64 (big_SetBytes (subslice inp 100 132)) + 4)"
proof (cases "length inp < 196")
  case False
  define s where "s = big_Int64 (big_SetBytes (subslice inp 100 132)) + 4"
  have len: "int (length inp) < 2 ^ 62" using assms by (simp add: of_nat_less_numeral_power_cancel_iff)
  show ?thesis
  proof (cases "sint s < 2 ^ 63 - 32")
    case True
    then have "sint (s + 32) = sint s + 32" by (simp add: sint_plus_32)
    then show ?thesis
      using False True by (auto simp: zkpRangeProof_Run_def Let_def s_def [symmetric] split: outcome.splits)
  next
    case wrap: False
    then have "sint (s + 32) = sint s + 32 - 2 ^ 64" "sint s < 2 ^ 63"
      using sint_lt [of s] by (simp_all add: sint_plus_32)
    then show ?thesis
      using False wrap len by (simp add: zkpRangeProof_Run_def Let_def s_def [symmetric])
  qed
qed (simp add: zkpRangeProof_Run_def)

theorem range_contract_panics_witness:
  "zkpRangeProof_Run
     \<lparr>prim_sha256 = id, prim_ripemd160 = id, prim_keccak256 = id, prim_Ecrecover = (\<lambda>_ _. None), prim_undef = (\<lambda>_. 0)\<rparr>
     (replicate 100 0 @ be_bytes 32 (2 ^ 63 - 5) @ replicate 64 0) = Panic"
proof -
  let ?inp = "replicate 100 0 @ be_bytes 32 (2 ^ 63 - 5) @ replicate 64 0"
  have "subslice ?inp 100 132 = be_bytes 32 (2 ^ 63 - 5)" by (rule subslice_at) simp_all
  then have "big_SetBytes (subslice ?inp 100 132) = 2 ^ 63 - 5" by (simp add: SetBytes_be_bytes)
  moreover have "big_Int64 (2 ^ 63 - 5) + 4 = word_of_int (2 ^ 63 - 1)" by (simp add: big_Int64_def)
  moreover have "sint (word_of_int (2 ^ 63 - 1) :: 64 word) = 2 ^ 63 - 1" by (rule sint_word_of_int64) simp_all
  ultimately show ?thesis
    by (subst range_contract_panics) (simp_all del: sint_numeral)
qed

text \<open>C23: The pairing contract never panics. It returns a word exactly when its input is a sequence of blocks of 192 bytes, each the
  encoding of a point of the curve and a point of the twisted curve by reduced coordinates of 32 bytes (zeros for
  infinity), and the word tells whether the final exponentiation of the product of the Miller values of the pairs of
  finite points is one; on every other input it returns an error.\<close>

theorem pairing_contract:
  "(\<exists>e. bn256Pairing_Run inp = Err e \<and> (\<nexists>ps. encodes_pairs inp ps)) \<or>
   (\<exists>ps acc. encodes_pairs inp ps \<and>
      alpha12 acc = (\<Prod>(p, q) \<leftarrow> filter (\<lambda>(p, q). p \<noteq> None \<and> q \<noteq> None) ps. alpha12 (miller (g2_point q) (g1_point p))) \<and>
      bn256Pairing_Run inp = Ok (if alpha12 (finalExponentiation acc) = 1 then true32Byte else false32Byte))"
proof (cases "192 dvd length inp")
  case True
  then have m: "length inp mod 192 = 0" by simp
  show ?thesis
  proof (rule pairing_points_cases [OF True, of "[]" "[]"])
    fix ps
    let ?c = "map (\<lambda>(p, q). \<lparr>G1_p = Some (g1_point p)\<rparr>) ps" and ?t = "map (\<lambda>(p, q). \<lparr>G2_p = Some (g2_point q)\<rparr>) ps"
    assume good: "encodes_pairs inp ps" "pairing_points inp [] [] = Ok ([] @ ?c, [] @ ?t)"
    obtain acc where "pairing_loop ?c ?t gfP12_SetOne = Ok acc"
      "alpha12 acc = (\<Prod>(p, q) \<leftarrow> filter (\<lambda>(p, q). p \<noteq> None \<and> q \<noteq> None) ps. alpha12 (miller (g2_point q) (g1_point p)))"
      using pairing_loop_product [of ?c "map (\<lambda>(p, q). (g1_point p, g2_point q)) ps" ?t gfP12_SetOne]
      unfolding finite_points by (auto simp: gofield case_prod_unfold comp_def)
    then show ?thesis using good m by (auto simp: bn256Pairing_Run_def PairingCheck_def IsOne12_iff)
  qed (auto simp: bn256Pairing_Run_def m)
next
  case False
  have "192 dvd length (concat (map (\<lambda>(p, q). g1_bytes p @ g2_bytes q) ps))" for ps
    by (induction ps) auto
  then show ?thesis using False by (auto simp: bn256Pairing_Run_def dvd_eq_mod_eq_0 encodes_pairs_def)
qed

end
