(* ===== verification/StackMemory.thy ===== *)
theory StackMemory
  imports Contract
begin

text \<open>
  The working memory of the virtual machine: \<open>core/vm/stack.go\<close>, \<open>memory.go\<close>, \<open>intpool.go\<close>,
  \<open>stack_table.go\<close>, \<open>memory_table.go\<close>, \<open>gas.go\<close> and the price of memory in \<open>gas_table.go\<close>. A stack is the list
  of its numbers with the top first, so \<open>st.data[st.len()-n-1]\<close> is the element at index \<open>n\<close>. A slice of the memory past
  its length panics in the model; the interpreter resizes the memory before every access, so that the spare
  capacity of the Go slice is never seen.
\<close>

section \<open>Stack\<close>

type_synonym Stack = "int list"

definition newstack :: Stack where
  "newstack = []"

definition stack_push :: "int \<Rightarrow> Stack \<Rightarrow> Stack" where
  "stack_push d st = d # st"

definition stack_pushN :: "int list \<Rightarrow> Stack \<Rightarrow> Stack" where
  "stack_pushN ds st = rev ds @ st"

fun stack_pop :: "Stack \<Rightarrow> ('e, int \<times> Stack) outcome" where
  "stack_pop [] = Panic"
| "stack_pop (x # st) = Ok (x, st)"

definition stack_swap :: "nat \<Rightarrow> Stack \<Rightarrow> ('e, Stack) outcome" where
  "stack_swap n st =
     (if n = 0 \<or> length st < n then Panic else Ok (st[n - 1 := st ! 0, 0 := st ! (n - 1)]))"

definition stack_peek :: "Stack \<Rightarrow> ('e, int) outcome" where
  "stack_peek st = (if st = [] then Panic else Ok (st ! 0))"

definition Back :: "Stack \<Rightarrow> nat \<Rightarrow> ('e, int) outcome" where
  "Back st n = (if n < length st then Ok (st ! n) else Panic)"

definition stack_require :: "nat \<Rightarrow> Stack \<Rightarrow> (vm_error, unit) outcome" where
  "stack_require n st = (if length st < n then Err (errStackUnderflow (length st) n) else Ok ())"

section \<open>Pool of integers\<close>

text \<open>The numbers that are free to be used again, the last one first.\<close>

abbreviation poolLimit :: nat where
  "poolLimit \<equiv> 256"

definition intPool_get :: "Stack \<Rightarrow> int \<times> Stack" where
  "intPool_get p = (case p of [] \<Rightarrow> (0, p) | x # p' \<Rightarrow> (x, p'))"

definition intPool_put :: "int list \<Rightarrow> Stack \<Rightarrow> Stack" where
  "intPool_put is p = (if length p > poolLimit then p else stack_pushN is p)"

text \<open>The number taken from the pool is overwritten by the value at depth \<open>n\<close>.\<close>

definition stack_dup :: "Stack \<Rightarrow> nat \<Rightarrow> Stack \<Rightarrow> ('e, Stack \<times> Stack) outcome" where
  "stack_dup pool n st =
     (if n = 0 \<or> length st < n then Panic
      else Ok (snd (intPool_get pool), stack_push (st ! (n - 1)) st))"

section \<open>Validation of the stack\<close>

abbreviation StackLimit :: nat where
  "StackLimit \<equiv> 1024"

definition makeStackFunc :: "nat \<Rightarrow> nat \<Rightarrow> Stack \<Rightarrow> (vm_error, unit) outcome" where
  "makeStackFunc pop push st =
     bind_outcome (stack_require pop st) (\<lambda>_.
       if length st + push - pop > StackLimit then Err (errStackLimit (length st)) else Ok ())"

definition makeDupStackFunc :: "nat \<Rightarrow> Stack \<Rightarrow> (vm_error, unit) outcome" where
  "makeDupStackFunc n = makeStackFunc n (n + 1)"

definition makeSwapStackFunc :: "nat \<Rightarrow> Stack \<Rightarrow> (vm_error, unit) outcome" where
  "makeSwapStackFunc n = makeStackFunc n n"

section \<open>Memory\<close>

record Memory =
  store :: "byte list"
  lastGasCost :: uint64

definition NewMemory :: Memory where
  "NewMemory = \<lparr>store = [], lastGasCost = 0\<rparr>"

definition memory_Set :: "uint64 \<Rightarrow> uint64 \<Rightarrow> byte list \<Rightarrow> Memory \<Rightarrow> ('e, Memory) outcome" where
  "memory_Set offset sz val m =
     (if sz > of_nat (length (store m)) then Panic
      else if sz > 0 then
        (if offset + sz < offset \<or> length (store m) < unat (offset + sz) then Panic
         else Ok (m\<lparr>store := go_copy (store m) (unat offset) (take (unat sz) val)\<rparr>))
      else Ok m)"

definition Resize :: "uint64 \<Rightarrow> Memory \<Rightarrow> Memory" where
  "Resize sz m =
     (if of_nat (length (store m)) < sz
      then m\<lparr>store := store m @ replicate (unat (sz - of_nat (length (store m)))) 0\<rparr>
      else m)"

definition memory_Get :: "64 word \<Rightarrow> 64 word \<Rightarrow> Memory \<Rightarrow> ('e, byte list) outcome" where
  "memory_Get offset sz m =
     (if sz = 0 then Ok []
      else if int (length (store m)) > sint offset then
        (if sint sz < 0 \<or> sint offset < 0 \<or> sint (offset + sz) < sint offset \<or> int (length (store m)) < sint (offset + sz)
         then Panic
         else Ok (subslice (store m) (nat (sint offset)) (nat (sint (offset + sz)))))
      else Ok [])"

definition memory_GetPtr :: "64 word \<Rightarrow> 64 word \<Rightarrow> Memory \<Rightarrow> ('e, byte list) outcome" where
  "memory_GetPtr offset sz m =
     (if sz = 0 then Ok []
      else if int (length (store m)) > sint offset then
        (if sint offset < 0 \<or> sint (offset + sz) < sint offset \<or> int (length (store m)) < sint (offset + sz)
         then Panic
         else Ok (subslice (store m) (nat (sint offset)) (nat (sint (offset + sz)))))
      else Ok [])"

section \<open>Memory sizes of the operations\<close>

definition memory_span :: "nat \<Rightarrow> nat \<Rightarrow> Stack \<Rightarrow> ('e, int) outcome" where
  "memory_span i j st =
     bind_outcome (Back st i) (\<lambda>off. bind_outcome (Back st j) (\<lambda>l. Ok (calcMemSize off l)))"

definition memory_fixed :: "nat \<Rightarrow> int \<Rightarrow> Stack \<Rightarrow> ('e, int) outcome" where
  "memory_fixed i l st = bind_outcome (Back st i) (\<lambda>off. Ok (calcMemSize off l))"

definition memory_spans :: "nat \<Rightarrow> nat \<Rightarrow> nat \<Rightarrow> nat \<Rightarrow> Stack \<Rightarrow> ('e, int) outcome" where
  "memory_spans i j k l st =
     bind_outcome (memory_span i j st) (\<lambda>x. bind_outcome (memory_span k l st) (\<lambda>y. Ok (BigMax x y)))"

definition memorySha3 :: "Stack \<Rightarrow> ('e, int) outcome" where "memorySha3 = memory_span 0 1"
definition memoryCallDataCopy :: "Stack \<Rightarrow> ('e, int) outcome" where "memoryCallDataCopy = memory_span 0 2"
definition memoryReturnDataCopy :: "Stack \<Rightarrow> ('e, int) outcome" where "memoryReturnDataCopy = memory_span 0 2"
definition memoryCodeCopy :: "Stack \<Rightarrow> ('e, int) outcome" where "memoryCodeCopy = memory_span 0 2"
definition memoryExtCodeCopy :: "Stack \<Rightarrow> ('e, int) outcome" where "memoryExtCodeCopy = memory_span 1 3"
definition memoryMLoad :: "Stack \<Rightarrow> ('e, int) outcome" where "memoryMLoad = memory_fixed 0 32"
definition memoryMStore8 :: "Stack \<Rightarrow> ('e, int) outcome" where "memoryMStore8 = memory_fixed 0 1"
definition memoryMStore :: "Stack \<Rightarrow> ('e, int) outcome" where "memoryMStore = memory_fixed 0 32"
definition memoryCreate :: "Stack \<Rightarrow> ('e, int) outcome" where "memoryCreate = memory_span 1 2"
definition memoryCall :: "Stack \<Rightarrow> ('e, int) outcome" where "memoryCall = memory_spans 5 6 3 4"
definition memoryCallCode :: "Stack \<Rightarrow> ('e, int) outcome" where "memoryCallCode = memory_spans 5 6 3 4"
definition memoryDelegateCall :: "Stack \<Rightarrow> ('e, int) outcome" where "memoryDelegateCall = memory_spans 4 5 2 3"
definition memoryStaticCall :: "Stack \<Rightarrow> ('e, int) outcome" where "memoryStaticCall = memory_spans 4 5 2 3"
definition memoryReturn :: "Stack \<Rightarrow> ('e, int) outcome" where "memoryReturn = memory_span 0 1"
definition memoryRevert :: "Stack \<Rightarrow> ('e, int) outcome" where "memoryRevert = memory_span 0 1"
definition memoryLog :: "Stack \<Rightarrow> ('e, int) outcome" where "memoryLog = memory_span 0 1"

section \<open>Price of memory\<close>

abbreviation MemoryGas :: uint64 where "MemoryGas \<equiv> 3"
abbreviation QuadCoeffDiv :: uint64 where "QuadCoeffDiv \<equiv> 512"

definition memoryGasCost :: "Memory \<Rightarrow> uint64 \<Rightarrow> (vm_error, uint64 \<times> Memory) outcome" where
  "memoryGasCost mem newMemSize =
     (if newMemSize = 0 then Ok (0, mem)
      else if newMemSize > 0xffffffffe0 then Err errGasUintOverflow
      else
        let newMemSizeWords = toWordSize newMemSize;
            newMemSize = newMemSizeWords * 32
        in if newMemSize > of_nat (length (store mem)) then
             let square = newMemSizeWords * newMemSizeWords;
                 linCoef = newMemSizeWords * MemoryGas;
                 quadCoef = square div QuadCoeffDiv;
                 newTotalFee = linCoef + quadCoef;
                 fee = newTotalFee - lastGasCost mem
             in Ok (fee, mem\<lparr>lastGasCost := newTotalFee\<rparr>)
           else Ok (0, mem))"

section \<open>Facts on the memory\<close>

text \<open>The memory that the interpreter keeps: whole words, below 128 GiB, and the last price is that of its size.\<close>

definition mem_fee :: "nat \<Rightarrow> nat" where
  "mem_fee w = 3 * w + w * w div 512"

definition mem_ok :: "Memory \<Rightarrow> bool" where
  "mem_ok m \<longleftrightarrow> 32 dvd length (store m) \<and> length (store m) < 2 ^ 37 \<and>
     unat (lastGasCost m) = mem_fee (length (store m) div 32)"

lemma mem_ok_NewMemory [simp]: "mem_ok NewMemory"
  by (simp add: mem_ok_def NewMemory_def mem_fee_def)

lemma mem_fee_mono: "v \<le> w \<Longrightarrow> mem_fee v \<le> mem_fee w"
  unfolding mem_fee_def by (intro add_mono div_le_mono mult_le_mono) auto

lemma length_Resize:
  assumes "length (store m) < 2 ^ 63"
  shows "length (store (Resize sz m)) = max (length (store m)) (unat sz)"
  using unat_length [OF assms] by (auto simp: Resize_def unat_sub_if' word_less_nat_alt)

lemma store_Resize_lastGasCost [simp]: "lastGasCost (Resize sz m) = lastGasCost m"
  by (simp add: Resize_def)

lemma Resize_prefix: "take (length (store m)) (store (Resize sz m)) = store m"
  by (simp add: Resize_def)

text \<open>The price as the code computes it, as long as the square of the number of words fits.\<close>

lemma memory_fee_words:
  fixes w :: uint64
  assumes "unat w < 2 ^ 32"
  shows "unat (w * MemoryGas + w * w div QuadCoeffDiv) = mem_fee (unat w)"
proof -
  have "unat w * unat w < 2 ^ 32 * 2 ^ 32" using assms by (intro mult_strict_mono) simp_all
  then have sq: "unat (w * w) = unat w * unat w" by (subst unat_mult_lem [symmetric]) simp
  have lin: "unat (w * MemoryGas) = 3 * unat w"
    using assms by (subst unat_mult_lem [THEN iffD1]) simp_all
  have "unat w * unat w div 512 < 2 ^ 55"
    using \<open>unat w * unat w < 2 ^ 32 * 2 ^ 32\<close> by (simp add: div_less_iff_less_mult)
  then have "3 * unat w + unat w * unat w div 512 < 2 ^ 64" using assms by simp
  then show ?thesis
    unfolding mem_fee_def
    by (subst unat_add_lem [THEN iffD1]) (simp_all add: lin sq unat_div)
qed

lemma memoryGasCost_cases:
  assumes ok: "mem_ok m" and n: "unat n \<le> 2 ^ 37 - 32"
  obtains fee m' where "memoryGasCost m n = Ok (fee, m')" "store m' = store m"
    "mem_ok (Resize (toWordSize n * 32) m')"
    "unat fee + mem_fee (length (store m) div 32) = mem_fee (length (store (Resize (toWordSize n * 32) m')) div 32)"
    "length (store (Resize (toWordSize n * 32) m')) = max (length (store m)) (32 * ((unat n + 31) div 32))"
proof -
  define w where "w = toWordSize n"
  have w: "unat w = (unat n + 31) div 32" "unat w < 2 ^ 32" using n by (simp_all add: w_def unat_toWordSize)
  have w32: "unat (w * 32) = 32 * unat w" using w(2) by (subst unat_mult_lem [THEN iffD1]) simp_all
  have len: "length (store m) < 2 ^ 37" "32 dvd length (store m)" using ok by (simp_all add: mem_ok_def)
  have ul: "unat (of_nat (length (store m)) :: uint64) = length (store m)"
    using len by (intro unat_length) simp
  have lim: "\<not> n > 0xffffffffe0" using n by (simp add: word_less_nat_alt)
  have lenR: "length (store (Resize (w * 32) m')) = max (length (store m)) (32 * unat w)"
    if "store m' = store m" for m' :: Memory
    using that len w32 by (subst length_Resize) simp_all
  show thesis
  proof (cases "n \<noteq> 0 \<and> length (store m) < 32 * unat w")
    case True
    let ?fee = "w * MemoryGas + w * w div QuadCoeffDiv"
    let ?m = "m\<lparr>lastGasCost := ?fee\<rparr>"
    have fee: "unat ?fee = mem_fee (unat w)" by (rule memory_fee_words [OF w(2)])
    have c: "memoryGasCost m n = Ok (?fee - lastGasCost m, ?m)"
      using True lim by (simp add: memoryGasCost_def Let_def w_def [symmetric] word_less_nat_alt ul w32)
    have R: "length (store (Resize (w * 32) ?m)) = 32 * unat w" using True lenR [of ?m] by simp
    have old: "unat (lastGasCost m) = mem_fee (length (store m) div 32)" using ok by (simp add: mem_ok_def)
    have le: "mem_fee (length (store m) div 32) \<le> mem_fee (unat w)"
      using True by (intro mem_fee_mono) linarith
    then have "unat (?fee - lastGasCost m) + mem_fee (length (store m) div 32) = mem_fee (unat w)"
      using fee old by (subst unat_sub) (simp_all add: word_le_nat_alt)
    then show thesis
      using that [OF c] R fee w len True by (simp add: mem_ok_def w_def [symmetric])
  next
    case False
    then have le: "32 * unat w \<le> length (store m)" using w by (auto simp: unat_gt_0)
    have c: "memoryGasCost m n = Ok (0, m)"
      using False lim by (auto simp: memoryGasCost_def Let_def w_def [symmetric] word_less_nat_alt ul w32)
    have "Resize (w * 32) m = m" using le by (simp add: Resize_def word_less_nat_alt ul w32)
    then show thesis using that [OF c] ok le w(1) by (simp add: w_def [symmetric])
  qed
qed

text \<open>Writing and reading at numbers whose end is inside the memory.\<close>

lemma unat_big_Uint64: "0 \<le> x \<Longrightarrow> x < 2 ^ 64 \<Longrightarrow> unat (big_Uint64 x) = nat x"
  by (simp add: big_Uint64_def uint_word_of_int flip: nat_uint_eq)

lemma big_Int64_nonneg: "0 \<le> x \<Longrightarrow> big_Int64 x = big_Uint64 x"
  by (simp add: big_Int64_def big_Uint64_def)

lemma span_words:
  assumes "0 \<le> off" "0 < l" "off + l \<le> int n" "n < 2 ^ 63"
  shows "unat (big_Uint64 off) = nat off" "unat (big_Uint64 l) = nat l"
    "unat (big_Uint64 off + big_Uint64 l) = nat (off + l)"
    "sint (big_Uint64 off) = off" "sint (big_Uint64 l) = l" "sint (big_Uint64 off + big_Uint64 l) = off + l"
proof -
  have n: "int n < 2 ^ 63" using assms(4) by simp
  have b: "off < 2 ^ 63" "l < 2 ^ 63" "off + l < 2 ^ 63" using assms n by linarith+
  show u: "unat (big_Uint64 off) = nat off" "unat (big_Uint64 l) = nat l"
    using assms b by (simp_all add: unat_big_Uint64)
  then have "unat (big_Uint64 off) + unat (big_Uint64 l) < 2 ^ 64"
    using assms b by simp
  then show s: "unat (big_Uint64 off + big_Uint64 l) = nat (off + l)"
    using assms u by (subst unat_add_lem [THEN iffD1]) (simp_all add: nat_add_distrib)
  show "sint (big_Uint64 off) = off" "sint (big_Uint64 l) = l" "sint (big_Uint64 off + big_Uint64 l) = off + l"
    using assms b u s by (simp_all add: sint_small)
qed

lemma memory_Set_in_range:
  assumes "0 \<le> off" "0 < l" "off + l \<le> int (length (store m))" "length (store m) < 2 ^ 63"
  shows "memory_Set (big_Uint64 off) (big_Uint64 l) val m
    = Ok (m\<lparr>store := go_copy (store m) (nat off) (take (nat l) val)\<rparr>)"
  using assms unat_length [OF assms(4)] span_words [OF assms]
  by (simp add: memory_Set_def word_less_nat_alt) linarith

lemma memory_Get_in_range:
  assumes "0 \<le> off" "0 < l" "off + l \<le> int (length (store m))" "length (store m) < 2 ^ 63"
  shows "memory_Get (big_Int64 off) (big_Int64 l) m = Ok (subslice (store m) (nat off) (nat (off + l)))"
    and "memory_GetPtr (big_Int64 off) (big_Int64 l) m = Ok (subslice (store m) (nat off) (nat (off + l)))"
proof -
  note w = span_words [OF assms]
  have "big_Uint64 l \<noteq> 0" using w(2) assms(2) by auto
  then show "memory_Get (big_Int64 off) (big_Int64 l) m = Ok (subslice (store m) (nat off) (nat (off + l)))"
    "memory_GetPtr (big_Int64 off) (big_Int64 l) m = Ok (subslice (store m) (nat off) (nat (off + l)))"
    using assms w by (simp_all add: memory_Get_def memory_GetPtr_def big_Int64_nonneg)
qed

lemma makeStackFunc_Ok_iff:
  "makeStackFunc pop push st = Ok u \<longleftrightarrow> pop \<le> length st \<and> length st - pop + push \<le> StackLimit"
  by (auto simp: makeStackFunc_def stack_require_def)

lemma makeStackFunc_not_Panic [simp]: "makeStackFunc pop push st \<noteq> Panic"
  by (simp add: makeStackFunc_def stack_require_def)

lemma length_intPool_put: "length (intPool_put is p) \<le> max (length p) (poolLimit + length is)"
  by (simp add: intPool_put_def stack_pushN_def)

section \<open>Properties\<close>

text \<open>C28: Memory is paid for once: as long as it stays below \<open>2\<^sup>3\<^sup>7\<close> bytes, the fee for growing it is the difference
  between the price \<open>3 w + w\<^sup>2 / 512\<close> of the new and of the old number \<open>w\<close> of words, no intermediate value
  overflows, and the resized memory again has the price of its size recorded. What it held is kept.\<close>

theorem memory_gas_difference:
  assumes "mem_ok m" and "unat n \<le> 2 ^ 37 - 32"
  shows "\<exists>fee m'. memoryGasCost m n = Ok (fee, m') \<and> mem_ok (Resize (toWordSize n * 32) m') \<and>
    length (store (Resize (toWordSize n * 32) m')) = max (length (store m)) (32 * ((unat n + 31) div 32)) \<and>
    unat fee + mem_fee (length (store m) div 32) = mem_fee (length (store (Resize (toWordSize n * 32) m')) div 32) \<and>
    take (length (store m)) (store (Resize (toWordSize n * 32) m')) = store m"
proof -
  obtain fee m' where *: "memoryGasCost m n = Ok (fee, m')" "store m' = store m"
    and rest: "mem_ok (Resize (toWordSize n * 32) m')"
    "unat fee + mem_fee (length (store m) div 32) = mem_fee (length (store (Resize (toWordSize n * 32) m')) div 32)"
    "length (store (Resize (toWordSize n * 32) m')) = max (length (store m)) (32 * ((unat n + 31) div 32))"
    using assms by (rule memoryGasCost_cases)
  moreover have "take (length (store m)) (store (Resize (toWordSize n * 32) m')) = store m"
    using Resize_prefix [of m'] * by simp
  ultimately show ?thesis by blast
qed

theorem memory_gas_difference_witness:
  "\<exists>fee m'. memoryGasCost NewMemory 65 = Ok (fee, m') \<and> mem_ok (Resize (toWordSize 65 * 32) m') \<and>
    length (store (Resize (toWordSize 65 * 32) m')) = 96 \<and> unat fee = 9"
proof -
  obtain fee m' where "memoryGasCost NewMemory 65 = Ok (fee, m')" "mem_ok (Resize (toWordSize 65 * 32) m')"
    "length (store (Resize (toWordSize 65 * 32) m')) = max (length (store NewMemory)) (32 * ((unat (65 :: uint64) + 31) div 32))"
    "unat fee + mem_fee (length (store NewMemory) div 32) = mem_fee (length (store (Resize (toWordSize 65 * 32) m')) div 32)"
    using memory_gas_difference [of NewMemory 65] by auto
  then show ?thesis by (auto simp: mem_fee_def NewMemory_def)
qed

text \<open>The guard \<open>newMemSize > 0xffffffffe0\<close> does not keep the square of the number of words inside 64 bits, as the
  comment on it says: growing an empty memory to \<open>2\<^sup>3\<^sup>7\<close> bytes costs \<open>3 * 2\<^sup>3\<^sup>2\<close> gas, the quadratic part
  \<open>2\<^sup>5\<^sup>5\<close> is lost.\<close>

theorem memory_gas_wraps:
  "memoryGasCost NewMemory (2 ^ 37) = Ok (3 * 2 ^ 32, NewMemory\<lparr>lastGasCost := 3 * 2 ^ 32\<rparr>) \<and>
   mem_fee (2 ^ 32) = 3 * 2 ^ 32 + 2 ^ 55 \<and> (2 ^ 37 :: uint64) \<le> 0xffffffffe0"
  by (simp add: memoryGasCost_def NewMemory_def toWordSize_def max_uint64_def mem_fee_def)

text \<open>What is written to memory is read back: after the memory has been resized for an access at \<open>off\<close> of length
  \<open>l\<close>, \<open>Set\<close> does not panic, \<open>Get\<close> returns the value, and every byte outside of
  the span keeps its value.\<close>

theorem memory_set_get:
  assumes "0 \<le> off" "0 < l" "calcMemSize off l \<le> int (length (store m))" "length (store m) < 2 ^ 63"
    and "length val = nat l"
  shows "\<exists>m'. memory_Set (big_Uint64 off) (big_Uint64 l) val m = Ok m' \<and>
    memory_Get (big_Int64 off) (big_Int64 l) m' = Ok val \<and>
    (\<forall>i. i < nat off \<or> nat (off + l) \<le> i \<longrightarrow> store m' ! i = store m ! i) \<and> length (store m') = length (store m)"
proof -
  have in': "off + l \<le> int (length (store m))" using assms(2,3) by (simp add: calcMemSize_def)
  let ?m = "m\<lparr>store := go_copy (store m) (nat off) val\<rparr>"
  have off: "nat off \<le> length (store m)" "nat off + nat l \<le> length (store m)" "nat (off + l) = nat off + nat l"
    using in' assms(1,2) by linarith+
  have eq: "store ?m = take (nat off) (store m) @ val @ drop (nat off + nat l) (store m)"
    using off assms(5) by (simp add: go_copy_def)
  then have "subslice (store ?m) (nat off) (nat (off + l)) = val"
    using off assms(5) by (simp add: subslice_def)
  moreover have "store ?m ! i = store m ! i" if "i < nat off \<or> nat off + nat l \<le> i" for i
    unfolding eq using that off assms(5) by (auto simp: nth_append)
  ultimately show ?thesis
    using memory_Set_in_range [OF assms(1,2) in' assms(4), of val] memory_Get_in_range(1) [of off l ?m] assms in' off
    by (intro exI [of _ ?m]) auto
qed

theorem memory_set_get_witness:
  "\<exists>m'. memory_Set (big_Uint64 3) (big_Uint64 2) [7, 8] \<lparr>store = [0, 1, 2, 3, 4, 5, 6, 7], lastGasCost = 3\<rparr> = Ok m' \<and>
    memory_Get (big_Int64 3) (big_Int64 2) m' = Ok [7, 8] \<and> store m' ! 2 = 2 \<and> length (store m') = 8"
  using memory_set_get [of 3 2 "\<lparr>store = [0, 1, 2, 3, 4, 5, 6, 7], lastGasCost = 3\<rparr>" "[7, 8]"]
  by (fastforce simp: calcMemSize_def)

end
