(* ===== verification/StateDB.thy ===== *)
theory StateDB
  imports GoCommon
begin

text \<open>
  \<open>core/state/statedb.go\<close>, \<open>state_object.go\<close> and \<open>journal.go\<close>: the accounts as a transaction sees them, with
  the journal from which \<open>RevertToSnapshot\<close> undoes changes. The account trie is the map that \<open>TryGet\<close> and the
  decoding of its result give; the storage tries, the stored codes and the hash functions belong to a parameter
  \<open>bk\<close>. Errors of the database are not modelled. A pointer to a state object is only ever reached
  through the map of live objects, so an object is a value that is written back to the map.
\<close>

section \<open>Data\<close>

record Account =
  Nonce :: uint64
  Balance :: int
  Root :: hash
  acc_CodeHash :: hash

type_synonym Storage = "hash \<Rightarrow> hash option"

record stateObject =
  so_address :: address
  so_data :: Account
  so_trie :: "(hash \<Rightarrow> hash) option"
  so_code :: "byte list option"
  cachedStorage :: Storage
  dirtyStorage :: Storage
  dirtyCode :: bool
  suicided :: bool
  touched :: bool
  deleted :: bool
  onDirty :: bool

record backend =
  OpenStorageTrie :: "address \<Rightarrow> hash \<Rightarrow> hash \<Rightarrow> hash"
  ContractCode :: "address \<Rightarrow> hash \<Rightarrow> byte list"
  ContractCodeSize :: "address \<Rightarrow> hash \<Rightarrow> nat"
  Keccak256Hash :: "byte list \<Rightarrow> hash"
  trie_Hash :: "(hash \<Rightarrow> hash) \<Rightarrow> hash"

record Log =
  log_Address :: address
  log_Topics :: "hash list"
  log_Data :: "byte list"
  log_BlockNumber :: uint64
  log_TxHash :: hash
  log_TxIndex :: nat
  log_BlockHash :: hash
  log_Index :: nat
  log_Removed :: bool

datatype journalEntry =
    createObjectChange address
  | resetObjectChange stateObject
  | suicideChange address bool int
  | balanceChange address int
  | nonceChange address uint64
  | storageChange address hash hash
  | codeChange address "byte list option" hash
  | refundChange int
  | addLogChange hash
  | addPreimageChange hash
  | touchChange address bool bool

record StateDB =
  acc_trie :: "address \<Rightarrow> Account option"
  stateObjects :: "address \<Rightarrow> stateObject option"
  stateObjectsDirty :: "address set"
  refund :: int
  thash :: hash
  bhash :: hash
  txIndex :: nat
  logs :: "hash \<Rightarrow> Log list option"
  logSize :: nat
  preimages :: "hash \<Rightarrow> byte list option"
  journal :: "journalEntry list"
  validRevisions :: "(int \<times> nat) list"
  nextRevisionId :: int

section \<open>State objects\<close>

definition emptyCodeHash :: "backend \<Rightarrow> hash" where
  "emptyCodeHash bk = Keccak256Hash bk []"

definition obj_empty :: "backend \<Rightarrow> stateObject \<Rightarrow> bool" where
  "obj_empty bk c \<longleftrightarrow> Nonce (so_data c) = 0 \<and> Balance (so_data c) = 0 \<and> acc_CodeHash (so_data c) = emptyCodeHash bk"

definition newObject :: "address \<Rightarrow> Account \<Rightarrow> stateObject" where
  "newObject addr data =
     \<lparr>so_address = addr, so_data = data, so_trie = None, so_code = None, cachedStorage = Map.empty,
      dirtyStorage = Map.empty, dirtyCode = False, suicided = False, touched = False, deleted = False, onDirty = True\<rparr>"

text \<open>The account \<open>Account{}\<close>, for which \<open>newObject\<close> fills in the balance and the hash of the empty code.\<close>

definition zeroAccount :: "backend \<Rightarrow> Account" where
  "zeroAccount bk = \<lparr>Nonce = 0, Balance = 0, Root = 0, acc_CodeHash = emptyCodeHash bk\<rparr>"

definition setStateObject :: "stateObject \<Rightarrow> StateDB \<Rightarrow> StateDB" where
  "setStateObject c s = s\<lparr>stateObjects := (stateObjects s)(so_address c := Some c)\<rparr>"

definition MarkStateObjectDirty :: "address \<Rightarrow> StateDB \<Rightarrow> StateDB" where
  "MarkStateObjectDirty addr s = s\<lparr>stateObjectsDirty := insert addr (stateObjectsDirty s)\<rparr>"

text \<open>The call of \<open>onDirty\<close> that the setters end with, and the changed object in the map.\<close>

definition write_object :: "stateObject \<Rightarrow> StateDB \<Rightarrow> StateDB" where
  "write_object c s =
     (if onDirty c then setStateObject (c\<lparr>onDirty := False\<rparr>) (MarkStateObjectDirty (so_address c) s)
      else setStateObject c s)"

definition append_journal :: "journalEntry \<Rightarrow> StateDB \<Rightarrow> StateDB" where
  "append_journal e s = s\<lparr>journal := journal s @ [e]\<rparr>"

definition markSuicided :: "stateObject \<Rightarrow> stateObject" where
  "markSuicided c = c\<lparr>suicided := True\<rparr>"

definition touch :: "stateObject \<Rightarrow> StateDB \<Rightarrow> StateDB" where
  "touch c s = write_object (c\<lparr>touched := True\<rparr>)
     (append_journal (touchChange (so_address c) (touched c) (\<not> onDirty c)) s)"

definition getTrie :: "backend \<Rightarrow> stateObject \<Rightarrow> (hash \<Rightarrow> hash) \<times> stateObject" where
  "getTrie bk c =
     (case so_trie c of
        Some t \<Rightarrow> (t, c)
      | None \<Rightarrow> let t = OpenStorageTrie bk (so_address c) (Root (so_data c)) in (t, c\<lparr>so_trie := Some t\<rparr>))"

definition obj_GetState :: "backend \<Rightarrow> hash \<Rightarrow> stateObject \<Rightarrow> hash \<times> stateObject" where
  "obj_GetState bk key c =
     (case cachedStorage c key of
        Some v \<Rightarrow> (v, c)
      | None \<Rightarrow>
          (case getTrie bk c of
             (t, c) \<Rightarrow> if t key \<noteq> 0 then (t key, c\<lparr>cachedStorage := (cachedStorage c)(key \<mapsto> t key)\<rparr>) else (t key, c)))"

definition obj_setState :: "hash \<Rightarrow> hash \<Rightarrow> stateObject \<Rightarrow> StateDB \<Rightarrow> StateDB" where
  "obj_setState key val c s =
     write_object (c\<lparr>cachedStorage := (cachedStorage c)(key \<mapsto> val), dirtyStorage := (dirtyStorage c)(key \<mapsto> val)\<rparr>) s"

definition obj_SetState :: "backend \<Rightarrow> hash \<Rightarrow> hash \<Rightarrow> stateObject \<Rightarrow> StateDB \<Rightarrow> StateDB" where
  "obj_SetState bk key val c s =
     (case obj_GetState bk key c of
        (prev, c) \<Rightarrow> obj_setState key val c (append_journal (storageChange (so_address c) key prev) s))"

definition obj_setBalance :: "int \<Rightarrow> stateObject \<Rightarrow> StateDB \<Rightarrow> StateDB" where
  "obj_setBalance amount c s = write_object (c\<lparr>so_data := (so_data c)\<lparr>Balance := amount\<rparr>\<rparr>) s"

definition obj_SetBalance :: "int \<Rightarrow> stateObject \<Rightarrow> StateDB \<Rightarrow> StateDB" where
  "obj_SetBalance amount c s =
     obj_setBalance amount c (append_journal (balanceChange (so_address c) (Balance (so_data c))) s)"

definition obj_AddBalance :: "backend \<Rightarrow> int \<Rightarrow> stateObject \<Rightarrow> StateDB \<Rightarrow> StateDB" where
  "obj_AddBalance bk amount c s =
     (if amount = 0 then (if obj_empty bk c then touch c s else s)
      else obj_SetBalance (Balance (so_data c) + amount) c s)"

definition obj_SubBalance :: "int \<Rightarrow> stateObject \<Rightarrow> StateDB \<Rightarrow> StateDB" where
  "obj_SubBalance amount c s =
     (if amount = 0 then s else obj_SetBalance (Balance (so_data c) - amount) c s)"

definition obj_Code :: "backend \<Rightarrow> stateObject \<Rightarrow> byte list option \<times> stateObject" where
  "obj_Code bk c =
     (case so_code c of
        Some code \<Rightarrow> (Some code, c)
      | None \<Rightarrow>
          if acc_CodeHash (so_data c) = emptyCodeHash bk then (None, c)
          else let code = ContractCode bk (so_address c) (acc_CodeHash (so_data c)) in (Some code, c\<lparr>so_code := Some code\<rparr>))"

definition obj_setCode :: "hash \<Rightarrow> byte list option \<Rightarrow> stateObject \<Rightarrow> StateDB \<Rightarrow> StateDB" where
  "obj_setCode codeHash code c s =
     write_object (c\<lparr>so_code := code, so_data := (so_data c)\<lparr>acc_CodeHash := codeHash\<rparr>, dirtyCode := True\<rparr>) s"

definition obj_SetCode :: "backend \<Rightarrow> hash \<Rightarrow> byte list option \<Rightarrow> stateObject \<Rightarrow> StateDB \<Rightarrow> StateDB" where
  "obj_SetCode bk codeHash code c s =
     (case obj_Code bk c of
        (prevcode, c) \<Rightarrow>
          obj_setCode codeHash code c
            (append_journal (codeChange (so_address c) prevcode (acc_CodeHash (so_data c))) s))"

definition obj_setNonce :: "uint64 \<Rightarrow> stateObject \<Rightarrow> StateDB \<Rightarrow> StateDB" where
  "obj_setNonce nonce c s = write_object (c\<lparr>so_data := (so_data c)\<lparr>Nonce := nonce\<rparr>\<rparr>) s"

definition obj_SetNonce :: "uint64 \<Rightarrow> stateObject \<Rightarrow> StateDB \<Rightarrow> StateDB" where
  "obj_SetNonce nonce c s =
     obj_setNonce nonce c (append_journal (nonceChange (so_address c) (Nonce (so_data c))) s)"

section \<open>Looking up and creating objects\<close>

text \<open>An object that is not live is loaded from the trie and becomes live.\<close>

definition getStateObject :: "address \<Rightarrow> StateDB \<Rightarrow> stateObject option \<times> StateDB" where
  "getStateObject addr s =
     (case stateObjects s addr of
        Some obj \<Rightarrow> (if deleted obj then None else Some obj, s)
      | None \<Rightarrow>
          (case acc_trie s addr of
             None \<Rightarrow> (None, s)
           | Some data \<Rightarrow> let obj = newObject addr data in (Some obj, setStateObject obj s)))"

definition createObject :: "backend \<Rightarrow> address \<Rightarrow> StateDB \<Rightarrow> stateObject \<times> stateObject option \<times> StateDB" where
  "createObject bk addr s =
     (case getStateObject addr s of
        (prev, s) \<Rightarrow>
          let newobj = (newObject addr (zeroAccount bk))\<lparr>onDirty := False\<rparr>;
              s = MarkStateObjectDirty addr s;
              s = append_journal (case prev of None \<Rightarrow> createObjectChange addr | Some p \<Rightarrow> resetObjectChange p) s
          in (newobj, prev, setStateObject newobj s))"

definition GetOrNewStateObject :: "backend \<Rightarrow> address \<Rightarrow> StateDB \<Rightarrow> stateObject \<times> StateDB" where
  "GetOrNewStateObject bk addr s =
     (case getStateObject addr s of
        (Some obj, s) \<Rightarrow> (obj, s)
      | (None, s) \<Rightarrow> (case createObject bk addr s of (obj, _, s) \<Rightarrow> (obj, s)))"

definition CreateAccount :: "backend \<Rightarrow> address \<Rightarrow> StateDB \<Rightarrow> StateDB" where
  "CreateAccount bk addr s =
     (case createObject bk addr s of
        (new, None, s) \<Rightarrow> s
      | (new, Some prev, s) \<Rightarrow> obj_setBalance (Balance (so_data prev)) new s)"

section \<open>Queries\<close>

definition Exist :: "address \<Rightarrow> StateDB \<Rightarrow> bool \<times> StateDB" where
  "Exist addr s = (case getStateObject addr s of (obj, s) \<Rightarrow> (obj \<noteq> None, s))"

definition Empty :: "backend \<Rightarrow> address \<Rightarrow> StateDB \<Rightarrow> bool \<times> StateDB" where
  "Empty bk addr s =
     (case getStateObject addr s of (obj, s) \<Rightarrow> (case obj of None \<Rightarrow> True | Some so \<Rightarrow> obj_empty bk so, s))"

definition GetBalance :: "address \<Rightarrow> StateDB \<Rightarrow> int \<times> StateDB" where
  "GetBalance addr s =
     (case getStateObject addr s of (obj, s) \<Rightarrow> (case obj of None \<Rightarrow> 0 | Some so \<Rightarrow> Balance (so_data so), s))"

definition GetNonce :: "address \<Rightarrow> StateDB \<Rightarrow> uint64 \<times> StateDB" where
  "GetNonce addr s =
     (case getStateObject addr s of (obj, s) \<Rightarrow> (case obj of None \<Rightarrow> 0 | Some so \<Rightarrow> Nonce (so_data so), s))"

definition GetCode :: "backend \<Rightarrow> address \<Rightarrow> StateDB \<Rightarrow> byte list option \<times> StateDB" where
  "GetCode bk addr s =
     (case getStateObject addr s of
        (None, s) \<Rightarrow> (None, s)
      | (Some so, s) \<Rightarrow> (case obj_Code bk so of (code, so) \<Rightarrow> (code, setStateObject so s)))"

definition GetCodeSize :: "backend \<Rightarrow> address \<Rightarrow> StateDB \<Rightarrow> nat \<times> StateDB" where
  "GetCodeSize bk addr s =
     (case getStateObject addr s of
        (None, s) \<Rightarrow> (0, s)
      | (Some so, s) \<Rightarrow>
          (case so_code so of
             Some code \<Rightarrow> (length code, s)
           | None \<Rightarrow> (ContractCodeSize bk (so_address so) (acc_CodeHash (so_data so)), s)))"

definition GetCodeHash :: "address \<Rightarrow> StateDB \<Rightarrow> hash \<times> StateDB" where
  "GetCodeHash addr s =
     (case getStateObject addr s of (obj, s) \<Rightarrow> (case obj of None \<Rightarrow> 0 | Some so \<Rightarrow> acc_CodeHash (so_data so), s))"

definition GetState :: "backend \<Rightarrow> address \<Rightarrow> hash \<Rightarrow> StateDB \<Rightarrow> hash \<times> StateDB" where
  "GetState bk a b s =
     (case getStateObject a s of
        (None, s) \<Rightarrow> (0, s)
      | (Some so, s) \<Rightarrow> (case obj_GetState bk b so of (v, so) \<Rightarrow> (v, setStateObject so s)))"

definition HasSuicided :: "address \<Rightarrow> StateDB \<Rightarrow> bool \<times> StateDB" where
  "HasSuicided addr s =
     (case getStateObject addr s of (obj, s) \<Rightarrow> (case obj of None \<Rightarrow> False | Some so \<Rightarrow> suicided so, s))"

definition GetRefund :: "StateDB \<Rightarrow> int" where
  "GetRefund s = refund s"

definition GetLogs :: "hash \<Rightarrow> StateDB \<Rightarrow> Log list" where
  "GetLogs h s = (case logs s h of None \<Rightarrow> [] | Some ls \<Rightarrow> ls)"

section \<open>Changes\<close>

definition AddBalance :: "backend \<Rightarrow> address \<Rightarrow> int \<Rightarrow> StateDB \<Rightarrow> StateDB" where
  "AddBalance bk addr amount s = (case GetOrNewStateObject bk addr s of (so, s) \<Rightarrow> obj_AddBalance bk amount so s)"

definition SubBalance :: "backend \<Rightarrow> address \<Rightarrow> int \<Rightarrow> StateDB \<Rightarrow> StateDB" where
  "SubBalance bk addr amount s = (case GetOrNewStateObject bk addr s of (so, s) \<Rightarrow> obj_SubBalance amount so s)"

definition SetBalance :: "backend \<Rightarrow> address \<Rightarrow> int \<Rightarrow> StateDB \<Rightarrow> StateDB" where
  "SetBalance bk addr amount s = (case GetOrNewStateObject bk addr s of (so, s) \<Rightarrow> obj_SetBalance amount so s)"

definition SetNonce :: "backend \<Rightarrow> address \<Rightarrow> uint64 \<Rightarrow> StateDB \<Rightarrow> StateDB" where
  "SetNonce bk addr nonce s = (case GetOrNewStateObject bk addr s of (so, s) \<Rightarrow> obj_SetNonce nonce so s)"

definition db_SetCode :: "backend \<Rightarrow> address \<Rightarrow> byte list \<Rightarrow> StateDB \<Rightarrow> StateDB" where
  "db_SetCode bk addr code s =
     (case GetOrNewStateObject bk addr s of (so, s) \<Rightarrow> obj_SetCode bk (Keccak256Hash bk code) (Some code) so s)"

definition SetState :: "backend \<Rightarrow> address \<Rightarrow> hash \<Rightarrow> hash \<Rightarrow> StateDB \<Rightarrow> StateDB" where
  "SetState bk addr key val s = (case GetOrNewStateObject bk addr s of (so, s) \<Rightarrow> obj_SetState bk key val so s)"

definition Suicide :: "address \<Rightarrow> StateDB \<Rightarrow> bool \<times> StateDB" where
  "Suicide addr s =
     (case getStateObject addr s of
        (None, s) \<Rightarrow> (False, s)
      | (Some so, s) \<Rightarrow>
          let s = append_journal (suicideChange addr (suicided so) (Balance (so_data so))) s;
              so = markSuicided so
          in (True, write_object (so\<lparr>so_data := (so_data so)\<lparr>Balance := 0\<rparr>\<rparr>) s))"

definition AddRefund :: "int \<Rightarrow> StateDB \<Rightarrow> StateDB" where
  "AddRefund gas s = (let s = append_journal (refundChange (refund s)) s in s\<lparr>refund := refund s + gas\<rparr>)"

definition AddLog :: "Log \<Rightarrow> StateDB \<Rightarrow> StateDB" where
  "AddLog l s =
     (let s = append_journal (addLogChange (thash s)) s;
          l = l\<lparr>log_TxHash := thash s, log_BlockHash := bhash s, log_TxIndex := txIndex s, log_Index := logSize s\<rparr>
      in s\<lparr>logs := (logs s)(thash s \<mapsto> GetLogs (thash s) s @ [l]), logSize := logSize s + 1\<rparr>)"

definition AddPreimage :: "hash \<Rightarrow> byte list \<Rightarrow> StateDB \<Rightarrow> StateDB" where
  "AddPreimage h preimage s =
     (case preimages s h of
        Some _ \<Rightarrow> s
      | None \<Rightarrow> (append_journal (addPreimageChange h) s)\<lparr>preimages := (preimages s)(h \<mapsto> preimage)\<rparr>)"

definition Prepare :: "hash \<Rightarrow> hash \<Rightarrow> nat \<Rightarrow> StateDB \<Rightarrow> StateDB" where
  "Prepare th bh ti s = s\<lparr>thash := th, bhash := bh, txIndex := ti\<rparr>"

section \<open>Snapshots\<close>

text \<open>Undoing one entry; a method call on an object that is not there panics.\<close>

definition with_object :: "address \<Rightarrow> (stateObject \<Rightarrow> StateDB \<Rightarrow> StateDB) \<Rightarrow> StateDB \<Rightarrow> (unit, StateDB) outcome" where
  "with_object addr f s =
     (case getStateObject addr s of (None, s) \<Rightarrow> Panic | (Some so, s) \<Rightarrow> Ok (f so s))"

abbreviation ripemd :: address where
  "ripemd \<equiv> 3"

fun undo :: "journalEntry \<Rightarrow> StateDB \<Rightarrow> (unit, StateDB) outcome" where
  "undo (createObjectChange a) s =
     Ok (s\<lparr>stateObjects := (stateObjects s)(a := None), stateObjectsDirty := stateObjectsDirty s - {a}\<rparr>)"
| "undo (resetObjectChange prev) s = Ok (setStateObject prev s)"
| "undo (suicideChange a prev bal) s =
     (case getStateObject a s of
        (None, s) \<Rightarrow> Ok s
      | (Some so, s) \<Rightarrow> Ok (obj_setBalance bal (so\<lparr>suicided := prev\<rparr>) s))"
| "undo (balanceChange a prev) s = with_object a (obj_setBalance prev) s"
| "undo (nonceChange a prev) s = with_object a (obj_setNonce prev) s"
| "undo (storageChange a key prev) s = with_object a (obj_setState key prev) s"
| "undo (codeChange a prevcode prevhash) s = with_object a (obj_setCode prevhash prevcode) s"
| "undo (refundChange prev) s = Ok (s\<lparr>refund := prev\<rparr>)"
| "undo (addLogChange txhash) s =
     (case GetLogs txhash s of
        [] \<Rightarrow> Panic
      | [_] \<Rightarrow> Ok (s\<lparr>logs := (logs s)(txhash := None)\<rparr>)
      | ls \<Rightarrow> Ok (s\<lparr>logs := (logs s)(txhash \<mapsto> butlast ls)\<rparr>))"
| "undo (addPreimageChange h) s = Ok (s\<lparr>preimages := (preimages s)(h := None)\<rparr>)"
| "undo (touchChange a prev prevDirty) s =
     (if \<not> prev \<and> a \<noteq> ripemd then
        with_object a (\<lambda>so s.
          let s = setStateObject (so\<lparr>touched := prev\<rparr>) s
          in if prevDirty then s else s\<lparr>stateObjectsDirty := stateObjectsDirty s - {a}\<rparr>) s
      else Ok s)"

fun undo_all :: "journalEntry list \<Rightarrow> StateDB \<Rightarrow> (unit, StateDB) outcome" where
  "undo_all [] s = Ok s"
| "undo_all (e # es) s = bind_outcome (undo e s) (undo_all es)"

definition Snapshot :: "StateDB \<Rightarrow> int \<times> StateDB" where
  "Snapshot s =
     (let i = nextRevisionId s
      in (i, s\<lparr>nextRevisionId := i + 1, validRevisions := validRevisions s @ [(i, length (journal s))]\<rparr>))"

text \<open>The binary search of \<open>sort.Search\<close>.\<close>

function sort_Search_loop :: "(nat \<Rightarrow> bool) \<Rightarrow> nat \<Rightarrow> nat \<Rightarrow> nat" where
  "sort_Search_loop f i j =
     (if i < j then
        let h = i + (j - i) div 2
        in if \<not> f h then sort_Search_loop f (h + 1) j else sort_Search_loop f i h
      else i)"
  by pat_completeness auto
termination
  by (relation "measure (\<lambda>(f, i, j). j - i)") (auto simp: Let_def)

declare sort_Search_loop.simps [simp del]

definition sort_Search :: "nat \<Rightarrow> (nat \<Rightarrow> bool) \<Rightarrow> nat" where
  "sort_Search n f = sort_Search_loop f 0 n"

definition RevertToSnapshot :: "int \<Rightarrow> StateDB \<Rightarrow> (unit, StateDB) outcome" where
  "RevertToSnapshot revid s =
     (let idx = sort_Search (length (validRevisions s)) (\<lambda>i. fst (validRevisions s ! i) \<ge> revid)
      in if idx = length (validRevisions s) \<or> fst (validRevisions s ! idx) \<noteq> revid then Panic
         else
           let snapshot = snd (validRevisions s ! idx)
           in bind_outcome (undo_all (rev (drop snapshot (journal s))) s) (\<lambda>s.
                Ok (s\<lparr>journal := take snapshot (journal s), validRevisions := take idx (validRevisions s)\<rparr>)))"

section \<open>The end of a transaction\<close>

definition clearJournalAndRefund :: "StateDB \<Rightarrow> StateDB" where
  "clearJournalAndRefund s = s\<lparr>journal := [], validRevisions := [], refund := 0\<rparr>"

text \<open>Writing the changed slots of an object to its storage trie; a zero deletes the slot.\<close>

definition updateTrie :: "backend \<Rightarrow> stateObject \<Rightarrow> stateObject" where
  "updateTrie bk c =
     (case getTrie bk c of
        (t, c) \<Rightarrow> c\<lparr>so_trie := Some (\<lambda>k. case dirtyStorage c k of Some v \<Rightarrow> v | None \<Rightarrow> t k), dirtyStorage := Map.empty\<rparr>)"

definition updateRoot :: "backend \<Rightarrow> stateObject \<Rightarrow> stateObject" where
  "updateRoot bk c =
     (let c = updateTrie bk c
      in case so_trie c of
           None \<Rightarrow> c
         | Some t \<Rightarrow> c\<lparr>so_data := (so_data c)\<lparr>Root := trie_Hash bk t\<rparr>\<rparr>)"

definition updateStateObject :: "stateObject \<Rightarrow> StateDB \<Rightarrow> StateDB" where
  "updateStateObject c s = s\<lparr>acc_trie := (acc_trie s)(so_address c \<mapsto> so_data c)\<rparr>"

definition deleteStateObject :: "stateObject \<Rightarrow> StateDB \<Rightarrow> StateDB" where
  "deleteStateObject c s =
     setStateObject (c\<lparr>deleted := True\<rparr>) (s\<lparr>acc_trie := (acc_trie s)(so_address c := None)\<rparr>)"

text \<open>The loop of \<open>Finalise\<close> over the dirty addresses, in some order.\<close>

fun finalise_loop :: "backend \<Rightarrow> bool \<Rightarrow> address list \<Rightarrow> StateDB \<Rightarrow> (unit, StateDB) outcome" where
  "finalise_loop bk deleteEmptyObjects [] s = Ok s"
| "finalise_loop bk deleteEmptyObjects (addr # as) s =
     (case stateObjects s addr of
        None \<Rightarrow> Panic
      | Some so \<Rightarrow>
          finalise_loop bk deleteEmptyObjects as
            (if suicided so \<or> deleteEmptyObjects \<and> obj_empty bk so then deleteStateObject so s
             else let so = updateRoot bk so in updateStateObject so (setStateObject so s)))"

definition Finalise :: "backend \<Rightarrow> address list \<Rightarrow> bool \<Rightarrow> StateDB \<Rightarrow> (unit, StateDB) outcome" where
  "Finalise bk order deleteEmptyObjects s =
     bind_outcome (finalise_loop bk deleteEmptyObjects order s) (\<lambda>s. Ok (clearJournalAndRefund s))"

fun delete_suicides_loop :: "address list \<Rightarrow> StateDB \<Rightarrow> (unit, StateDB) outcome" where
  "delete_suicides_loop [] s = Ok s"
| "delete_suicides_loop (addr # as) s =
     (case stateObjects s addr of
        None \<Rightarrow> Panic
      | Some so \<Rightarrow>
          let s = (if suicided so then setStateObject (so\<lparr>deleted := True\<rparr>) s else s)
          in delete_suicides_loop as (s\<lparr>stateObjectsDirty := stateObjectsDirty s - {addr}\<rparr>))"

definition DeleteSuicides :: "address list \<Rightarrow> StateDB \<Rightarrow> (unit, StateDB) outcome" where
  "DeleteSuicides order s = delete_suicides_loop order (clearJournalAndRefund s)"

end
