(* ===== verification/Journal.thy ===== *)
theory Journal
  imports StateDB
begin

text \<open>
  What the journal of \<open>core/state\<close> promises: undoing the entries that a sequence of operations has
  appended gives back the accounts, the refund, the logs and the preimages of before. The concrete \<open>undo\<close> is shown
  to implement an undo on the observable state, so that the caches of the state objects need
  not be compared.
\<close>

named_theorems statedb \<open>how the operations act on the observable state\<close>

section \<open>Observable state\<close>

record acct =
  a_nonce :: uint64
  a_balance :: int
  a_root :: hash
  a_codehash :: hash
  a_code :: "byte list option"
  a_storage :: "hash \<Rightarrow> hash"
  a_suicided :: bool

definition acct_of :: "backend \<Rightarrow> stateObject \<Rightarrow> acct" where
  "acct_of bk c =
     \<lparr>a_nonce = Nonce (so_data c), a_balance = Balance (so_data c), a_root = Root (so_data c),
      a_codehash = acc_CodeHash (so_data c), a_code = fst (obj_Code bk c),
      a_storage = (\<lambda>k. fst (obj_GetState bk k c)), a_suicided = suicided c\<rparr>"

record observed =
  ob_account :: "address \<Rightarrow> acct option"
  ob_refund :: int
  ob_logs :: "hash \<Rightarrow> Log list"
  ob_preimages :: "hash \<Rightarrow> byte list option"
  ob_tx :: "hash \<times> hash \<times> nat"

definition observe :: "backend \<Rightarrow> StateDB \<Rightarrow> observed" where
  "observe bk s =
     \<lparr>ob_account = (\<lambda>a. map_option (acct_of bk) (fst (getStateObject a s))), ob_refund = refund s,
      ob_logs = (\<lambda>h. GetLogs h s), ob_preimages = preimages s, ob_tx = (thash s, bhash s, txIndex s)\<rparr>"

text \<open>The live objects are filed under their address, and a deleted one is not in the trie any more.\<close>

definition wf_objects :: "StateDB \<Rightarrow> bool" where
  "wf_objects s \<longleftrightarrow>
     (\<forall>a c. stateObjects s a = Some c \<longrightarrow> so_address c = a \<and> (deleted c \<longrightarrow> acc_trie s a = None))"

section \<open>Effect of the building blocks\<close>

lemma newObject_simps [simp]:
  "so_address (newObject a d) = a" "so_data (newObject a d) = d" "deleted (newObject a d) = False"
  "suicided (newObject a d) = False" "onDirty (newObject a d) = True"
  by (simp_all add: newObject_def)

lemma fst_obj_GetState:
  "fst (obj_GetState bk k c) =
     (case cachedStorage c k of
        Some v \<Rightarrow> v
      | None \<Rightarrow> (case so_trie c of Some t \<Rightarrow> t k | None \<Rightarrow> OpenStorageTrie bk (so_address c) (Root (so_data c)) k))"
  by (auto simp: obj_GetState_def getTrie_def Let_def split: option.split)

lemma fst_obj_Code:
  "fst (obj_Code bk c) =
     (case so_code c of
        Some code \<Rightarrow> Some code
      | None \<Rightarrow> if acc_CodeHash (so_data c) = emptyCodeHash bk then None
                 else Some (ContractCode bk (so_address c) (acc_CodeHash (so_data c))))"
  by (auto simp: obj_Code_def Let_def split: option.split)

lemmas acct_of_eq = acct_of_def fst_obj_GetState fst_obj_Code

lemma acct_of_irrelevant [simp]:
  "acct_of bk (c\<lparr>onDirty := b\<rparr>) = acct_of bk c" "acct_of bk (c\<lparr>touched := b\<rparr>) = acct_of bk c"
  "acct_of bk (c\<lparr>dirtyCode := b\<rparr>) = acct_of bk c" "acct_of bk (c\<lparr>dirtyStorage := d\<rparr>) = acct_of bk c"
  by (auto simp: acct_of_eq fun_eq_iff split: option.split)

lemma obj_Code_acct:
  "acct_of bk (snd (obj_Code bk c)) = acct_of bk c" "so_address (snd (obj_Code bk c)) = so_address c"
  "deleted (snd (obj_Code bk c)) = deleted c" "so_data (snd (obj_Code bk c)) = so_data c"
  by (auto simp: acct_of_eq obj_Code_def Let_def split: option.split)

lemma obj_GetState_acct:
  "acct_of bk (snd (obj_GetState bk k c)) = acct_of bk c" "so_address (snd (obj_GetState bk k c)) = so_address c"
  "deleted (snd (obj_GetState bk k c)) = deleted c" "so_data (snd (obj_GetState bk k c)) = so_data c"
  by (auto simp: acct_of_eq obj_GetState_def getTrie_def Let_def fun_eq_iff split: option.split)

lemma acct_of_set_balance:
  "acct_of bk (c\<lparr>so_data := (so_data c)\<lparr>Balance := b\<rparr>\<rparr>) = (acct_of bk c)\<lparr>a_balance := b\<rparr>"
  by (auto simp: acct_of_eq fun_eq_iff split: option.split)

lemma acct_of_set_nonce:
  "acct_of bk (c\<lparr>so_data := (so_data c)\<lparr>Nonce := n\<rparr>\<rparr>) = (acct_of bk c)\<lparr>a_nonce := n\<rparr>"
  by (auto simp: acct_of_eq fun_eq_iff split: option.split)

lemma acct_of_set_suicided: "acct_of bk (c\<lparr>suicided := b\<rparr>) = (acct_of bk c)\<lparr>a_suicided := b\<rparr>"
  by (auto simp: acct_of_eq fun_eq_iff split: option.split)

lemma acct_of_set_suicided_balance:
  "acct_of bk (c\<lparr>suicided := b, so_data := (so_data c)\<lparr>Balance := x\<rparr>\<rparr>)
     = (acct_of bk c)\<lparr>a_suicided := b, a_balance := x\<rparr>"
  using acct_of_set_balance [where c = "c\<lparr>suicided := b\<rparr>"] by (simp add: acct_of_set_suicided)

lemma acct_of_set_storage:
  "acct_of bk (c\<lparr>cachedStorage := (cachedStorage c)(k \<mapsto> v)\<rparr>)
     = (acct_of bk c)\<lparr>a_storage := (a_storage (acct_of bk c))(k := v)\<rparr>"
  by (auto simp: acct_of_eq fun_eq_iff split: option.split)

text \<open>A code that is not there has the hash of the empty code.\<close>

lemma acct_of_set_code:
  assumes "code = None \<Longrightarrow> h = emptyCodeHash bk"
  shows "acct_of bk (c\<lparr>so_code := code, so_data := (so_data c)\<lparr>acc_CodeHash := h\<rparr>\<rparr>)
     = (acct_of bk c)\<lparr>a_code := code, a_codehash := h\<rparr>"
  using assms
  by (auto simp: acct_of_eq fun_eq_iff split: option.split)

lemma obj_Code_None: "fst (obj_Code bk c) = None \<Longrightarrow> acc_CodeHash (so_data c) = emptyCodeHash bk"
  by (auto simp: obj_Code_def Let_def split: option.splits if_splits)

section \<open>Objects in the map\<close>

lemma getStateObject_same:
  "observe bk (snd (getStateObject a s)) = observe bk s" "journal (snd (getStateObject a s)) = journal s"
  "acc_trie (snd (getStateObject a s)) = acc_trie s"
  "validRevisions (snd (getStateObject a s)) = validRevisions s"
  "nextRevisionId (snd (getStateObject a s)) = nextRevisionId s"
  by (auto simp: getStateObject_def observe_def setStateObject_def Let_def GetLogs_def fun_eq_iff split: option.split)

lemma wf_getStateObject: "wf_objects s \<Longrightarrow> wf_objects (snd (getStateObject a s))"
  by (auto simp: getStateObject_def wf_objects_def setStateObject_def Let_def split: option.splits)

lemma getStateObject_obj:
  assumes "wf_objects s" "getStateObject a s = (Some c, s')"
  shows "so_address c = a" "\<not> deleted c" "ob_account (observe bk s) a = Some (acct_of bk c)"
  using assms by (auto simp: getStateObject_def wf_objects_def observe_def Let_def split: option.splits if_splits)

lemma getStateObject_None: "getStateObject a s = (None, s') \<Longrightarrow> ob_account (observe bk s) a = None \<and> s' = s"
  by (auto simp: getStateObject_def observe_def Let_def split: option.splits if_splits)

lemma observe_setStateObject:
  "observe bk (setStateObject c s) =
     (observe bk s)\<lparr>ob_account := (ob_account (observe bk s))(so_address c := if deleted c then None else Some (acct_of bk c))\<rparr>"
  by (auto simp: observe_def setStateObject_def getStateObject_def Let_def GetLogs_def fun_eq_iff split: option.split)

lemma observe_dirty [simp]:
  "observe bk (s\<lparr>stateObjectsDirty := d\<rparr>) = observe bk s" "observe bk (s\<lparr>journal := j\<rparr>) = observe bk s"
  "observe bk (s\<lparr>validRevisions := v\<rparr>) = observe bk s" "observe bk (s\<lparr>nextRevisionId := n\<rparr>) = observe bk s"
  "observe bk (s\<lparr>logSize := l\<rparr>) = observe bk s" "observe bk (s\<lparr>refund := r\<rparr>) = (observe bk s)\<lparr>ob_refund := r\<rparr>"
  "observe bk (s\<lparr>preimages := p\<rparr>) = (observe bk s)\<lparr>ob_preimages := p\<rparr>"
  "observe bk (s\<lparr>logs := ls\<rparr>) = (observe bk s)\<lparr>ob_logs := (\<lambda>h. case ls h of None \<Rightarrow> [] | Some l \<Rightarrow> l)\<rparr>"
  by (simp_all add: observe_def getStateObject_def setStateObject_def Let_def GetLogs_def fun_eq_iff split: option.split)

lemma observe_preimages: "ob_preimages (observe bk s) = preimages s"
  by (simp add: observe_def)

lemma observe_logs: "ob_logs (observe bk s) = (\<lambda>h. GetLogs h s)"
  by (simp add: observe_def)

lemma acct_of_self [simp]:
  "(acct_of bk c)\<lparr>a_balance := Balance (so_data c)\<rparr> = acct_of bk c"
  "(acct_of bk c)\<lparr>a_nonce := Nonce (so_data c)\<rparr> = acct_of bk c"
  "(acct_of bk c)\<lparr>a_suicided := suicided c, a_balance := Balance (so_data c)\<rparr> = acct_of bk c"
  "(acct_of bk c)\<lparr>a_code := fst (obj_Code bk c), a_codehash := acc_CodeHash (so_data c)\<rparr> = acct_of bk c"
  "(acct_of bk c)\<lparr>a_storage := (a_storage (acct_of bk c))(k := fst (obj_GetState bk k c))\<rparr> = acct_of bk c"
  by (simp_all add: acct_of_def fun_upd_idem)

lemma observe_append_journal [simp]: "observe bk (append_journal e s) = observe bk s"
  by (simp add: append_journal_def)

lemma observe_write_object:
  "observe bk (write_object c s) =
     (observe bk s)\<lparr>ob_account := (ob_account (observe bk s))(so_address c := if deleted c then None else Some (acct_of bk c))\<rparr>"
  by (simp add: write_object_def observe_setStateObject MarkStateObjectDirty_def)

lemma write_fields [simp]:
  "journal (setStateObject c s) = journal s" "acc_trie (setStateObject c s) = acc_trie s"
  "validRevisions (setStateObject c s) = validRevisions s" "nextRevisionId (setStateObject c s) = nextRevisionId s"
  "journal (write_object c s) = journal s" "acc_trie (write_object c s) = acc_trie s"
  "validRevisions (write_object c s) = validRevisions s" "nextRevisionId (write_object c s) = nextRevisionId s"
  "journal (append_journal e s) = journal s @ [e]" "acc_trie (append_journal e s) = acc_trie s"
  "validRevisions (append_journal e s) = validRevisions s" "nextRevisionId (append_journal e s) = nextRevisionId s"
  "journal (MarkStateObjectDirty a s) = journal s" "acc_trie (MarkStateObjectDirty a s) = acc_trie s"
  "validRevisions (MarkStateObjectDirty a s) = validRevisions s"
  "nextRevisionId (MarkStateObjectDirty a s) = nextRevisionId s"
  by (simp_all add: setStateObject_def write_object_def append_journal_def MarkStateObjectDirty_def)

lemma append_journal_fields [simp]:
  "refund (append_journal e s) = refund s" "logs (append_journal e s) = logs s" "preimages (append_journal e s) = preimages s"
  "thash (append_journal e s) = thash s" "bhash (append_journal e s) = bhash s" "txIndex (append_journal e s) = txIndex s"
  "logSize (append_journal e s) = logSize s" "GetLogs h (append_journal e s) = GetLogs h s"
  by (simp_all add: append_journal_def GetLogs_def)

lemma observe_self [simp]:
  "(observe bk s)\<lparr>ob_refund := refund s\<rparr> = observe bk s" "(observe bk s)\<lparr>ob_preimages := preimages s\<rparr> = observe bk s"
  "(observe bk s)\<lparr>ob_logs := (\<lambda>h. GetLogs h s)\<rparr> = observe bk s"
  by (simp_all add: observe_def)

lemma wf_write:
  assumes "wf_objects s" "\<not> deleted c"
  shows "wf_objects (setStateObject c s)" "wf_objects (write_object c s)"
  using assms by (auto simp: wf_objects_def setStateObject_def write_object_def MarkStateObjectDirty_def)

lemma wf_fields [simp]:
  "wf_objects (append_journal e s) = wf_objects s" "wf_objects (MarkStateObjectDirty a s) = wf_objects s"
  "wf_objects (s\<lparr>refund := r\<rparr>) = wf_objects s" "wf_objects (s\<lparr>logs := l\<rparr>) = wf_objects s"
  "wf_objects (s\<lparr>preimages := p\<rparr>) = wf_objects s" "wf_objects (s\<lparr>logSize := n\<rparr>) = wf_objects s"
  "wf_objects (s\<lparr>journal := j\<rparr>) = wf_objects s" "wf_objects (s\<lparr>validRevisions := v\<rparr>) = wf_objects s"
  "wf_objects (s\<lparr>nextRevisionId := i\<rparr>) = wf_objects s" "wf_objects (s\<lparr>stateObjectsDirty := d\<rparr>) = wf_objects s"
  by (simp_all add: wf_objects_def append_journal_def MarkStateObjectDirty_def)

section \<open>Undoing observable changes\<close>

fun undoable :: "backend \<Rightarrow> journalEntry \<Rightarrow> observed \<Rightarrow> bool" where
  "undoable bk (createObjectChange a) ob = True"
| "undoable bk (resetObjectChange prev) ob = (\<not> deleted prev)"
| "undoable bk (suicideChange a prev bal) ob = True"
| "undoable bk (balanceChange a prev) ob = (ob_account ob a \<noteq> None)"
| "undoable bk (nonceChange a prev) ob = (ob_account ob a \<noteq> None)"
| "undoable bk (storageChange a key prev) ob = (ob_account ob a \<noteq> None)"
| "undoable bk (codeChange a prevcode prevhash) ob =
     (ob_account ob a \<noteq> None \<and> (prevcode = None \<longrightarrow> prevhash = emptyCodeHash bk))"
| "undoable bk (refundChange prev) ob = True"
| "undoable bk (addLogChange h) ob = (ob_logs ob h \<noteq> [])"
| "undoable bk (addPreimageChange h) ob = True"
| "undoable bk (touchChange a prev prevDirty) ob = (ob_account ob a \<noteq> None)"

definition on_account :: "address \<Rightarrow> (acct \<Rightarrow> acct) \<Rightarrow> observed \<Rightarrow> observed" where
  "on_account a f ob = ob\<lparr>ob_account := (ob_account ob)(a := map_option f (ob_account ob a))\<rparr>"

fun undo_obs :: "backend \<Rightarrow> journalEntry \<Rightarrow> observed \<Rightarrow> observed" where
  "undo_obs bk (createObjectChange a) ob = ob\<lparr>ob_account := (ob_account ob)(a := None)\<rparr>"
| "undo_obs bk (resetObjectChange prev) ob = ob\<lparr>ob_account := (ob_account ob)(so_address prev := Some (acct_of bk prev))\<rparr>"
| "undo_obs bk (suicideChange a prev bal) ob = on_account a (\<lambda>x. x\<lparr>a_suicided := prev, a_balance := bal\<rparr>) ob"
| "undo_obs bk (balanceChange a prev) ob = on_account a (\<lambda>x. x\<lparr>a_balance := prev\<rparr>) ob"
| "undo_obs bk (nonceChange a prev) ob = on_account a (\<lambda>x. x\<lparr>a_nonce := prev\<rparr>) ob"
| "undo_obs bk (storageChange a key prev) ob = on_account a (\<lambda>x. x\<lparr>a_storage := (a_storage x)(key := prev)\<rparr>) ob"
| "undo_obs bk (codeChange a prevcode prevhash) ob = on_account a (\<lambda>x. x\<lparr>a_code := prevcode, a_codehash := prevhash\<rparr>) ob"
| "undo_obs bk (refundChange prev) ob = ob\<lparr>ob_refund := prev\<rparr>"
| "undo_obs bk (addLogChange h) ob = ob\<lparr>ob_logs := (ob_logs ob)(h := butlast (ob_logs ob h))\<rparr>"
| "undo_obs bk (addPreimageChange h) ob = ob\<lparr>ob_preimages := (ob_preimages ob)(h := None)\<rparr>"
| "undo_obs bk (touchChange a prev prevDirty) ob = ob"

text \<open>The parts of the state that undoing does not touch.\<close>

definition same_frame :: "StateDB \<Rightarrow> StateDB \<Rightarrow> bool" where
  "same_frame s t \<longleftrightarrow> journal t = journal s \<and> acc_trie t = acc_trie s \<and> validRevisions t = validRevisions s \<and>
     nextRevisionId t = nextRevisionId s"

lemma lookup_cases:
  assumes "wf_objects s"
  obtains (none) "getStateObject a s = (None, s)" "ob_account (observe bk s) a = None"
  | (obj) c s' where "getStateObject a s = (Some c, s')" "so_address c = a" "\<not> deleted c"
      "ob_account (observe bk s) a = Some (acct_of bk c)" "observe bk s' = observe bk s" "wf_objects s'" "same_frame s s'"
proof (cases "getStateObject a s")
  case (Pair r s')
  show thesis
  proof (cases r)
    case None
    then show thesis using none Pair getStateObject_None [of a s s' bk] by simp
  next
    case (Some c)
    have "observe bk s' = observe bk s" "wf_objects s'" "same_frame s s'"
      using getStateObject_same [where a = a and s = s] wf_getStateObject [OF assms, of a] Pair
      by (simp_all add: same_frame_def)
    then show thesis using obj Pair Some getStateObject_obj [OF assms, of a c s'] by blast
  qed
qed

lemma undo_refines:
  assumes "wf_objects s" "undoable bk e (observe bk s)" "\<forall>a. e = createObjectChange a \<longrightarrow> acc_trie s a = None"
  shows "\<exists>s'. undo e s = Ok s' \<and> observe bk s' = undo_obs bk e (observe bk s) \<and> wf_objects s' \<and> same_frame s s'"
proof (cases e)
  case (createObjectChange a)
  then have "observe bk (s\<lparr>stateObjects := (stateObjects s)(a := None), stateObjectsDirty := stateObjectsDirty s - {a}\<rparr>)
    = undo_obs bk e (observe bk s)"
    using assms(3) by (auto simp: observe_def getStateObject_def Let_def GetLogs_def fun_eq_iff split: option.split)
  then show ?thesis using createObjectChange assms(1) by (auto simp: wf_objects_def same_frame_def)
next
  case (resetObjectChange prev)
  then show ?thesis
    using assms wf_write by (simp add: observe_setStateObject same_frame_def)
next
  case (suicideChange a prev bal)
  show ?thesis
    by (rule lookup_cases [OF assms(1), of a bk])
      (use suicideChange assms in \<open>simp_all add: obj_setBalance_def observe_write_object acct_of_set_suicided_balance
        on_account_def wf_write same_frame_def fun_upd_idem\<close>)
next
  case (balanceChange a prev)
  show ?thesis
    by (rule lookup_cases [OF assms(1), of a bk])
      (use balanceChange assms in \<open>simp_all add: with_object_def obj_setBalance_def observe_write_object acct_of_set_balance
        on_account_def wf_write same_frame_def\<close>)
next
  case (nonceChange a prev)
  show ?thesis
    by (rule lookup_cases [OF assms(1), of a bk])
      (use nonceChange assms in \<open>simp_all add: with_object_def obj_setNonce_def observe_write_object acct_of_set_nonce
        on_account_def wf_write same_frame_def\<close>)
next
  case (storageChange a key prev)
  show ?thesis
    by (rule lookup_cases [OF assms(1), of a bk])
      (use storageChange assms in \<open>simp_all add: with_object_def obj_setState_def observe_write_object acct_of_set_storage
        on_account_def wf_write same_frame_def\<close>)
next
  case (codeChange a prevcode prevhash)
  show ?thesis
    by (rule lookup_cases [OF assms(1), of a bk])
      (use codeChange assms in \<open>simp_all add: with_object_def obj_setCode_def observe_write_object acct_of_set_code
        on_account_def wf_write same_frame_def\<close>)
next
  case (addLogChange h)
  define ls where "ls = GetLogs h s"
  have ne: "ls \<noteq> []" using addLogChange assms(2) by (simp add: observe_logs ls_def)
  let ?m = "(logs s)(h := (case ls of [_] \<Rightarrow> None | _ \<Rightarrow> Some (butlast ls)))"
  have "(\<lambda>h. case ?m h of None \<Rightarrow> [] | Some l \<Rightarrow> l) = (\<lambda>h. GetLogs h s)(h := butlast ls)"
    using ne by (auto simp: fun_eq_iff GetLogs_def split: list.split)
  moreover have "undo e s = Ok (s\<lparr>logs := ?m\<rparr>)"
    using ne addLogChange by (auto simp: ls_def [symmetric] split: list.split)
  ultimately show ?thesis
    using addLogChange assms(1) by (simp add: observe_logs same_frame_def ls_def [symmetric])
next
  case (touchChange a prev prevDirty)
  show ?thesis
    by (rule lookup_cases [OF assms(1), of a bk])
      (use touchChange assms in \<open>auto simp: with_object_def Let_def observe_setStateObject wf_write same_frame_def fun_upd_idem\<close>)
qed (use assms in \<open>simp_all add: same_frame_def observe_preimages\<close>)

section \<open>Chains of entries\<close>

fun undo_chain :: "backend \<Rightarrow> journalEntry list \<Rightarrow> observed \<Rightarrow> observed option" where
  "undo_chain bk [] ob = Some ob"
| "undo_chain bk (e # es) ob = (if undoable bk e ob then undo_chain bk es (undo_obs bk e ob) else None)"

lemma undo_chain_append:
  "undo_chain bk (es @ fs) ob = Option.bind (undo_chain bk es ob) (undo_chain bk fs)"
  by (induction es arbitrary: ob) auto

definition creates_absent :: "StateDB \<Rightarrow> journalEntry list \<Rightarrow> bool" where
  "creates_absent s es \<longleftrightarrow> (\<forall>a. createObjectChange a \<in> set es \<longrightarrow> acc_trie s a = None)"

lemma same_frame_trans: "same_frame s t \<Longrightarrow> same_frame t u \<Longrightarrow> same_frame s u"
  by (simp add: same_frame_def)

lemma undo_all_refines:
  assumes "wf_objects s" "undo_chain bk es (observe bk s) = Some ob" "creates_absent s es"
  shows "\<exists>s'. undo_all es s = Ok s' \<and> observe bk s' = ob \<and> wf_objects s' \<and> same_frame s s'"
  using assms
proof (induction es arbitrary: s)
  case (Cons e es)
  then have "undoable bk e (observe bk s)" by (auto split: if_splits)
  then obtain s1 where s1: "undo e s = Ok s1" "observe bk s1 = undo_obs bk e (observe bk s)" "wf_objects s1" "same_frame s s1"
    using undo_refines [of s bk e] Cons.prems by (auto simp: creates_absent_def)
  then have "\<exists>s'. undo_all es s1 = Ok s' \<and> observe bk s' = ob \<and> wf_objects s' \<and> same_frame s1 s'"
    using Cons.prems by (intro Cons.IH) (auto simp: creates_absent_def same_frame_def split: if_splits)
  then show ?case using s1 by (auto intro: same_frame_trans)
qed (simp add: same_frame_def)

text \<open>\<open>s'\<close> comes from \<open>s\<close> by changes whose entries, undone, lead back to what was observed at \<open>s\<close>.\<close>

definition extends :: "backend \<Rightarrow> StateDB \<Rightarrow> StateDB \<Rightarrow> bool" where
  "extends bk s s' \<longleftrightarrow> wf_objects s' \<and> acc_trie s' = acc_trie s \<and> validRevisions s' = validRevisions s \<and>
     nextRevisionId s' = nextRevisionId s \<and>
     (\<exists>es. journal s' = journal s @ es \<and> creates_absent s es \<and>
        undo_chain bk (rev es) (observe bk s') = Some (observe bk s))"

lemma extends_silent: "wf_objects s' \<Longrightarrow> same_frame s s' \<Longrightarrow> observe bk s' = observe bk s \<Longrightarrow> extends bk s s'"
  by (simp add: extends_def same_frame_def creates_absent_def exI [of _ "[]"])

lemma extends_refl: "wf_objects s \<Longrightarrow> extends bk s s"
  by (simp add: extends_silent same_frame_def)

lemma extends_trans:
  assumes "extends bk s t" "extends bk t u"
  shows "extends bk s u"
proof -
  obtain es where es: "journal t = journal s @ es" "creates_absent s es" "undo_chain bk (rev es) (observe bk t) = Some (observe bk s)"
    using assms(1) by (auto simp: extends_def)
  obtain fs where fs: "journal u = journal t @ fs" "creates_absent t fs" "undo_chain bk (rev fs) (observe bk u) = Some (observe bk t)"
    using assms(2) by (auto simp: extends_def)
  have "undo_chain bk (rev (es @ fs)) (observe bk u) = Some (observe bk s)"
    using es fs by (simp add: undo_chain_append)
  moreover have "creates_absent s (es @ fs)"
    using es(2) fs(2) assms(1) by (auto simp: creates_absent_def extends_def)
  ultimately show ?thesis
    using assms es(1) fs(1) unfolding extends_def by (intro conjI exI [of _ "es @ fs"]) auto
qed

lemma extends_entry:
  assumes "wf_objects s'" "acc_trie s' = acc_trie s" "validRevisions s' = validRevisions s"
    "nextRevisionId s' = nextRevisionId s" "journal s' = journal s @ [e]"
    "\<forall>a. e = createObjectChange a \<longrightarrow> acc_trie s a = None"
    "undoable bk e (observe bk s')" "undo_obs bk e (observe bk s') = observe bk s"
  shows "extends bk s s'"
  using assms unfolding extends_def creates_absent_def by (intro conjI exI [of _ "[e]"]) auto

text \<open>\<open>c\<close> is the live object at address \<open>a\<close>.\<close>

definition live :: "backend \<Rightarrow> StateDB \<Rightarrow> address \<Rightarrow> stateObject \<Rightarrow> bool" where
  "live bk s a c \<longleftrightarrow> wf_objects s \<and> so_address c = a \<and> \<not> deleted c \<and> ob_account (observe bk s) a = Some (acct_of bk c)"

lemmas journaled = observe_write_object on_account_def wf_write fun_upd_idem

lemma extends_SetBalance: "live bk s a c \<Longrightarrow> extends bk s (obj_SetBalance x c s)"
  by (rule extends_entry [of _ _ "balanceChange a (Balance (so_data c))"])
    (auto simp: live_def obj_SetBalance_def obj_setBalance_def acct_of_set_balance journaled)

lemma extends_SetNonce: "live bk s a c \<Longrightarrow> extends bk s (obj_SetNonce x c s)"
  by (rule extends_entry [of _ _ "nonceChange a (Nonce (so_data c))"])
    (auto simp: live_def obj_SetNonce_def obj_setNonce_def acct_of_set_nonce journaled)

lemma extends_SetState: "live bk s a c \<Longrightarrow> extends bk s (obj_SetState bk key val c s)"
proof -
  assume l: "live bk s a c"
  obtain prev c' where c': "obj_GetState bk key c = (prev, c')" by (cases "obj_GetState bk key c") auto
  have *: "acct_of bk c' = acct_of bk c" "so_address c' = so_address c" "deleted c' = deleted c"
    "fst (obj_GetState bk key c) = prev"
    using obj_GetState_acct [of bk key c] c' by simp_all
  show ?thesis
    using l * acct_of_self(5) [where bk = bk and c = c and k = key]
    by (intro extends_entry [of _ _ "storageChange a key prev"])
      (auto simp: live_def obj_SetState_def obj_setState_def c' acct_of_set_storage journaled)
qed

lemma extends_SetCode: "live bk s a c \<Longrightarrow> extends bk s (obj_SetCode bk h (Some code) c s)"
proof -
  assume l: "live bk s a c"
  obtain prev c' where c': "obj_Code bk c = (prev, c')" by (cases "obj_Code bk c") auto
  have *: "acct_of bk c' = acct_of bk c" "so_address c' = so_address c" "deleted c' = deleted c" "so_data c' = so_data c"
    "fst (obj_Code bk c) = prev"
    using obj_Code_acct [of bk c] c' by simp_all
  show ?thesis
    using l * acct_of_self(4) [where bk = bk and c = c] obj_Code_None [of bk c]
      acct_of_set_code [where code = "Some code" and h = h and bk = bk and c = c']
    by (intro extends_entry [of _ _ "codeChange a prev (acc_CodeHash (so_data c))"])
      (auto simp: live_def obj_SetCode_def obj_setCode_def c' journaled)
qed

lemma extends_touch: "live bk s a c \<Longrightarrow> extends bk s (touch c s)"
  by (rule extends_entry [of _ _ "touchChange a (touched c) (\<not> onDirty c)"])
    (auto simp: live_def touch_def journaled)

lemma live_lookup:
  assumes "wf_objects s" "getStateObject a s = (Some c, s')"
  shows "live bk s' a c \<and> extends bk s s'"
  by (rule lookup_cases [OF assms(1), of a bk]) (use assms in \<open>simp_all add: live_def extends_silent\<close>)

lemma createObject_extends:
  assumes "wf_objects s" "createObject bk a s = (c, prev, s')"
  shows "live bk s' a c" "extends bk s s'"
    "c = (newObject a (zeroAccount bk))\<lparr>onDirty := False\<rparr>" "prev = fst (getStateObject a s)"
proof -
  show c: "c = (newObject a (zeroAccount bk))\<lparr>onDirty := False\<rparr>" "prev = fst (getStateObject a s)"
    using assms(2) by (auto simp: createObject_def Let_def split: prod.splits)
  have "live bk s' a c \<and> extends bk s s'"
  proof (rule lookup_cases [OF assms(1), of a bk])
    assume none: "getStateObject a s = (None, s)" "ob_account (observe bk s) a = None"
    then have tr: "acc_trie s a = None"
      using assms(1) by (auto simp: getStateObject_def wf_objects_def Let_def split: option.splits if_splits)
    have s': "s' = setStateObject c (append_journal (createObjectChange a) (MarkStateObjectDirty a s))"
      using assms(2) none by (auto simp: createObject_def Let_def)
    show ?thesis
      using none tr assms(1)
      by (intro conjI extends_entry [of _ _ "createObjectChange a"])
        (auto simp: s' c live_def observe_setStateObject wf_write MarkStateObjectDirty_def fun_upd_idem)
  next
    fix p t assume p: "getStateObject a s = (Some p, t)" "so_address p = a" "\<not> deleted p"
      "ob_account (observe bk s) a = Some (acct_of bk p)" "observe bk t = observe bk s" "wf_objects t" "same_frame s t"
    have s': "s' = setStateObject c (append_journal (resetObjectChange p) (MarkStateObjectDirty a t))"
      using assms(2) p by (auto simp: createObject_def Let_def)
    show ?thesis
      using p
      by (intro conjI extends_entry [of _ _ "resetObjectChange p"])
        (auto simp: s' c live_def observe_setStateObject wf_write MarkStateObjectDirty_def fun_upd_idem same_frame_def)
  qed
  then show "live bk s' a c" "extends bk s s'" by auto
qed

lemma GetOrNew_extends:
  assumes "wf_objects s" "GetOrNewStateObject bk a s = (c, s')"
  shows "live bk s' a c" "extends bk s s'"
proof -
  have "live bk s' a c \<and> extends bk s s'"
  proof (cases "getStateObject a s")
    case (Pair r t)
    show ?thesis
    proof (cases r)
      case None
      then have "t = s" using Pair getStateObject_None by blast
      then obtain prev where "createObject bk a s = (c, prev, s')"
        using assms(2) Pair None by (auto simp: GetOrNewStateObject_def split: prod.splits)
      then show ?thesis using createObject_extends [OF assms(1)] by blast
    next
      case (Some d)
      then have "live bk t a d \<and> extends bk s t" using live_lookup [OF assms(1)] Pair by blast
      then show ?thesis using assms(2) Pair Some by (simp add: GetOrNewStateObject_def)
    qed
  qed
  then show "live bk s' a c" "extends bk s s'" by auto
qed

section \<open>Effect of the operations\<close>

lemma extends_wf: "extends bk s t \<Longrightarrow> wf_objects t"
  by (simp add: extends_def)

lemma via_GetOrNew:
  assumes "wf_objects s" "\<And>c t. live bk t a c \<Longrightarrow> extends bk t (f c t)"
  shows "extends bk s (case GetOrNewStateObject bk a s of (c, t) \<Rightarrow> f c t)"
proof (cases "GetOrNewStateObject bk a s")
  case (Pair c t)
  then show ?thesis using GetOrNew_extends [OF assms(1) Pair] assms(2) extends_trans by auto
qed

lemma extends_obj_AddBalance: "live bk s a c \<Longrightarrow> extends bk s (obj_AddBalance bk x c s)"
  by (auto simp: obj_AddBalance_def extends_touch extends_SetBalance live_def intro: extends_refl)

lemma extends_obj_SubBalance: "live bk s a c \<Longrightarrow> extends bk s (obj_SubBalance x c s)"
  by (auto simp: obj_SubBalance_def extends_SetBalance live_def intro: extends_refl)

lemma extends_changes:
  assumes "wf_objects s"
  shows "extends bk s (AddBalance bk a x s)" "extends bk s (SubBalance bk a x s)" "extends bk s (SetBalance bk a x s)"
    "extends bk s (SetNonce bk a n s)" "extends bk s (db_SetCode bk a code s)" "extends bk s (SetState bk a key val s)"
  unfolding AddBalance_def SubBalance_def SetBalance_def SetNonce_def db_SetCode_def SetState_def
  by (rule via_GetOrNew [OF assms], erule extends_obj_AddBalance extends_obj_SubBalance extends_SetBalance
      extends_SetNonce extends_SetCode extends_SetState)+

lemma extends_CreateAccount: "wf_objects s \<Longrightarrow> extends bk s (CreateAccount bk a s)"
proof -
  assume wf: "wf_objects s"
  obtain c prev t where t: "createObject bk a s = (c, prev, t)" by (cases "createObject bk a s") auto
  note ext = createObject_extends [OF wf t]
  show ?thesis
  proof (rule lookup_cases [OF wf, of a bk])
    assume "getStateObject a s = (None, s)"
    then show ?thesis using ext t by (simp add: CreateAccount_def)
  next
    fix p u assume p: "getStateObject a s = (Some p, u)" "so_address p = a" "\<not> deleted p"
      "ob_account (observe bk s) a = Some (acct_of bk p)" "observe bk u = observe bk s" "wf_objects u" "same_frame s u"
    have t': "t = setStateObject c (append_journal (resetObjectChange p) (MarkStateObjectDirty a u))"
      using t p by (auto simp: createObject_def Let_def)
    have r: "CreateAccount bk a s = obj_setBalance (Balance (so_data p)) c t"
      using t p ext(4) by (simp add: CreateAccount_def)
    show ?thesis
      unfolding r using p ext(3)
      by (intro extends_entry [of _ _ "resetObjectChange p"])
        (auto simp: t' obj_setBalance_def observe_write_object observe_setStateObject wf_write MarkStateObjectDirty_def
          fun_upd_idem same_frame_def)
  qed
qed

lemma extends_Suicide: "wf_objects s \<Longrightarrow> extends bk s (snd (Suicide a s))"
proof -
  assume wf: "wf_objects s"
  show ?thesis
  proof (rule lookup_cases [OF wf, of a bk])
    assume "getStateObject a s = (None, s)"
    then show ?thesis using wf by (simp add: Suicide_def extends_refl)
  next
    fix c t assume c: "getStateObject a s = (Some c, t)" "so_address c = a" "\<not> deleted c"
      "ob_account (observe bk s) a = Some (acct_of bk c)" "observe bk t = observe bk s" "wf_objects t" "same_frame s t"
    show ?thesis
      using c acct_of_self(3) [where bk = bk and c = c]
      by (intro extends_entry [of _ _ "suicideChange a (suicided c) (Balance (so_data c))"])
        (auto simp: Suicide_def Let_def markSuicided_def journaled acct_of_set_suicided_balance same_frame_def)
  qed
qed

lemma extends_queries:
  assumes "wf_objects s"
  shows "extends bk s (snd (getStateObject a s))" "extends bk s (snd (GetCode bk a s))" "extends bk s (snd (GetState bk a k s))"
proof -
  have q: "extends bk s (snd (getStateObject a s)) \<and> extends bk s (snd (GetCode bk a s)) \<and> extends bk s (snd (GetState bk a k s))"
  proof (rule lookup_cases [OF assms, of a bk])
    fix c t assume c: "getStateObject a s = (Some c, t)" "so_address c = a" "\<not> deleted c"
      "ob_account (observe bk s) a = Some (acct_of bk c)" "observe bk t = observe bk s" "wf_objects t" "same_frame s t"
    obtain code c1 where c1: "obj_Code bk c = (code, c1)" by (cases "obj_Code bk c") auto
    obtain v c2 where c2: "obj_GetState bk k c = (v, c2)" by (cases "obj_GetState bk k c") auto
    show ?thesis
      using c c1 c2 obj_Code_acct [of bk c] obj_GetState_acct [of bk k c]
      by (auto simp: GetCode_def GetState_def observe_setStateObject wf_write fun_upd_idem same_frame_def intro!: extends_silent)
  qed (use assms in \<open>simp add: GetCode_def GetState_def extends_refl\<close>)
  then show "extends bk s (snd (getStateObject a s))" "extends bk s (snd (GetCode bk a s))" "extends bk s (snd (GetState bk a k s))"
    by auto
qed

lemma extends_AddRefund: "wf_objects s \<Longrightarrow> extends bk s (AddRefund g s)"
  by (rule extends_entry [of _ _ "refundChange (refund s)"]) (auto simp: AddRefund_def Let_def)

lemma extends_AddPreimage: "wf_objects s \<Longrightarrow> extends bk s (AddPreimage h pre s)"
proof (cases "preimages s h")
  case None
  assume "wf_objects s"
  then show ?thesis
    using None by (intro extends_entry [of _ _ "addPreimageChange h"])
      (auto simp: AddPreimage_def fun_upd_idem)
qed (simp add: AddPreimage_def extends_refl)

lemma extends_AddLog: "wf_objects s \<Longrightarrow> extends bk s (AddLog l s)"
proof -
  assume wf: "wf_objects s"
  define l' where "l' = l\<lparr>log_TxHash := thash s, log_BlockHash := bhash s, log_TxIndex := txIndex s, log_Index := logSize s\<rparr>"
  define m where "m = (logs s)(thash s \<mapsto> GetLogs (thash s) s @ [l'])"
  have A: "AddLog l s = (append_journal (addLogChange (thash s)) s)\<lparr>logs := m, logSize := logSize s + 1\<rparr>"
    by (simp add: AddLog_def Let_def l'_def m_def)
  have m: "(\<lambda>h. case m h of None \<Rightarrow> [] | Some l \<Rightarrow> l) = (\<lambda>h. GetLogs h s)(thash s := GetLogs (thash s) s @ [l'])"
    by (auto simp: m_def fun_eq_iff GetLogs_def)
  show ?thesis
    unfolding A using wf
    by (intro extends_entry [of _ _ "addLogChange (thash s)"]) (auto simp: m fun_upd_idem)
qed

section \<open>Runs\<close>

text \<open>
  What a caller may do after it has taken the snapshot \<open>base\<close>: query and change accounts, take further snapshots
  and go back to those.
\<close>

inductive db_step :: "backend \<Rightarrow> int \<Rightarrow> StateDB \<Rightarrow> StateDB \<Rightarrow> bool" for bk base where
  lookup: "db_step bk base s (snd (getStateObject a s))"
| code: "db_step bk base s (snd (GetCode bk a s))"
| storage: "db_step bk base s (snd (GetState bk a k s))"
| add_balance: "db_step bk base s (AddBalance bk a x s)"
| sub_balance: "db_step bk base s (SubBalance bk a x s)"
| set_nonce: "db_step bk base s (SetNonce bk a n s)"
| set_code: "db_step bk base s (db_SetCode bk a c s)"
| set_state: "db_step bk base s (SetState bk a k v s)"
| suicide: "db_step bk base s (snd (Suicide a s))"
| create: "db_step bk base s (CreateAccount bk a s)"
| add_refund: "db_step bk base s (AddRefund g s)"
| add_log: "db_step bk base s (AddLog l s)"
| add_preimage: "db_step bk base s (AddPreimage h p s)"
| snapshot: "db_step bk base s (snd (Snapshot s))"
| revert: "base < i \<Longrightarrow> RevertToSnapshot i s = Ok s' \<Longrightarrow> db_step bk base s s'"

definition revisions_ok :: "StateDB \<Rightarrow> bool" where
  "revisions_ok s \<longleftrightarrow> sorted_wrt (<) (map fst (validRevisions s)) \<and> (\<forall>r \<in> set (validRevisions s). fst r < nextRevisionId s)"

definition since :: "backend \<Rightarrow> int \<Rightarrow> StateDB \<Rightarrow> StateDB \<Rightarrow> bool" where
  "since bk base s0 s \<longleftrightarrow> wf_objects s \<and> revisions_ok s \<and> acc_trie s = acc_trie s0 \<and>
     (\<exists>es revs. journal s = journal s0 @ es \<and> creates_absent s0 es \<and>
        undo_chain bk (rev es) (observe bk s) = Some (observe bk s0) \<and>
        validRevisions s = validRevisions s0 @ (base, length (journal s0)) # revs \<and>
        (\<forall>r \<in> set revs. length (journal s0) \<le> snd r))"

lemma revisions_ok_Snapshot: "revisions_ok s \<Longrightarrow> revisions_ok (snd (Snapshot s))"
  by (fastforce simp: Snapshot_def Let_def revisions_ok_def sorted_wrt_append)

lemma since_start:
  assumes "wf_objects s" "revisions_ok s" "Snapshot s = (base, s1)"
  shows "since bk base s s1"
  using assms revisions_ok_Snapshot [OF assms(2)] by (auto simp: since_def Snapshot_def Let_def creates_absent_def)

lemma since_extends:
  assumes "since bk base s0 s" "extends bk s t"
  shows "since bk base s0 t"
proof -
  obtain es revs where es: "journal s = journal s0 @ es" "creates_absent s0 es"
    "undo_chain bk (rev es) (observe bk s) = Some (observe bk s0)"
    "validRevisions s = validRevisions s0 @ (base, length (journal s0)) # revs" "\<forall>r \<in> set revs. length (journal s0) \<le> snd r"
    using assms(1) by (auto simp: since_def)
  obtain fs where fs: "journal t = journal s @ fs" "creates_absent s fs" "undo_chain bk (rev fs) (observe bk t) = Some (observe bk s)"
    using assms(2) by (auto simp: extends_def)
  have "undo_chain bk (rev (es @ fs)) (observe bk t) = Some (observe bk s0)"
    using es fs by (simp add: undo_chain_append)
  moreover have "creates_absent s0 (es @ fs)"
    using es(2) fs(2) assms(1) by (auto simp: creates_absent_def since_def)
  ultimately show ?thesis
    using assms es fs unfolding since_def extends_def revisions_ok_def
    by (intro conjI exI [of _ "es @ fs"] exI [of _ revs]) auto
qed

lemma since_snapshot: "since bk base s0 s \<Longrightarrow> since bk base s0 (snd (Snapshot s))"
  using revisions_ok_Snapshot [of s] by (auto simp: since_def Snapshot_def Let_def)

lemma sort_Search_loop:
  assumes "i \<le> j" "j \<le> n" "\<forall>x < i. \<not> f x" "\<forall>x. j \<le> x \<and> x < n \<longrightarrow> f x" "\<forall>x y. x \<le> y \<and> y < n \<and> f x \<longrightarrow> f y"
  shows "sort_Search_loop f i j \<le> n \<and> (\<forall>x < sort_Search_loop f i j. \<not> f x) \<and>
    (\<forall>x. sort_Search_loop f i j \<le> x \<and> x < n \<longrightarrow> f x)"
  using assms
proof (induction f i j rule: sort_Search_loop.induct)
  case (1 f i j)
  show ?case
  proof (cases "i < j")
    case True
    define h where "h = i + (j - i) div 2"
    have h: "i \<le> h" "h < j" using True by (auto simp: h_def)
    show ?thesis
    proof (cases "f h")
      case False
      have lo: "\<forall>x < h + 1. \<not> f x"
      proof (intro allI impI notI)
        fix x assume "x < h + 1" "f x"
        then have "f h" using "1.prems"(5) h "1.prems"(2) by (metis Suc_eq_plus1 less_Suc_eq_le order.strict_trans2)
        with False show False ..
      qed
      have "sort_Search_loop f i j = sort_Search_loop f (h + 1) j"
        using True False by (subst sort_Search_loop.simps) (simp add: h_def [symmetric] Let_def)
      moreover have "h + 1 \<le> j" using h by simp
      ultimately show ?thesis using "1.IH"(1) [OF True h_def False _ "1.prems"(2) lo "1.prems"(4,5)] by metis
    next
      case fh: True
      then have hi: "\<forall>x. h \<le> x \<and> x < n \<longrightarrow> f x" using "1.prems"(5) by blast
      have "sort_Search_loop f i j = sort_Search_loop f i h"
        using True fh by (subst sort_Search_loop.simps) (simp add: h_def [symmetric] Let_def)
      moreover have "h \<le> n" "\<not> \<not> f h" using h "1.prems"(2) fh by simp_all
      ultimately show ?thesis using "1.IH"(2) [OF True h_def _ h(1) _ "1.prems"(3) hi "1.prems"(5)] by metis
    qed
  next
    case False
    then have e: "sort_Search_loop f i j = i" by (subst sort_Search_loop.simps) simp
    have ij: "i = j" using False "1.prems"(1) by simp
    show ?thesis unfolding e using "1.prems"(2,3,4) unfolding ij by blast
  qed
qed

text \<open>In a list of increasing numbers the search finds the one that is there.\<close>

lemma sort_Search_sorted:
  assumes "sorted_wrt (<) (map fst (xs :: (int \<times> nat) list))" "k < length xs" "fst (xs ! k) = i"
  shows "sort_Search (length xs) (\<lambda>j. fst (xs ! j) \<ge> i) = k"
proof -
  let ?f = "\<lambda>j. fst (xs ! j) \<ge> i"
  have lt: "x < y \<Longrightarrow> y < length xs \<Longrightarrow> fst (xs ! x) < fst (xs ! y)" for x y
    using assms(1) by (simp add: sorted_wrt_iff_nth_less)
  have mono: "\<forall>x y. x \<le> y \<and> y < length xs \<and> ?f x \<longrightarrow> ?f y"
    using lt by (metis le_neq_implies_less less_imp_le order_trans)
  let ?r = "sort_Search (length xs) ?f"
  have r: "?r \<le> length xs \<and> (\<forall>x < ?r. \<not> ?f x) \<and> (\<forall>x. ?r \<le> x \<and> x < length xs \<longrightarrow> ?f x)"
    unfolding sort_Search_def by (rule sort_Search_loop [OF le0 order_refl _ _ mono]) simp_all
  have low: "\<not> ?f x" if "x < k" for x using lt [OF that assms(2)] assms(3) by simp
  have "\<not> k < ?r" using r assms(3) by blast
  moreover have "\<not> ?r < k" using r low assms(2) by (meson order_refl order.strict_trans)
  ultimately show ?thesis by simp
qed

lemma sort_Search_loop_le: "i \<le> j \<Longrightarrow> sort_Search_loop f i j \<le> j"
proof (induction f i j rule: sort_Search_loop.induct)
  case (1 f i j)
  have "i + (j - i) div 2 < j" if "i < j" using that by linarith
  then show ?case
    using 1 by (subst sort_Search_loop.simps) (force simp: Let_def)
qed

lemma sorted_wrt_take: "sorted_wrt R (xs :: 'a list) \<Longrightarrow> sorted_wrt R (take n xs)"
  by (metis append_take_drop_id sorted_wrt_append)

lemma revert_to:
  assumes "since bk base s0 s" "idx < length (validRevisions s)" "length (validRevisions s0) \<le> idx"
    "fst (validRevisions s ! idx) = i"
  obtains s' es where "RevertToSnapshot i s = Ok s'" "wf_objects s'" "acc_trie s' = acc_trie s0"
    "journal s' = journal s0 @ es" "creates_absent s0 es" "undo_chain bk (rev es) (observe bk s') = Some (observe bk s0)"
    "idx = length (validRevisions s0) \<Longrightarrow> es = []"
    "validRevisions s' = take idx (validRevisions s)" "nextRevisionId s' = nextRevisionId s"
proof -
  obtain es revs where es: "journal s = journal s0 @ es" "creates_absent s0 es"
    "undo_chain bk (rev es) (observe bk s) = Some (observe bk s0)"
    "validRevisions s = validRevisions s0 @ (base, length (journal s0)) # revs" "\<forall>r \<in> set revs. length (journal s0) \<le> snd r"
    and wf: "wf_objects s" "revisions_ok s" "acc_trie s = acc_trie s0"
    using assms(1) by (auto simp: since_def)
  define j m where "j = snd (validRevisions s ! idx)" and "m = j - length (journal s0)"
  have j: "length (journal s0) \<le> j"
    using es(4,5) assms(2,3) by (auto simp: j_def nth_append nth_Cons split: nat.split)
  have "idx = length (validRevisions s0) \<Longrightarrow> m = 0" using es(4) by (simp add: j_def m_def)
  moreover have d: "drop j (journal s) = drop m es" "take j (journal s) = journal s0 @ take m es"
    using es(1) j by (simp_all add: m_def)
  have "rev es = rev (drop m es) @ rev (take m es)" by (metis append_take_drop_id rev_append)
  then obtain mid where mid: "undo_chain bk (rev (drop m es)) (observe bk s) = Some mid"
    "undo_chain bk (rev (take m es)) mid = Some (observe bk s0)"
    using es(3) by (auto simp: undo_chain_append Option.bind_eq_Some_conv)
  have ca: "creates_absent s (rev (drop m es))" "creates_absent s0 (take m es)"
    using es(2) wf(3) by (auto simp: creates_absent_def dest: in_set_dropD in_set_takeD)
  obtain s1 where s1: "undo_all (rev (drop m es)) s = Ok s1" "observe bk s1 = mid" "wf_objects s1" "same_frame s s1"
    using undo_all_refines [OF wf(1) mid(1) ca(1)] by blast
  have "sort_Search (length (validRevisions s)) (\<lambda>k. fst (validRevisions s ! k) \<ge> i) = idx"
    using wf(2) assms(2,4) by (intro sort_Search_sorted) (auto simp: revisions_ok_def)
  then have "RevertToSnapshot i s = Ok (s1\<lparr>journal := take j (journal s1), validRevisions := take idx (validRevisions s1)\<rparr>)"
    using assms(2,4) s1(1) by (simp add: RevertToSnapshot_def Let_def j_def [symmetric] d)
  then show thesis
    using that [of "s1\<lparr>journal := take j (journal s1), validRevisions := take idx (validRevisions s1)\<rparr>" "take m es"]
      calculation s1 mid ca(2) d wf(3) by (simp add: same_frame_def)
qed

lemma since_step:
  assumes "since bk base s0 s" "db_step bk base s t"
  shows "since bk base s0 t"
proof -
  have wf: "wf_objects s" using assms(1) by (simp add: since_def)
  from assms(2) show ?thesis
  proof cases
    case (revert i)
    obtain es revs where vr: "validRevisions s = validRevisions s0 @ (base, length (journal s0)) # revs"
      "\<forall>r \<in> set revs. length (journal s0) \<le> snd r" "revisions_ok s"
      using assms(1) by (auto simp: since_def)
    let ?n = "length (validRevisions s0)"
    define idx where "idx = sort_Search (length (validRevisions s)) (\<lambda>k. fst (validRevisions s ! k) \<ge> i)"
    have idx: "idx \<noteq> length (validRevisions s)" "fst (validRevisions s ! idx) = i"
      using revert(2) by (auto simp: RevertToSnapshot_def Let_def idx_def [symmetric] split: if_splits)
    have il: "idx < length (validRevisions s)"
      using idx(1) sort_Search_loop_le [of 0 "length (validRevisions s)"]
      by (simp add: idx_def sort_Search_def le_neq_implies_less)
    have "?n < idx"
    proof (rule ccontr)
      assume "\<not> ?n < idx"
      moreover have "fst (validRevisions s ! idx) < base" if "idx < ?n"
        using vr(3) that unfolding revisions_ok_def vr(1) by (auto simp: sorted_wrt_append nth_append)
      moreover have "fst (validRevisions s ! ?n) = base" using vr(1) by simp
      ultimately show False using idx(2) revert(1) by (cases "idx = ?n") auto
    qed
    moreover obtain s' fs where s': "RevertToSnapshot i s = Ok s'" "wf_objects s'" "acc_trie s' = acc_trie s0"
      "journal s' = journal s0 @ fs" "creates_absent s0 fs" "undo_chain bk (rev fs) (observe bk s') = Some (observe bk s0)"
      "validRevisions s' = take idx (validRevisions s)" "nextRevisionId s' = nextRevisionId s"
      using revert_to [OF assms(1) il less_imp_le [OF calculation] idx(2)] by blast
    moreover have "revisions_ok s'"
      using vr(3) s'(7,8) by (auto simp: revisions_ok_def sorted_wrt_take dest!: in_set_takeD simp flip: take_map)
    moreover have "validRevisions s' = validRevisions s0 @ (base, length (journal s0)) # take (idx - ?n - 1) revs"
      using s'(7) vr(1) less_imp_Suc_add [OF \<open>?n < idx\<close>] by auto
    moreover have "t = s'" using revert(2) s'(1) by simp
    ultimately show ?thesis
      using vr(2) unfolding since_def
      by (intro conjI exI [of _ fs] exI [of _ "take (idx - ?n - 1) revs"]) (auto dest: in_set_takeD)
  qed (use assms(1) wf in \<open>auto intro: since_extends since_snapshot extends_changes extends_CreateAccount extends_Suicide
      extends_queries extends_AddRefund extends_AddPreimage extends_AddLog\<close>)
qed

lemma since_steps: "(db_step bk base)\<^sup>*\<^sup>* s t \<Longrightarrow> since bk base s0 s \<Longrightarrow> since bk base s0 t"
  by (induction rule: rtranclp_induct) (auto intro: since_step)

lemma revert_since:
  assumes "since bk base s0 s"
  shows "\<exists>s'. RevertToSnapshot base s = Ok s' \<and> observe bk s' = observe bk s0 \<and> wf_objects s' \<and> revisions_ok s' \<and>
    journal s' = journal s0 \<and> validRevisions s' = validRevisions s0 \<and> acc_trie s' = acc_trie s0"
proof -
  let ?n = "length (validRevisions s0)"
  obtain revs where vr: "validRevisions s = validRevisions s0 @ (base, length (journal s0)) # revs" "revisions_ok s"
    using assms by (auto simp: since_def)
  obtain s' es where s': "RevertToSnapshot base s = Ok s'" "wf_objects s'" "acc_trie s' = acc_trie s0"
    "journal s' = journal s0 @ es" "undo_chain bk (rev es) (observe bk s') = Some (observe bk s0)" "es = []"
    "validRevisions s' = take ?n (validRevisions s)" "nextRevisionId s' = nextRevisionId s"
    using revert_to [OF assms, of ?n base] vr(1) by (metis fst_conv length_append_singleton length_append less_add_same_cancel1
        list.size(4) nth_append_length order_refl zero_less_Suc add.right_neutral add_Suc_right)
  then show ?thesis
    using vr by (auto simp: revisions_ok_def sorted_wrt_append)
qed

section \<open>Properties\<close>

definition empty_statedb :: StateDB where
  "empty_statedb = \<lparr>acc_trie = Map.empty, stateObjects = Map.empty, stateObjectsDirty = {}, refund = 0, thash = 0, bhash = 0,
     txIndex = 0, logs = Map.empty, logSize = 0, preimages = Map.empty, journal = [], validRevisions = [], nextRevisionId = 0\<rparr>"

definition zero_backend :: backend where
  "zero_backend = \<lparr>OpenStorageTrie = (\<lambda>_ _ _. 0), ContractCode = (\<lambda>_ _. []), ContractCodeSize = (\<lambda>_ _. 0),
     Keccak256Hash = (\<lambda>_. 0), trie_Hash = (\<lambda>_. 0)\<rparr>"

text \<open>An account in the trie that has nothing.\<close>

definition empty_account :: StateDB where
  "empty_account = empty_statedb\<lparr>acc_trie := [7 \<mapsto> \<lparr>Nonce = 0, Balance = 0, Root = 0, acc_CodeHash = 0\<rparr>]\<rparr>"

text \<open>C10: Whatever is done to the accounts after a snapshot (changes, queries, further snapshots and reverts to those),
  \<open>RevertToSnapshot\<close> finds the snapshot, does not panic and restores every account, the refund, the logs and the
  preimages, and the journal and the stack of snapshots of before.\<close>

theorem revert_restores:
  assumes "wf_objects s" "revisions_ok s" "Snapshot s = (base, s1)" "(db_step bk base)\<^sup>*\<^sup>* s1 s2"
  shows "\<exists>s3. RevertToSnapshot base s2 = Ok s3 \<and> observe bk s3 = observe bk s \<and> wf_objects s3 \<and> revisions_ok s3 \<and>
    journal s3 = journal s \<and> validRevisions s3 = validRevisions s"
  using revert_since [OF since_steps [OF assms(4) since_start [OF assms(1-3)]]] by blast

theorem revert_restores_witness:
  "\<exists>s3. RevertToSnapshot 0 (AddBalance zero_backend 7 5 (snd (Snapshot empty_statedb))) = Ok s3 \<and> journal s3 = [] \<and>
     observe zero_backend s3 = observe zero_backend empty_statedb"
proof -
  have "wf_objects empty_statedb" "revisions_ok empty_statedb" by (simp_all add: empty_statedb_def wf_objects_def revisions_ok_def)
  moreover have "Snapshot empty_statedb = (0, snd (Snapshot empty_statedb))" by (simp add: Snapshot_def empty_statedb_def Let_def)
  moreover have "(db_step zero_backend 0)\<^sup>*\<^sup>* (snd (Snapshot empty_statedb)) (AddBalance zero_backend 7 5 (snd (Snapshot empty_statedb)))"
    by (intro r_into_rtranclp add_balance)
  ultimately show ?thesis
    using revert_restores [of empty_statedb 0] by (fastforce simp: empty_statedb_def)
qed

text \<open>Undoing a touch takes the account off the dirty set but leaves its callback spent: an existing empty account that
  was touched, reverted, and then given 5 wei has the new balance, but is not dirty, and \<open>Finalise\<close> over the dirty set
  leaves the old account in the trie.\<close>

theorem touch_revert_not_dirty:
  "case RevertToSnapshot 0 (AddBalance zero_backend 7 0 (snd (Snapshot empty_account))) of
     Ok s \<Rightarrow>
       let s = AddBalance zero_backend 7 5 s
       in fst (GetBalance 7 s) = 5 \<and> stateObjectsDirty s = {} \<and>
          (case Finalise zero_backend [] False s of Ok t \<Rightarrow> map_option Balance (acc_trie t 7) = Some 0 | _ \<Rightarrow> False)
   | _ \<Rightarrow> False"
  by code_simp

text \<open>Undoing a log does not count back the number of logs: the first log after a reverted one gets index 1.\<close>

theorem revert_keeps_log_size:
  "\<exists>s. RevertToSnapshot 0 (AddLog l (snd (Snapshot empty_statedb))) = Ok s \<and> GetLogs 0 s = [] \<and> logSize s = 1 \<and>
     map log_Index (GetLogs 0 (AddLog l s)) = [1]"
proof -
  have "sort_Search 1 f = (if f 0 then 0 else 1)" for f
    by (simp add: sort_Search_def sort_Search_loop.simps)
  then show ?thesis
    by (simp add: empty_statedb_def Snapshot_def Let_def AddLog_def RevertToSnapshot_def append_journal_def GetLogs_def)
qed

end
