(* ===== verification/Machine.thy ===== *)
theory Machine
  imports Precompiles StackMemory Journal
begin

text \<open>
  The state of the virtual machine and the prices of its instructions: \<open>params/config.go\<close>, \<open>params/gas_table.go\<close>,
  \<open>core/evm.go\<close>, the data of \<open>core/vm/evm.go\<close> and \<open>interpreter.go\<close>, \<open>gas.go\<close> and \<open>gas_table.go\<close>. What is fixed during
  an execution is an environment; what changes for all the contracts of an execution is the world; what belongs to one contract
  is its frame. The tracer is not modelled. A price function that fails leaves nothing behind but
  objects that were loaded into the cache of the accounts, which the model drops.
\<close>

section \<open>Configuration\<close>

record ChainConfig =
  ChainId :: "int option"
  HomesteadBlock :: "int option"
  DAOForkBlock :: "int option"
  EIP150Block :: "int option"
  EIP155Block :: "int option"
  EIP158Block :: "int option"
  MetropolisBlock :: "int option"

definition isForked :: "int option \<Rightarrow> int \<Rightarrow> bool" where
  "isForked s head = (case s of None \<Rightarrow> False | Some b \<Rightarrow> b \<le> head)"

definition IsHomestead :: "ChainConfig \<Rightarrow> int \<Rightarrow> bool" where
  "IsHomestead c num = isForked (HomesteadBlock c) num"

definition IsEIP150 :: "ChainConfig \<Rightarrow> int \<Rightarrow> bool" where
  "IsEIP150 c num = isForked (EIP150Block c) num"

definition IsEIP155 :: "ChainConfig \<Rightarrow> int \<Rightarrow> bool" where
  "IsEIP155 c num = isForked (EIP155Block c) num"

definition IsEIP158 :: "ChainConfig \<Rightarrow> int \<Rightarrow> bool" where
  "IsEIP158 c num = isForked (EIP158Block c) num"

definition IsMetropolis :: "ChainConfig \<Rightarrow> int \<Rightarrow> bool" where
  "IsMetropolis c num = isForked (MetropolisBlock c) num"

record GasTable =
  ExtcodeSize :: uint64
  ExtcodeCopy :: uint64
  gt_Balance :: uint64
  SLoad :: uint64
  Calls :: uint64
  gt_Suicide :: uint64
  ExpByte :: uint64
  CreateBySuicide :: uint64

definition GasTableHomestead :: GasTable where
  "GasTableHomestead = \<lparr>ExtcodeSize = 20, ExtcodeCopy = 20, gt_Balance = 20, SLoad = 50, Calls = 40, gt_Suicide = 0,
     ExpByte = 10, CreateBySuicide = 0\<rparr>"

definition GasTableHomesteadGasRepriceFork :: GasTable where
  "GasTableHomesteadGasRepriceFork = \<lparr>ExtcodeSize = 700, ExtcodeCopy = 700, gt_Balance = 400, SLoad = 200, Calls = 700,
     gt_Suicide = 5000, ExpByte = 10, CreateBySuicide = 25000\<rparr>"

definition GasTableEIP158 :: GasTable where
  "GasTableEIP158 = \<lparr>ExtcodeSize = 700, ExtcodeCopy = 700, gt_Balance = 400, SLoad = 200, Calls = 700,
     gt_Suicide = 5000, ExpByte = 50, CreateBySuicide = 25000\<rparr>"

definition config_GasTable :: "ChainConfig \<Rightarrow> int option \<Rightarrow> GasTable" where
  "config_GasTable c num =
     (case num of
        None \<Rightarrow> GasTableHomestead
      | Some n \<Rightarrow>
          if IsEIP158 c n then GasTableEIP158
          else if IsEIP150 c n then GasTableHomesteadGasRepriceFork
          else GasTableHomestead)"

record Rules =
  r_ChainId :: int
  r_IsHomestead :: bool
  r_IsEIP150 :: bool
  r_IsEIP155 :: bool
  r_IsEIP158 :: bool
  r_IsMetropolis :: bool

definition config_Rules :: "ChainConfig \<Rightarrow> int \<Rightarrow> Rules" where
  "config_Rules c num =
     \<lparr>r_ChainId = (case ChainId c of None \<Rightarrow> 0 | Some i \<Rightarrow> i), r_IsHomestead = IsHomestead c num, r_IsEIP150 = IsEIP150 c num,
      r_IsEIP155 = IsEIP155 c num, r_IsEIP158 = IsEIP158 c num, r_IsMetropolis = IsMetropolis c num\<rparr>"

section \<open>Environment, world and frame\<close>

record Context =
  GetHash :: "uint64 \<Rightarrow> hash"
  Origin :: address
  GasPrice :: int
  Coinbase :: address
  GasLimit :: int
  BlockNumber :: int
  Time :: int
  Difficulty :: int

record Config =
  NoRecursion :: bool
  DisableGasMetering :: bool
  EnablePreimageRecording :: bool

record evm_env =
  ctx :: Context
  chainConfig :: ChainConfig
  vmConfig :: Config
  bk :: backend
  prm :: primitives

record world =
  w_db :: StateDB
  w_depth :: nat
  w_readOnly :: bool
  w_returnData :: "byte list"
  w_pool :: Stack
  w_dests :: destinations
  w_abort :: bool

record frame =
  f_pc :: uint64
  f_contract :: Contract
  f_mem :: Memory
  f_stack :: Stack

definition gasTable :: "evm_env \<Rightarrow> GasTable" where
  "gasTable env = config_GasTable (chainConfig env) (Some (BlockNumber (ctx env)))"

definition chainRules :: "evm_env \<Rightarrow> Rules" where
  "chainRules env = config_Rules (chainConfig env) (BlockNumber (ctx env))"

definition Cancel :: "world \<Rightarrow> world" where
  "Cancel w = w\<lparr>w_abort := True\<rparr>"

section \<open>Transfer of value\<close>

definition CanTransfer :: "address \<Rightarrow> int \<Rightarrow> StateDB \<Rightarrow> bool \<times> StateDB" where
  "CanTransfer addr amount s = (case GetBalance addr s of (b, s) \<Rightarrow> (b \<ge> amount, s))"

definition Transfer :: "backend \<Rightarrow> address \<Rightarrow> address \<Rightarrow> int \<Rightarrow> StateDB \<Rightarrow> StateDB" where
  "Transfer b sender recipient amount s = AddBalance b recipient amount (SubBalance b sender amount s)"

section \<open>Prices\<close>

abbreviation GasQuickStep :: uint64 where "GasQuickStep \<equiv> 2"
abbreviation GasFastestStep :: uint64 where "GasFastestStep \<equiv> 3"
abbreviation GasFastStep :: uint64 where "GasFastStep \<equiv> 5"
abbreviation GasMidStep :: uint64 where "GasMidStep \<equiv> 8"
abbreviation GasSlowStep :: uint64 where "GasSlowStep \<equiv> 10"
abbreviation GasExtStep :: uint64 where "GasExtStep \<equiv> 20"
abbreviation CallValueTransferGas :: uint64 where "CallValueTransferGas \<equiv> 9000"
abbreviation CallNewAccountGas :: uint64 where "CallNewAccountGas \<equiv> 25000"
abbreviation CallStipend :: uint64 where "CallStipend \<equiv> 2300"
abbreviation SstoreSetGas :: uint64 where "SstoreSetGas \<equiv> 20000"
abbreviation SstoreResetGas :: uint64 where "SstoreResetGas \<equiv> 5000"
abbreviation SstoreClearGas :: uint64 where "SstoreClearGas \<equiv> 5000"
abbreviation SstoreRefundGas :: uint64 where "SstoreRefundGas \<equiv> 15000"
abbreviation SuicideRefundGas :: uint64 where "SuicideRefundGas \<equiv> 24000"
abbreviation LogGas :: uint64 where "LogGas \<equiv> 375"
abbreviation LogTopicGas :: uint64 where "LogTopicGas \<equiv> 375"
abbreviation LogDataGas :: uint64 where "LogDataGas \<equiv> 8"
abbreviation Sha3Gas :: uint64 where "Sha3Gas \<equiv> 30"
abbreviation Sha3WordGas :: uint64 where "Sha3WordGas \<equiv> 6"
abbreviation CopyGas :: uint64 where "CopyGas \<equiv> 3"
abbreviation CreateGas :: uint64 where "CreateGas \<equiv> 32000"
abbreviation CreateDataGas :: uint64 where "CreateDataGas \<equiv> 200"
abbreviation JumpdestGas :: uint64 where "JumpdestGas \<equiv> 1"

definition callGas :: "GasTable \<Rightarrow> uint64 \<Rightarrow> uint64 \<Rightarrow> int \<Rightarrow> (vm_error, uint64) outcome" where
  "callGas gt availableGas base callCost =
     (let availableGas' = availableGas - base;
          gas = availableGas' - availableGas' div 64
      in if CreateBySuicide gt > 0 \<and> (big_BitLen callCost > 64 \<or> gas < big_Uint64 callCost) then Ok gas
         else if big_BitLen callCost > 64 then Err errGasUintOverflow
         else Ok (big_Uint64 callCost))"

text \<open>The price and the state after it has been computed, from the size that the memory is to have.\<close>

type_synonym gasFunc = "GasTable \<Rightarrow> evm_env \<Rightarrow> uint64 \<Rightarrow> world \<Rightarrow> frame \<Rightarrow> (vm_error, uint64 \<times> world \<times> frame) outcome"

definition safe_add :: "uint64 \<Rightarrow> uint64 \<Rightarrow> (vm_error, uint64) outcome" where
  "safe_add x y = (case SafeAdd x y of (s, overflow) \<Rightarrow> if overflow then Err errGasUintOverflow else Ok s)"

definition safe_mul :: "uint64 \<Rightarrow> uint64 \<Rightarrow> (vm_error, uint64) outcome" where
  "safe_mul x y = (case SafeMul x y of (s, overflow) \<Rightarrow> if overflow then Err errGasUintOverflow else Ok s)"

definition stack_uint64 :: "nat \<Rightarrow> frame \<Rightarrow> (vm_error, uint64) outcome" where
  "stack_uint64 i f =
     bind_outcome (Back (f_stack f) i) (\<lambda>x.
       case bigUint64 x of (v, overflow) \<Rightarrow> if overflow then Err errGasUintOverflow else Ok v)"

definition mem_gas :: "frame \<Rightarrow> uint64 \<Rightarrow> (vm_error, uint64 \<times> frame) outcome" where
  "mem_gas f memorySize =
     bind_outcome (memoryGasCost (f_mem f) memorySize) (\<lambda>(gas, m). Ok (gas, f\<lparr>f_mem := m\<rparr>))"

definition constGasFunc :: "uint64 \<Rightarrow> gasFunc" where
  "constGasFunc gas gt env memorySize w f = Ok (gas, w, f)"

text \<open>The price of a copy: the memory, a base price and three for each word at stack position \<open>i\<close>.\<close>

definition copy_gas :: "uint64 \<Rightarrow> nat \<Rightarrow> gasFunc" where
  "copy_gas base i gt env memorySize w f =
     bind_outcome (mem_gas f memorySize) (\<lambda>(gas, f').
     bind_outcome (safe_add gas base) (\<lambda>gas.
     bind_outcome (stack_uint64 i f) (\<lambda>words.
     bind_outcome (safe_mul (toWordSize words) CopyGas) (\<lambda>words.
     bind_outcome (safe_add gas words) (\<lambda>gas. Ok (gas, w, f'))))))"

definition gasCallDataCopy :: gasFunc where
  "gasCallDataCopy = copy_gas GasFastestStep 2"

definition gasReturnDataCopy :: gasFunc where
  "gasReturnDataCopy = copy_gas GasFastestStep 2"

definition gasCodeCopy :: gasFunc where
  "gasCodeCopy = copy_gas GasFastestStep 2"

definition gasExtCodeCopy :: gasFunc where
  "gasExtCodeCopy gt = copy_gas (ExtcodeCopy gt) 3 gt"

definition gasSStore :: gasFunc where
  "gasSStore gt env memorySize w f =
     bind_outcome (Back (f_stack f) 1) (\<lambda>y.
     bind_outcome (Back (f_stack f) 0) (\<lambda>x.
     case GetState (bk env) (Address (f_contract f)) (BigToHash x) (w_db w) of
       (val, s) \<Rightarrow>
         let w = w\<lparr>w_db := s\<rparr>
         in if EmptyHash val \<and> \<not> EmptyHash (BigToHash y) then Ok (SstoreSetGas, w, f)
            else if \<not> EmptyHash val \<and> EmptyHash (BigToHash y)
            then Ok (SstoreClearGas, w\<lparr>w_db := AddRefund (uint SstoreRefundGas) s\<rparr>, f)
            else Ok (SstoreResetGas, w, f)))"

definition makeGasLog :: "nat \<Rightarrow> gasFunc" where
  "makeGasLog n gt env memorySize w f =
     bind_outcome (stack_uint64 1 f) (\<lambda>requestedSize.
     bind_outcome (mem_gas f memorySize) (\<lambda>(gas, f).
     bind_outcome (safe_add gas LogGas) (\<lambda>gas.
     bind_outcome (safe_add gas (of_nat n * LogTopicGas)) (\<lambda>gas.
     bind_outcome (safe_mul requestedSize LogDataGas) (\<lambda>memorySizeGas.
     bind_outcome (safe_add gas memorySizeGas) (\<lambda>gas. Ok (gas, w, f)))))))"

definition gasSha3 :: gasFunc where
  "gasSha3 gt env memorySize w f =
     bind_outcome (mem_gas f memorySize) (\<lambda>(gas, f').
     bind_outcome (safe_add gas Sha3Gas) (\<lambda>gas.
     bind_outcome (stack_uint64 1 f) (\<lambda>wordGas.
     bind_outcome (safe_mul (toWordSize wordGas) Sha3WordGas) (\<lambda>wordGas.
     bind_outcome (safe_add gas wordGas) (\<lambda>gas. Ok (gas, w, f'))))))"

text \<open>The memory and a constant.\<close>

definition mem_plus :: "uint64 \<Rightarrow> gasFunc" where
  "mem_plus base gt env memorySize w f =
     bind_outcome (mem_gas f memorySize) (\<lambda>(gas, f). bind_outcome (safe_add gas base) (\<lambda>gas. Ok (gas, w, f)))"

definition gasMLoad :: gasFunc where "gasMLoad = mem_plus GasFastestStep"
definition gasMStore8 :: gasFunc where "gasMStore8 = mem_plus GasFastestStep"
definition gasMStore :: gasFunc where "gasMStore = mem_plus GasFastestStep"
definition gasCreate :: gasFunc where "gasCreate = mem_plus CreateGas"

definition gasBalance :: gasFunc where
  "gasBalance gt env memorySize w f = Ok (gt_Balance gt, w, f)"

definition gasExtCodeSize :: gasFunc where
  "gasExtCodeSize gt env memorySize w f = Ok (ExtcodeSize gt, w, f)"

definition gasSLoad :: gasFunc where
  "gasSLoad gt env memorySize w f = Ok (SLoad gt, w, f)"

definition gasExp :: gasFunc where
  "gasExp gt env memorySize w f =
     bind_outcome (Back (f_stack f) 1) (\<lambda>e.
     let expByteLen = of_nat ((big_BitLen e + 7) div 8)
     in bind_outcome (safe_add (expByteLen * ExpByte gt) GasSlowStep) (\<lambda>gas. Ok (gas, w, f)))"

text \<open>
  The second half of the prices of the calls: the memory has been added to \<open>gas\<close>; the gas that is passed on
  replaces the top of the stack and is paid for.
\<close>

definition pay_call :: "GasTable \<Rightarrow> uint64 \<Rightarrow> world \<Rightarrow> frame \<Rightarrow> (vm_error, uint64 \<times> world \<times> frame) outcome" where
  "pay_call gt gas w f =
     bind_outcome (Back (f_stack f) 0) (\<lambda>top.
     bind_outcome (callGas gt (Gas (f_contract f)) gas top) (\<lambda>cg.
     let f = f\<lparr>f_stack := (f_stack f)[0 := uint cg]\<rparr>
     in bind_outcome (safe_add gas cg) (\<lambda>gas. Ok (gas, w, f))))"

definition gasCall :: gasFunc where
  "gasCall gt env memorySize w f =
     bind_outcome (Back (f_stack f) 2) (\<lambda>v.
     bind_outcome (Back (f_stack f) 1) (\<lambda>a.
     let gas = Calls gt;
         transfersValue = (v \<noteq> 0);
         addr = BigToAddress a
     in case (if IsEIP158 (chainConfig env) (BlockNumber (ctx env))
              then (case Empty (bk env) addr (w_db w) of
                      (e, s) \<Rightarrow> (if e \<and> transfersValue then gas + CallNewAccountGas else gas, s))
              else (case Exist addr (w_db w) of
                      (e, s) \<Rightarrow> (if \<not> e then gas + CallNewAccountGas else gas, s))) of
          (gas, s) \<Rightarrow>
            let w = w\<lparr>w_db := s\<rparr>;
                gas = (if transfersValue then gas + CallValueTransferGas else gas)
            in bind_outcome (mem_gas f memorySize) (\<lambda>(memoryGas, f).
               bind_outcome (safe_add gas memoryGas) (\<lambda>gas. pay_call gt gas w f))))"

definition gasCallCode :: gasFunc where
  "gasCallCode gt env memorySize w f =
     bind_outcome (Back (f_stack f) 2) (\<lambda>v.
     let gas = Calls gt;
         gas = (if v \<noteq> 0 then gas + CallValueTransferGas else gas)
     in bind_outcome (mem_gas f memorySize) (\<lambda>(memoryGas, f).
        bind_outcome (safe_add gas memoryGas) (\<lambda>gas. pay_call gt gas w f)))"

definition gasReturn :: gasFunc where
  "gasReturn gt env memorySize w f = bind_outcome (mem_gas f memorySize) (\<lambda>(gas, f). Ok (gas, w, f))"

definition gasRevert :: gasFunc where
  "gasRevert gt env memorySize w f = bind_outcome (mem_gas f memorySize) (\<lambda>(gas, f). Ok (gas, w, f))"

definition gasSuicide :: gasFunc where
  "gasSuicide gt env memorySize w f =
     (let self_addr = Address (f_contract f)
      in bind_outcome
           (if IsEIP150 (chainConfig env) (BlockNumber (ctx env)) then
              bind_outcome (Back (f_stack f) 0) (\<lambda>a.
              let addr = BigToAddress a;
                  gas = gt_Suicide gt
              in if IsEIP158 (chainConfig env) (BlockNumber (ctx env)) then
                   (case Empty (bk env) addr (w_db w) of
                      (e, s) \<Rightarrow>
                        if e then (case GetBalance self_addr s of
                                     (b, s) \<Rightarrow> Ok (if b \<noteq> 0 then gas + CreateBySuicide gt else gas, s))
                        else Ok (gas, s))
                 else (case Exist addr (w_db w) of
                         (e, s) \<Rightarrow> Ok (if \<not> e then gas + CreateBySuicide gt else gas, s)))
            else Ok (0, w_db w))
           (\<lambda>(gas, s).
              case HasSuicided self_addr s of
                (h, s) \<Rightarrow> Ok (gas, w\<lparr>w_db := if h then s else AddRefund (uint SuicideRefundGas) s\<rparr>, f)))"

definition gasDelegateCall :: gasFunc where
  "gasDelegateCall gt env memorySize w f =
     bind_outcome (mem_gas f memorySize) (\<lambda>(gas, f).
     bind_outcome (safe_add gas (Calls gt)) (\<lambda>gas. pay_call gt gas w f))"

definition gasStaticCall :: gasFunc where
  "gasStaticCall gt env memorySize w f =
     bind_outcome (mem_gas f memorySize) (\<lambda>(gas, f).
     bind_outcome (safe_add gas (Calls gt)) (\<lambda>gas. pay_call gt gas w f))"

definition gasPush :: gasFunc where "gasPush gt env memorySize w f = Ok (GasFastestStep, w, f)"
definition gasSwap :: gasFunc where "gasSwap gt env memorySize w f = Ok (GasFastestStep, w, f)"
definition gasDup :: gasFunc where "gasDup gt env memorySize w f = Ok (GasFastestStep, w, f)"

end
