(* ===== verification/Instructions.thy ===== *)
theory Instructions
  imports Machine
begin

text \<open>
  \<open>core/vm/instructions.go\<close>: one definition for each instruction. An instruction pops its operands from the stack of the frame,
  pushes its result, and gives back the numbers it has used to the pool. It returns the world, the frame, the
  data it returns and the error, if any; a pop from an empty stack panics. The instructions that call other contracts do so through
  the functions of a record \<open>cs\<close>; running out of fuel, which only happens there, is the only
  \<open>Err\<close> of the results.
\<close>

datatype fuel_error = OutOfFuel

type_synonym 'a vm = "(fuel_error, 'a) outcome"

type_synonym call_result = "(byte list \<times> uint64 \<times> vm_error option \<times> world) vm"

record calls =
  c_Call :: "contract_ref \<Rightarrow> address \<Rightarrow> byte list \<Rightarrow> uint64 \<Rightarrow> int \<Rightarrow> world \<Rightarrow> call_result"
  c_CallCode :: "contract_ref \<Rightarrow> address \<Rightarrow> byte list \<Rightarrow> uint64 \<Rightarrow> int \<Rightarrow> world \<Rightarrow> call_result"
  c_DelegateCall :: "contract_ref \<Rightarrow> address \<Rightarrow> byte list \<Rightarrow> uint64 \<Rightarrow> world \<Rightarrow> call_result"
  c_StaticCall :: "contract_ref \<Rightarrow> address \<Rightarrow> byte list \<Rightarrow> uint64 \<Rightarrow> world \<Rightarrow> call_result"
  c_Create :: "contract_ref \<Rightarrow> byte list \<Rightarrow> uint64 \<Rightarrow> int \<Rightarrow> world \<Rightarrow> (byte list \<times> address \<times> uint64 \<times> vm_error option \<times> world) vm"

type_synonym exec_result = "(world \<times> frame \<times> byte list \<times> vm_error option) vm"

type_synonym executionFunc = "evm_env \<Rightarrow> calls \<Rightarrow> world \<Rightarrow> frame \<Rightarrow> exec_result"

section \<open>Stack and pool of the machine\<close>

definition pop1 :: "frame \<Rightarrow> (int \<Rightarrow> frame \<Rightarrow> 'a vm) \<Rightarrow> 'a vm" where
  "pop1 f k = bind_outcome (stack_pop (f_stack f)) (\<lambda>(x, st). k x (f\<lparr>f_stack := st\<rparr>))"

definition pop2 :: "frame \<Rightarrow> (int \<Rightarrow> int \<Rightarrow> frame \<Rightarrow> 'a vm) \<Rightarrow> 'a vm" where
  "pop2 f k = pop1 f (\<lambda>x f. pop1 f (k x))"

definition pop3 :: "frame \<Rightarrow> (int \<Rightarrow> int \<Rightarrow> int \<Rightarrow> frame \<Rightarrow> 'a vm) \<Rightarrow> 'a vm" where
  "pop3 f k = pop1 f (\<lambda>x f. pop2 f (k x))"

definition push :: "int \<Rightarrow> frame \<Rightarrow> frame" where
  "push x f = f\<lparr>f_stack := stack_push x (f_stack f)\<rparr>"

text \<open>A number from the pool is always overwritten, so that its value does not matter.\<close>

definition pool_get :: "world \<Rightarrow> world" where
  "pool_get w = w\<lparr>w_pool := snd (intPool_get (w_pool w))\<rparr>"

definition pool_put :: "int list \<Rightarrow> world \<Rightarrow> world" where
  "pool_put is w = w\<lparr>w_pool := intPool_put is (w_pool w)\<rparr>"

definition done_op :: "world \<Rightarrow> frame \<Rightarrow> exec_result" where
  "done_op w f = Ok (w, f, [], None)"

text \<open>A slice access of a helper without an error result.\<close>

fun panic_only :: "('e, 'a) outcome \<Rightarrow> 'a vm" where
  "panic_only (Ok x) = Ok x"
| "panic_only (Err _) = Panic"
| "panic_only Panic = Panic"

section \<open>Arithmetic\<close>

text \<open>\<open>big.Int.Div\<close> is the Euclidean division; it is only called with a divisor that is not zero.\<close>

definition big_Div :: "int \<Rightarrow> int \<Rightarrow> int" where
  "big_Div x y = sgn y * (x div \<bar>y\<bar>)"

definition opAdd :: executionFunc where
  "opAdd env cs w f = pop2 f (\<lambda>x y f. done_op (pool_put [y] w) (push (U256 (x + y)) f))"

definition opSub :: executionFunc where
  "opSub env cs w f = pop2 f (\<lambda>x y f. done_op (pool_put [y] w) (push (U256 (x - y)) f))"

definition opMul :: executionFunc where
  "opMul env cs w f = pop2 f (\<lambda>x y f. done_op (pool_put [y] w) (push (U256 (x * y)) f))"

definition opDiv :: executionFunc where
  "opDiv env cs w f = pop2 f (\<lambda>x y f.
     done_op (pool_put [y] w) (push (if y \<noteq> 0 then U256 (big_Div x y) else 0) f))"

definition opSdiv :: executionFunc where
  "opSdiv env cs w f = pop2 f (\<lambda>x y f.
     let x = S256 x; y = S256 y
     in if y = 0 then done_op w (push 0 f)
        else
          let w = pool_get w;
              n = (if x * y < 0 then - 1 else 1);
              res = big_Div \<bar>x\<bar> \<bar>y\<bar> * n
          in done_op (pool_put [\<bar>y\<bar>] w) (push (U256 res) f))"

definition opMod :: executionFunc where
  "opMod env cs w f = pop2 f (\<lambda>x y f.
     done_op (pool_put [y] w) (push (if y = 0 then 0 else U256 (big_Mod x y)) f))"

definition opSmod :: executionFunc where
  "opSmod env cs w f = pop2 f (\<lambda>x y f.
     let x = S256 x; y = S256 y
     in if y = 0 then done_op (pool_put [y] w) (push 0 f)
        else
          let n = (if x < 0 then - 1 else 1);
              res = big_Mod \<bar>x\<bar> \<bar>y\<bar> * n
          in done_op (pool_put [\<bar>y\<bar>] w) (push (U256 res) f))"

definition opExp :: executionFunc where
  "opExp env cs w f = pop2 f (\<lambda>base exponent f.
     case math_Exp base exponent of
       (result, base') \<Rightarrow> done_op (pool_put [base', exponent] w) (push result f))"

definition opSignExtend :: executionFunc where
  "opSignExtend env cs w f = pop1 f (\<lambda>back f.
     if back < 31 then
       pop1 f (\<lambda>num f.
         let bit' = unat (big_Uint64 back * 8 + 7);
             mask' = 2 ^ bit' - 1
         in if bit num bit'
            then done_op (pool_put [NOT mask'] w) (push (U256 (num OR NOT mask')) f)
            else done_op (pool_put [mask'] w) (push (U256 (num AND mask')) f))
     else done_op (pool_put [back] w) f)"

definition opNot :: executionFunc where
  "opNot env cs w f = pop1 f (\<lambda>x f. done_op w (push (U256 (NOT x)) f))"

text \<open>A comparison takes the number for the result 1 from the pool.\<close>

definition push_bool :: "bool \<Rightarrow> world \<Rightarrow> frame \<Rightarrow> world \<times> frame" where
  "push_bool b w f = (if b then (pool_get w, push 1 f) else (w, push 0 f))"

definition opLt :: executionFunc where
  "opLt env cs w f = pop2 f (\<lambda>x y f. case push_bool (x < y) w f of (w, f) \<Rightarrow> done_op (pool_put [x, y] w) f)"

definition opGt :: executionFunc where
  "opGt env cs w f = pop2 f (\<lambda>x y f. case push_bool (x > y) w f of (w, f) \<Rightarrow> done_op (pool_put [x, y] w) f)"

definition opSlt :: executionFunc where
  "opSlt env cs w f = pop2 f (\<lambda>x y f.
     let x = S256 x; y = S256 y
     in case push_bool (x < S256 y) w f of (w, f) \<Rightarrow> done_op (pool_put [x, y] w) f)"

definition opSgt :: executionFunc where
  "opSgt env cs w f = pop2 f (\<lambda>x y f.
     let x = S256 x; y = S256 y
     in case push_bool (x > y) w f of (w, f) \<Rightarrow> done_op (pool_put [x, y] w) f)"

definition opEq :: executionFunc where
  "opEq env cs w f = pop2 f (\<lambda>x y f. case push_bool (x = y) w f of (w, f) \<Rightarrow> done_op (pool_put [x, y] w) f)"

definition opIszero :: executionFunc where
  "opIszero env cs w f = pop1 f (\<lambda>x f. case push_bool (\<not> x > 0) w f of (w, f) \<Rightarrow> done_op (pool_put [x] w) f)"

definition opAnd :: executionFunc where
  "opAnd env cs w f = pop2 f (\<lambda>x y f. done_op (pool_put [y] w) (push (x AND y) f))"

definition opOr :: executionFunc where
  "opOr env cs w f = pop2 f (\<lambda>x y f. done_op (pool_put [y] w) (push (x OR y) f))"

definition opXor :: executionFunc where
  "opXor env cs w f = pop2 f (\<lambda>x y f. done_op (pool_put [y] w) (push (x XOR y) f))"

definition opByte :: executionFunc where
  "opByte env cs w f = pop2 f (\<lambda>th val f.
     done_op (pool_put [th] w)
       (push (if th < 32 then uint (math_Byte val 32 (nat (sint (big_Int64 th)))) else 0) f))"

definition opAddmod :: executionFunc where
  "opAddmod env cs w f = pop3 f (\<lambda>x y z f.
     done_op (pool_put [y, z] w) (push (if z > 0 then U256 (big_Mod (x + y) z) else 0) f))"

definition opMulmod :: executionFunc where
  "opMulmod env cs w f = pop3 f (\<lambda>x y z f.
     done_op (pool_put [y, z] w) (push (if z > 0 then U256 (big_Mod (x * y) z) else 0) f))"

section \<open>Environment\<close>

definition opSha3 :: executionFunc where
  "opSha3 env cs w f = pop2 f (\<lambda>offset sz f.
     bind_outcome (memory_Get (big_Int64 offset) (big_Int64 sz) (f_mem f)) (\<lambda>data.
     let h = Keccak256Hash (bk env) data;
         w = (if EnablePreimageRecording (vmConfig env) then w\<lparr>w_db := AddPreimage h data (w_db w)\<rparr> else w)
     in done_op (pool_put [offset, sz] w) (push (uint h) f)))"

definition opAddress :: executionFunc where
  "opAddress env cs w f = done_op w (push (uint (Address (f_contract f))) f)"

definition opBalance :: executionFunc where
  "opBalance env cs w f = pop1 f (\<lambda>a f.
     case GetBalance (BigToAddress a) (w_db w) of (b, s) \<Rightarrow> done_op (w\<lparr>w_db := s\<rparr>) (push b f))"

definition opOrigin :: executionFunc where
  "opOrigin env cs w f = done_op w (push (uint (Origin (ctx env))) f)"

definition opCaller :: executionFunc where
  "opCaller env cs w f = done_op w (push (uint (Caller (f_contract f))) f)"

definition opCallValue :: executionFunc where
  "opCallValue env cs w f = done_op (pool_get w) (push (value' (f_contract f)) f)"

definition opCallDataLoad :: executionFunc where
  "opCallDataLoad env cs w f = pop1 f (\<lambda>x f.
     bind_outcome (panic_only (getDataBig (Input (f_contract f)) x 32)) (\<lambda>d. done_op w (push (big_SetBytes d) f)))"

definition opCallDataSize :: executionFunc where
  "opCallDataSize env cs w f = done_op (pool_get w) (push (int (length (Input (f_contract f)))) f)"

text \<open>A copy into the memory, which overwrites the span at \<open>memOffset\<close>.\<close>

definition mem_store :: "int \<Rightarrow> int \<Rightarrow> byte list \<Rightarrow> frame \<Rightarrow> frame vm" where
  "mem_store off len val f =
     bind_outcome (memory_Set (big_Uint64 off) (big_Uint64 len) val (f_mem f)) (\<lambda>m. Ok (f\<lparr>f_mem := m\<rparr>))"

definition opCallDataCopy :: executionFunc where
  "opCallDataCopy env cs w f = pop3 f (\<lambda>memOffset dataOffset len f.
     bind_outcome (panic_only (getDataBig (Input (f_contract f)) dataOffset len)) (\<lambda>d.
     bind_outcome (mem_store memOffset len d f) (\<lambda>f. done_op (pool_put [memOffset, dataOffset, len] w) f)))"

definition opReturnDataSize :: executionFunc where
  "opReturnDataSize env cs w f = done_op (pool_get w) (push (int (length (w_returnData w))) f)"

definition opReturnDataCopy :: executionFunc where
  "opReturnDataCopy env cs w f = pop3 f (\<lambda>memOffset dataOffset len f.
     let end' = dataOffset + len;
         w' = pool_put [memOffset, dataOffset, len] w
     in if big_BitLen end' > 64 \<or> of_nat (length (w_returnData w)) < big_Uint64 end'
        then Ok (w', f, [], Some errReturnDataOutOfBounds)
        else if big_Uint64 end' < big_Uint64 dataOffset then Panic
        else
          bind_outcome
            (mem_store memOffset len
               (subslice (w_returnData w) (unat (big_Uint64 dataOffset)) (unat (big_Uint64 end'))) f)
            (\<lambda>f. done_op w' f))"

definition opExtCodeSize :: executionFunc where
  "opExtCodeSize env cs w f = pop1 f (\<lambda>a f.
     case GetCodeSize (bk env) (BigToAddress a) (w_db w) of (n, s) \<Rightarrow> done_op (w\<lparr>w_db := s\<rparr>) (push (int n) f))"

definition opCodeSize :: executionFunc where
  "opCodeSize env cs w f = done_op (pool_get w) (push (int (length (Code (f_contract f)))) f)"

definition opCodeCopy :: executionFunc where
  "opCodeCopy env cs w f = pop3 f (\<lambda>memOffset codeOffset len f.
     bind_outcome (panic_only (getDataBig (Code (f_contract f)) codeOffset len)) (\<lambda>d.
     bind_outcome (mem_store memOffset len d f) (\<lambda>f. done_op (pool_put [memOffset, codeOffset, len] w) f)))"

definition opExtCodeCopy :: executionFunc where
  "opExtCodeCopy env cs w f = pop1 f (\<lambda>a f. pop3 f (\<lambda>memOffset codeOffset len f.
     case GetCode (bk env) (BigToAddress a) (w_db w) of
       (code, s) \<Rightarrow>
         bind_outcome (panic_only (getDataBig (case code of None \<Rightarrow> [] | Some c \<Rightarrow> c) codeOffset len)) (\<lambda>d.
         bind_outcome (mem_store memOffset len d f) (\<lambda>f.
           done_op (pool_put [memOffset, codeOffset, len] (w\<lparr>w_db := s\<rparr>)) f))))"

definition opGasprice :: executionFunc where
  "opGasprice env cs w f = done_op (pool_get w) (push (GasPrice (ctx env)) f)"

definition opBlockhash :: executionFunc where
  "opBlockhash env cs w f = pop1 f (\<lambda>num f.
     let w = pool_get w;
         n = BlockNumber (ctx env) - 257
     in done_op (pool_put [num, n] w)
          (push (if num > n \<and> num < BlockNumber (ctx env) then uint (GetHash (ctx env) (big_Uint64 num)) else 0) f))"

definition opCoinbase :: executionFunc where
  "opCoinbase env cs w f = done_op w (push (uint (Coinbase (ctx env))) f)"

definition opTimestamp :: executionFunc where
  "opTimestamp env cs w f = done_op w (push (U256 (Time (ctx env))) f)"

definition opNumber :: executionFunc where
  "opNumber env cs w f = done_op w (push (U256 (BlockNumber (ctx env))) f)"

definition opDifficulty :: executionFunc where
  "opDifficulty env cs w f = done_op w (push (U256 (Difficulty (ctx env))) f)"

definition opGasLimit :: executionFunc where
  "opGasLimit env cs w f = done_op w (push (U256 (GasLimit (ctx env))) f)"

section \<open>Stack, memory, storage and jumps\<close>

definition opPop :: executionFunc where
  "opPop env cs w f = pop1 f (\<lambda>x f. done_op (pool_put [x] w) f)"

definition opMload :: executionFunc where
  "opMload env cs w f = pop1 f (\<lambda>offset f.
     bind_outcome (memory_Get (big_Int64 offset) 32 (f_mem f)) (\<lambda>d.
       done_op (pool_put [offset] w) (push (big_SetBytes d) f)))"

definition opMstore :: executionFunc where
  "opMstore env cs w f = pop2 f (\<lambda>mStart val f.
     bind_outcome (mem_store mStart 32 (PaddedBigBytes val 32) f) (\<lambda>f. done_op (pool_put [mStart, val] w) f))"

definition opMstore8 :: executionFunc where
  "opMstore8 env cs w f = pop2 f (\<lambda>off val f.
     let off = sint (big_Int64 off); m = f_mem f
     in if off < 0 \<or> int (length (store m)) \<le> off then Panic
        else done_op w (f\<lparr>f_mem := m\<lparr>store := (store m)[nat off := ucast (big_Int64 val AND 0xff)]\<rparr>\<rparr>))"

definition opSload :: executionFunc where
  "opSload env cs w f = pop1 f (\<lambda>x f.
     case GetState (bk env) (Address (f_contract f)) (BigToHash x) (w_db w) of
       (val, s) \<Rightarrow> done_op (w\<lparr>w_db := s\<rparr>) (push (uint val) f))"

definition opSstore :: executionFunc where
  "opSstore env cs w f = pop2 f (\<lambda>loc val f.
     done_op
       (pool_put [val] (w\<lparr>w_db := SetState (bk env) (Address (f_contract f)) (BigToHash loc) (BigToHash val) (w_db w)\<rparr>)) f)"

definition opJump :: executionFunc where
  "opJump env cs w f = pop1 f (\<lambda>pos f.
     case has (w_dests w) (CodeHash (f_contract f)) (Code (f_contract f)) pos of
       (valid_dest, d) \<Rightarrow>
         let w = w\<lparr>w_dests := d\<rparr>
         in if \<not> valid_dest then Ok (w, f, [], Some (errInvalidJump (GetOp (f_contract f) (big_Uint64 pos)) pos))
            else done_op (pool_put [pos] w) (f\<lparr>f_pc := big_Uint64 pos\<rparr>))"

definition opJumpi :: executionFunc where
  "opJumpi env cs w f = pop2 f (\<lambda>pos cond f.
     if cond \<noteq> 0 then
       (case has (w_dests w) (CodeHash (f_contract f)) (Code (f_contract f)) pos of
          (valid_dest, d) \<Rightarrow>
            let w = w\<lparr>w_dests := d\<rparr>
            in if \<not> valid_dest then Ok (w, f, [], Some (errInvalidJump (GetOp (f_contract f) (big_Uint64 pos)) pos))
               else done_op (pool_put [pos, cond] w) (f\<lparr>f_pc := big_Uint64 pos\<rparr>))
     else done_op (pool_put [pos, cond] w) (f\<lparr>f_pc := f_pc f + 1\<rparr>))"

definition opJumpdest :: executionFunc where
  "opJumpdest env cs w f = done_op w f"

definition opPc :: executionFunc where
  "opPc env cs w f = done_op (pool_get w) (push (uint (f_pc f)) f)"

definition opMsize :: executionFunc where
  "opMsize env cs w f = done_op (pool_get w) (push (int (length (store (f_mem f)))) f)"

definition opGas :: executionFunc where
  "opGas env cs w f = done_op (pool_get w) (push (uint (Gas (f_contract f))) f)"

section \<open>Calls\<close>

text \<open>What \<open>evm.Call\<close> and the others read of the contract that calls.\<close>

definition as_ref :: "Contract \<Rightarrow> contract_ref" where
  "as_ref c = ContractRef (Address c) (CallerAddress c) (value' c)"

definition add_gas :: "uint64 \<Rightarrow> frame \<Rightarrow> frame" where
  "add_gas g f = f\<lparr>f_contract := (f_contract f)\<lparr>Gas := Gas (f_contract f) + g\<rparr>\<rparr>"

definition opCreate :: executionFunc where
  "opCreate env cs w f = pop1 f (\<lambda>val f. pop2 f (\<lambda>offset sz f.
     bind_outcome (memory_Get (big_Int64 offset) (big_Int64 sz) (f_mem f)) (\<lambda>input.
     let gas = Gas (f_contract f);
         gas = (if IsEIP150 (chainConfig env) (BlockNumber (ctx env)) then gas - gas div 64 else gas);
         f = f\<lparr>f_contract := snd (UseGas (f_contract f) gas)\<rparr>
     in bind_outcome (c_Create cs (as_ref (f_contract f)) input gas val w) (\<lambda>(res, addr, returnGas, suberr, w).
        let f = (if IsHomestead (chainConfig env) (BlockNumber (ctx env)) \<and> suberr = Some ErrCodeStoreOutOfGas then push 0 f
                 else if suberr \<noteq> None \<and> suberr \<noteq> Some ErrCodeStoreOutOfGas then push 0 f
                 else push (uint addr) f);
            f = add_gas returnGas f;
            w = pool_put [val, offset, sz] w
        in if suberr = Some errExecutionReverted then Ok (w, f, res, None) else done_op w f))))"

text \<open>The end of the instructions for calls.\<close>

definition after_call ::
  "int list \<Rightarrow> int \<Rightarrow> int \<Rightarrow> frame \<Rightarrow> byte list \<times> uint64 \<times> vm_error option \<times> world \<Rightarrow> exec_result" where
  "after_call puts retOffset retSize f = (\<lambda>(ret, returnGas, err, w).
     let f = push (if err \<noteq> None then 0 else 1) f
     in bind_outcome
          (if err = None \<or> err = Some errExecutionReverted then mem_store retOffset retSize ret f else Ok f)
          (\<lambda>f. Ok (pool_put puts w, add_gas returnGas f, ret, None)))"

definition opCall :: executionFunc where
  "opCall env cs w f = pop3 f (\<lambda>g addr val f. pop2 f (\<lambda>inOffset inSize f. pop2 f (\<lambda>retOffset retSize f.
     let val = U256 val in
     bind_outcome (memory_Get (big_Int64 inOffset) (big_Int64 inSize) (f_mem f)) (\<lambda>args.
     let gas = (if val \<noteq> 0 then big_Uint64 g + CallStipend else big_Uint64 g)
     in bind_outcome (c_Call cs (as_ref (f_contract f)) (BigToAddress addr) args gas val w)
          (after_call [addr, val, inOffset, inSize, retOffset, retSize] retOffset retSize f)))))"

definition opCallCode :: executionFunc where
  "opCallCode env cs w f = pop3 f (\<lambda>g addr val f. pop2 f (\<lambda>inOffset inSize f. pop2 f (\<lambda>retOffset retSize f.
     let val = U256 val in
     bind_outcome (memory_Get (big_Int64 inOffset) (big_Int64 inSize) (f_mem f)) (\<lambda>args.
     let gas = (if val \<noteq> 0 then big_Uint64 g + CallStipend else big_Uint64 g)
     in bind_outcome (c_CallCode cs (as_ref (f_contract f)) (BigToAddress addr) args gas val w)
          (after_call [addr, val, inOffset, inSize, retOffset, retSize] retOffset retSize f)))))"

definition opDelegateCall :: executionFunc where
  "opDelegateCall env cs w f = pop2 f (\<lambda>g to f. pop2 f (\<lambda>inOffset inSize f. pop2 f (\<lambda>outOffset outSize f.
     bind_outcome (memory_Get (big_Int64 inOffset) (big_Int64 inSize) (f_mem f)) (\<lambda>args.
     bind_outcome (c_DelegateCall cs (as_ref (f_contract f)) (BigToAddress to) args (big_Uint64 g) w)
       (after_call [to, inOffset, inSize, outOffset, outSize] outOffset outSize f)))))"

definition opStaticCall :: executionFunc where
  "opStaticCall env cs w f = pop2 f (\<lambda>g addr f. pop2 f (\<lambda>inOffset inSize f. pop2 f (\<lambda>retOffset retSize f.
     bind_outcome (memory_Get (big_Int64 inOffset) (big_Int64 inSize) (f_mem f)) (\<lambda>args.
     bind_outcome (c_StaticCall cs (as_ref (f_contract f)) (BigToAddress addr) args (big_Uint64 g) w)
       (after_call [addr, inOffset, inSize, retOffset, retSize] retOffset retSize f)))))"

definition opReturn :: executionFunc where
  "opReturn env cs w f = pop2 f (\<lambda>offset sz f.
     bind_outcome (memory_GetPtr (big_Int64 offset) (big_Int64 sz) (f_mem f)) (\<lambda>ret.
       Ok (pool_put [offset, sz] w, f, ret, None)))"

definition opRevert :: executionFunc where
  "opRevert env cs w f = pop2 f (\<lambda>offset sz f.
     bind_outcome (memory_GetPtr (big_Int64 offset) (big_Int64 sz) (f_mem f)) (\<lambda>ret.
       Ok (pool_put [offset, sz] w, f, ret, None)))"

definition opStop :: executionFunc where
  "opStop env cs w f = done_op w f"

definition opSuicide :: executionFunc where
  "opSuicide env cs w f =
     (case GetBalance (Address (f_contract f)) (w_db w) of
        (balance, s) \<Rightarrow> pop1 f (\<lambda>a f.
          let s = AddBalance (bk env) (BigToAddress a) balance s;
              s = snd (Suicide (Address (f_contract f)) s)
          in done_op (w\<lparr>w_db := s\<rparr>) f))"

section \<open>Families of instructions\<close>

fun pop_topics :: "nat \<Rightarrow> frame \<Rightarrow> (hash list \<times> frame) vm" where
  "pop_topics 0 f = Ok ([], f)"
| "pop_topics (Suc n) f = pop1 f (\<lambda>x f. bind_outcome (pop_topics n f) (\<lambda>(ts, f). Ok (BigToHash x # ts, f)))"

definition makeLog :: "nat \<Rightarrow> executionFunc" where
  "makeLog size' env cs w f = pop2 f (\<lambda>mStart mSize f.
     bind_outcome (pop_topics size' f) (\<lambda>(topics, f).
     bind_outcome (memory_Get (big_Int64 mStart) (big_Int64 mSize) (f_mem f)) (\<lambda>d.
     let l = \<lparr>log_Address = Address (f_contract f), log_Topics = topics, log_Data = d,
              log_BlockNumber = big_Uint64 (BlockNumber (ctx env)), log_TxHash = 0, log_TxIndex = 0,
              log_BlockHash = 0, log_Index = 0, log_Removed = False\<rparr>
     in done_op (pool_put [mStart, mSize] (w\<lparr>w_db := AddLog l (w_db w)\<rparr>)) f)))"

definition makePush :: "uint64 \<Rightarrow> nat \<Rightarrow> executionFunc" where
  "makePush size' pushByteSize env cs w f =
     (let code = Code (f_contract f);
          codeLen = int (length code);
          startMin = (if sint (f_pc f + 1) < codeLen then sint (f_pc f + 1) else codeLen);
          endMin = (if startMin + int pushByteSize < codeLen then startMin + int pushByteSize else codeLen)
      in if startMin < 0 \<or> endMin < startMin then Panic
         else
           done_op (pool_get w)
             (push (big_SetBytes (RightPadBytes (subslice code (nat startMin) (nat endMin)) (int pushByteSize)))
                (f\<lparr>f_pc := f_pc f + size'\<rparr>)))"

definition makeDup :: "nat \<Rightarrow> executionFunc" where
  "makeDup size' env cs w f =
     bind_outcome (stack_dup (w_pool w) size' (f_stack f)) (\<lambda>(pool, st).
       done_op (w\<lparr>w_pool := pool\<rparr>) (f\<lparr>f_stack := st\<rparr>))"

definition makeSwap :: "nat \<Rightarrow> executionFunc" where
  "makeSwap size' env cs w f =
     bind_outcome (stack_swap (size' + 1) (f_stack f)) (\<lambda>st. done_op w (f\<lparr>f_stack := st\<rparr>))"

end
