(* ===== verification/Rlp.thy ===== *)
theory Rlp
  imports GoCommon
begin

text \<open>
  \<open>rlp/encode.go\<close> and \<open>rlp/raw.go\<close>: the encoder, which collects the strings and the headers of the lists apart and merges them at
  the end, and the functions that split an encoding without decoding it. The values that the
  encoder takes apart by reflection are a datatype with one constructor for each kind of Go value; the writer of a value that
  has its own \<open>EncodeRLP\<close> is not modelled. Lengths and offsets are Go \<open>int\<close>s that stay below \<open>2\<^sup>6\<^sup>3\<close>.
\<close>

section \<open>Values and errors\<close>

datatype rlp_error = errNegativeBigInt | ErrUnexpectedEOF | ErrCanonSize | ErrValueTooLarge | ErrExpectedString | ErrExpectedList

datatype rlp_value =
    VBytes "byte list"
  | VUint uint64
  | VBool bool
  | VBigInt int
  | VNilBigInt
  | VNilInterface
  | VRaw "byte list"
  | VList "rlp_value list"

section \<open>Headers\<close>

text \<open>The bytes that \<open>putint\<close> stores, by the size of the number.\<close>

definition uint_bytes :: "uint64 \<Rightarrow> byte list" where
  "uint_bytes i =
     (if i < 2 ^ 8 then [ucast i]
      else if i < 2 ^ 16 then [ucast (drop_bit 8 i), ucast i]
      else if i < 2 ^ 24 then [ucast (drop_bit 16 i), ucast (drop_bit 8 i), ucast i]
      else if i < 2 ^ 32 then [ucast (drop_bit 24 i), ucast (drop_bit 16 i), ucast (drop_bit 8 i), ucast i]
      else if i < 2 ^ 40 then
        [ucast (drop_bit 32 i), ucast (drop_bit 24 i), ucast (drop_bit 16 i), ucast (drop_bit 8 i), ucast i]
      else if i < 2 ^ 48 then
        [ucast (drop_bit 40 i), ucast (drop_bit 32 i), ucast (drop_bit 24 i), ucast (drop_bit 16 i), ucast (drop_bit 8 i), ucast i]
      else if i < 2 ^ 56 then
        [ucast (drop_bit 48 i), ucast (drop_bit 40 i), ucast (drop_bit 32 i), ucast (drop_bit 24 i), ucast (drop_bit 16 i),
         ucast (drop_bit 8 i), ucast i]
      else
        [ucast (drop_bit 56 i), ucast (drop_bit 48 i), ucast (drop_bit 40 i), ucast (drop_bit 32 i), ucast (drop_bit 24 i),
         ucast (drop_bit 16 i), ucast (drop_bit 8 i), ucast i])"

definition putint :: "byte list \<Rightarrow> uint64 \<Rightarrow> (rlp_error, nat \<times> byte list) outcome" where
  "putint b i =
     (let bs = uint_bytes i
      in if length b < length bs then Panic else Ok (length bs, go_copy b 0 bs))"

function intsize_loop :: "uint64 \<Rightarrow> nat \<Rightarrow> nat" where
  "intsize_loop i size' = (let i' = drop_bit 8 i in if i' = 0 then size' else intsize_loop i' (size' + 1))"
  by pat_completeness auto
termination
proof (relation "measure (\<lambda>(i, _). unat i)")
  fix i i' :: uint64 and n :: nat
  assume i': "i' = drop_bit 8 i" "i' \<noteq> 0"
  have u: "unat i' = unat i div 256"
    unfolding i'(1) using unat_drop_bit_eq [of 8 i] drop_bit_eq_div [of 8 "unat i"] by simp
  moreover have "unat i' \<noteq> 0" using i'(2) by (simp add: unat_eq_0)
  ultimately have "unat i' < unat i" by (cases "unat i = 0") simp_all
  then show "((i', n + 1), (i, n)) \<in> measure (\<lambda>(i, _). unat i)" by simp
qed simp

declare intsize_loop.simps [simp del]

definition intsize :: "uint64 \<Rightarrow> nat" where
  "intsize i = intsize_loop i 1"

definition headsize :: "uint64 \<Rightarrow> nat" where
  "headsize size' = (if size' < 56 then 1 else 1 + intsize size')"

definition ListSize :: "uint64 \<Rightarrow> uint64" where
  "ListSize contentSize = of_nat (headsize contentSize) + contentSize"

definition puthead :: "byte list \<Rightarrow> byte \<Rightarrow> byte \<Rightarrow> uint64 \<Rightarrow> (rlp_error, nat \<times> byte list) outcome" where
  "puthead buf smalltag largetag size' =
     (if buf = [] then Panic
      else if size' < 56 then Ok (1, buf[0 := smalltag + ucast size'])
      else
        bind_outcome (putint (tl buf) size') (\<lambda>(sizesize, b).
          Ok (sizesize + 1, (largetag + of_nat sizesize) # b)))"

section \<open>Encoding buffer\<close>

record listhead =
  offset :: nat
  lh_size :: int

record encbuf =
  str :: "byte list"
  lheads :: "listhead list"
  lhsize :: int

definition reset :: encbuf where
  "reset = \<lparr>str = [], lheads = [], lhsize = 0\<rparr>"

definition encbuf_Write :: "byte list \<Rightarrow> encbuf \<Rightarrow> encbuf" where
  "encbuf_Write b w = w\<lparr>str := str w @ b\<rparr>"

definition encodeStringHeader :: "nat \<Rightarrow> encbuf \<Rightarrow> (rlp_error, encbuf) outcome" where
  "encodeStringHeader size' w =
     (if size' < 56 then Ok (encbuf_Write [0x80 + of_nat size'] w)
      else
        bind_outcome (putint (replicate 8 0) (of_nat size')) (\<lambda>(sizesize, b).
          Ok (encbuf_Write ((0xB7 + of_nat sizesize) # take sizesize b) w)))"

definition encodeString :: "byte list \<Rightarrow> encbuf \<Rightarrow> (rlp_error, encbuf) outcome" where
  "encodeString b w =
     (if length b = 1 \<and> b ! 0 \<le> 0x7F then Ok (encbuf_Write [b ! 0] w)
      else bind_outcome (encodeStringHeader (length b) w) (\<lambda>w. Ok (encbuf_Write b w)))"

definition encbuf_size :: "encbuf \<Rightarrow> int" where
  "encbuf_size w = int (length (str w)) + lhsize w"

text \<open>\<open>list\<close> returns the place of the new header, which \<open>listEnd\<close> completes.\<close>

definition list_start :: "encbuf \<Rightarrow> nat \<times> encbuf" where
  "list_start w = (length (lheads w), w\<lparr>lheads := lheads w @ [\<lparr>offset = length (str w), lh_size = lhsize w\<rparr>]\<rparr>)"

definition listEnd :: "nat \<Rightarrow> encbuf \<Rightarrow> encbuf" where
  "listEnd i w =
     (let lh = lheads w ! i;
          size' = encbuf_size w - int (offset lh) - lh_size lh;
          w = w\<lparr>lheads := (lheads w)[i := lh\<lparr>lh_size := size'\<rparr>]\<rparr>
      in w\<lparr>lhsize := lhsize w + (if size' < 56 then 1 else 1 + int (intsize (word_of_int size')))\<rparr>)"

definition listhead_encode :: "listhead \<Rightarrow> byte list \<Rightarrow> (rlp_error, nat \<times> byte list) outcome" where
  "listhead_encode h buf = puthead buf 0xC0 0xF7 (word_of_int (lh_size h))"

fun toBytes_loop :: "byte list \<Rightarrow> listhead list \<Rightarrow> byte list \<Rightarrow> nat \<Rightarrow> nat \<Rightarrow> (rlp_error, byte list) outcome" where
  "toBytes_loop s [] out pos strpos =
     (if length out < pos \<or> length s < strpos then Panic else Ok (go_copy out pos (drop strpos s)))"
| "toBytes_loop s (head # hs) out pos strpos =
     (if length out < pos \<or> offset head < strpos \<or> length s < offset head then Panic
      else
        let n = min (length out - pos) (offset head - strpos);
            out = go_copy out pos (subslice s strpos (offset head));
            pos = pos + n;
            strpos = strpos + n
        in bind_outcome (listhead_encode head (drop pos out)) (\<lambda>(m, b).
             toBytes_loop s hs (take pos out @ b) (pos + m) strpos))"

definition toBytes :: "encbuf \<Rightarrow> (rlp_error, byte list) outcome" where
  "toBytes w =
     (if encbuf_size w < 0 then Panic
      else toBytes_loop (str w) (lheads w) (replicate (nat (encbuf_size w)) 0) 0 0)"

section \<open>Writers\<close>

definition writeUint :: "uint64 \<Rightarrow> encbuf \<Rightarrow> (rlp_error, encbuf) outcome" where
  "writeUint i w =
     (if i = 0 then Ok (encbuf_Write [0x80] w)
      else if i < 128 then Ok (encbuf_Write [ucast i] w)
      else
        bind_outcome (putint (replicate 8 0) i) (\<lambda>(s, b).
          Ok (encbuf_Write ((0x80 + of_nat s) # take s b) w)))"

definition writeBool :: "bool \<Rightarrow> encbuf \<Rightarrow> encbuf" where
  "writeBool b w = (if b then encbuf_Write [0x01] w else encbuf_Write [0x80] w)"

definition writeBigInt :: "int \<Rightarrow> encbuf \<Rightarrow> (rlp_error, encbuf) outcome" where
  "writeBigInt i w =
     (if i < 0 then Err errNegativeBigInt
      else if i = 0 then Ok (encbuf_Write [0x80] w)
      else encodeString (big_Bytes i) w)"

fun writer :: "rlp_value \<Rightarrow> encbuf \<Rightarrow> (rlp_error, encbuf) outcome"
  and writers :: "rlp_value list \<Rightarrow> encbuf \<Rightarrow> (rlp_error, encbuf) outcome" where
  "writer (VBytes b) w = encodeString b w"
| "writer (VUint i) w = writeUint i w"
| "writer (VBool b) w = Ok (writeBool b w)"
| "writer (VBigInt i) w = writeBigInt i w"
| "writer VNilBigInt w = Ok (encbuf_Write [0x80] w)"
| "writer VNilInterface w = Ok (encbuf_Write [0xC0] w)"
| "writer (VRaw b) w = Ok (encbuf_Write b w)"
| "writer (VList vs) w =
     (case list_start w of (lh, w) \<Rightarrow> bind_outcome (writers vs w) (\<lambda>w. Ok (listEnd lh w)))"
| "writers [] w = Ok w"
| "writers (v # vs) w = bind_outcome (writer v w) (writers vs)"

definition EncodeToBytes :: "rlp_value \<Rightarrow> (rlp_error, byte list) outcome" where
  "EncodeToBytes val = bind_outcome (writer val reset) toBytes"

section \<open>Splitting an encoding\<close>

datatype Kind = Kind_Byte | Kind_String | Kind_List

text \<open>The big-endian number in the first \<open>slen\<close> bytes, \<open>slen\<close> between 1 and 8.\<close>

definition read_be :: "byte list \<Rightarrow> uint64" where
  "read_be bs = foldl (\<lambda>s b. push_bit 8 s OR ucast b) 0 bs"

definition readSize :: "byte list \<Rightarrow> nat \<Rightarrow> (rlp_error, uint64) outcome" where
  "readSize b slen =
     (if length b < slen then Err ErrUnexpectedEOF
      else
        let s = (if 1 \<le> slen \<and> slen \<le> 8 then read_be (take slen b) else 0)
        in if s < 56 then Err ErrCanonSize
           else if b = [] then Panic
           else if b ! 0 = 0 then Err ErrCanonSize
           else Ok s)"

definition readKind :: "byte list \<Rightarrow> (rlp_error, Kind \<times> uint64 \<times> uint64) outcome" where
  "readKind buf =
     (if buf = [] then Err ErrUnexpectedEOF
      else
        let b = buf ! 0
        in bind_outcome
             (if b < 0x80 then Ok (Kind_Byte, 0, 1)
              else if b < 0xB8 then
                let contentsize = ucast (b - 0x80)
                in if contentsize = 1 \<and> length buf \<le> 1 then Panic
                   else if contentsize = 1 \<and> buf ! 1 < 128 then Err ErrCanonSize
                   else Ok (Kind_String, 1, contentsize)
              else if b < 0xC0 then
                bind_outcome (readSize (drop 1 buf) (unat (b - 0xB7))) (\<lambda>s. Ok (Kind_String, ucast (b - 0xB7) + 1, s))
              else if b < 0xF8 then Ok (Kind_List, 1, ucast (b - 0xC0))
              else bind_outcome (readSize (drop 1 buf) (unat (b - 0xF7))) (\<lambda>s. Ok (Kind_List, ucast (b - 0xF7) + 1, s)))
             (\<lambda>(k, tagsize, contentsize).
                if contentsize > of_nat (length buf) - tagsize then Err ErrValueTooLarge
                else Ok (k, tagsize, contentsize)))"

definition Split :: "byte list \<Rightarrow> (rlp_error, Kind \<times> byte list \<times> byte list) outcome" where
  "Split b =
     bind_outcome (readKind b) (\<lambda>(k, ts, cs).
       if ts + cs < ts \<or> length b < unat (ts + cs) then Panic
       else Ok (k, subslice b (unat ts) (unat (ts + cs)), drop (unat (ts + cs)) b))"

definition SplitString :: "byte list \<Rightarrow> (rlp_error, byte list \<times> byte list) outcome" where
  "SplitString b =
     bind_outcome (Split b) (\<lambda>(k, content, rest). if k = Kind_List then Err ErrExpectedString else Ok (content, rest))"

definition SplitList :: "byte list \<Rightarrow> (rlp_error, byte list \<times> byte list) outcome" where
  "SplitList b =
     bind_outcome (Split b) (\<lambda>(k, content, rest). if k \<noteq> Kind_List then Err ErrExpectedList else Ok (content, rest))"

lemma byte_sum_pos: "ucast ((b :: byte) - c) + 1 \<noteq> (0 :: uint64)"
proof
  assume a: "ucast (b - c) + 1 = (0 :: uint64)"
  have "unat (ucast (b - c) :: uint64) < 256"
    using order.strict_trans1 [OF take_bit_nat_less_eq_self unat_byte_less, of 64 "b - c"] by (simp add: unsigned_ucast_eq)
  then have "unat (ucast (b - c) + 1 :: uint64) \<noteq> 0" by (simp add: unat_word_ariths del: unsigned_ucast_eq)
  with a show False by simp
qed

lemma readKind_pos: "readKind buf = Ok (k, ts, cs) \<Longrightarrow> ts \<noteq> 0 \<or> cs = 1"
  by (auto simp: readKind_def bind_outcome_Ok_iff Let_def byte_sum_pos split: if_splits)

text \<open>The sum of the two sizes is at most the length of the slice, which is below \<open>2\<^sup>6\<^sup>3\<close>.\<close>

function count_loop :: "byte list \<Rightarrow> nat \<Rightarrow> (rlp_error, nat) outcome" where
  "count_loop b i =
     (if b = [] then Ok i
      else case readKind b of
        Ok (k, tagsize, size') \<Rightarrow>
          if tagsize + size' < tagsize \<or> length b < unat (tagsize + size') then Panic
          else count_loop (drop (unat (tagsize + size')) b) (i + 1)
      | Err e \<Rightarrow> Err e
      | Panic \<Rightarrow> Panic)"
  by pat_completeness auto
termination
proof (relation "measure (\<lambda>(b, _). length b)")
  fix b :: "byte list" and i k ts cs r q
  assume "b \<noteq> []" "readKind b = Ok r" "(k, q) = r" "(ts, cs) = q" "\<not> (ts + cs < ts \<or> length b < unat (ts + cs))"
  moreover from this have "ts + cs \<noteq> 0" using readKind_pos [of b k ts cs] by (auto simp: word_less_nat_alt unat_eq_0)
  ultimately show "((drop (unat (ts + cs)) b, i + 1), (b, i)) \<in> measure (\<lambda>(b, _). length b)"
    by (auto simp: unat_gt_0 intro!: diff_less)
qed simp

declare count_loop.simps [simp del]

definition CountValues :: "byte list \<Rightarrow> (rlp_error, nat) outcome" where
  "CountValues b = count_loop b 0"

section \<open>Numbers in headers\<close>

lemma drop_bit_0_iff: "k < 64 \<Longrightarrow> drop_bit k (i :: uint64) = 0 \<longleftrightarrow> i < 2 ^ k"
proof -
  assume "k < 64"
  then have "(2 :: nat) ^ k < 2 ^ 64" by (intro power_strict_increasing) simp_all
  then have "unat (of_nat (2 ^ k) :: uint64) = 2 ^ k"
    unfolding unat_of_nat64 by simp
  then have "unat (2 ^ k :: uint64) = 2 ^ k" by simp
  then have "i < 2 ^ k \<longleftrightarrow> unat i < 2 ^ k" by (simp add: word_less_nat_alt)
  moreover have "drop_bit k i = 0 \<longleftrightarrow> unat i div 2 ^ k = 0"
    by (metis drop_bit_eq_div unat_drop_bit_eq unat_eq_0)
  ultimately show ?thesis by (simp add: div_eq_0_iff)
qed

lemma intsize_unfold:
  "intsize_loop (drop_bit k i) n = (if drop_bit (k + 8) i = 0 then n else intsize_loop (drop_bit (k + 8) i) (n + 1))"
  by (subst intsize_loop.simps) (simp add: Let_def add.commute)

lemma drop_bit_64: "drop_bit 64 (i :: uint64) = 0"
  by (rule bit_word_eqI) (simp add: bit_simps)

lemma length_uint_bytes: "length (uint_bytes i) = intsize i"
proof -
  have "intsize i = (if i < 2 ^ 8 then 1 else if i < 2 ^ 16 then 2 else if i < 2 ^ 24 then 3 else if i < 2 ^ 32 then 4
    else if i < 2 ^ 40 then 5 else if i < 2 ^ 48 then 6 else if i < 2 ^ 56 then 7 else 8)"
    using intsize_unfold [of 0 i] intsize_unfold [of 8 i] intsize_unfold [of 16 i] intsize_unfold [of 24 i]
      intsize_unfold [of 32 i] intsize_unfold [of 40 i] intsize_unfold [of 48 i] intsize_unfold [of 56 i] drop_bit_64 [of i]
      drop_bit_0_iff [of 8 i] drop_bit_0_iff [of 16 i] drop_bit_0_iff [of 24 i] drop_bit_0_iff [of 32 i]
      drop_bit_0_iff [of 40 i] drop_bit_0_iff [of 48 i] drop_bit_0_iff [of 56 i]
    by (simp add: intsize_def split: if_splits)
  then show ?thesis by (simp add: uint_bytes_def)
qed

lemma uint_bytes_range: "1 \<le> length (uint_bytes i)" "length (uint_bytes i) \<le> 8"
  by (simp_all add: uint_bytes_def)

lemma read_step: "push_bit 8 (drop_bit (k + 8) i) OR ucast (ucast (drop_bit k i) :: byte) = drop_bit k (i :: uint64)"
  by (rule bit_word_eqI) (auto simp: bit_simps not_le)

lemma read_first: "drop_bit (k + 8) i = 0 \<Longrightarrow> ucast (ucast (drop_bit k i) :: byte) = drop_bit k (i :: uint64)"
  using read_step [of k i] by simp

lemma read_be_uint_bytes: "read_be (uint_bytes i) = i"
  using read_step [of 0 i] read_step [of 8 i] read_step [of 16 i] read_step [of 24 i] read_step [of 32 i] read_step [of 40 i]
    read_step [of 48 i] read_first [of 0 i] read_first [of 8 i] read_first [of 16 i] read_first [of 24 i] read_first [of 32 i]
    read_first [of 40 i] read_first [of 48 i] read_first [of 56 i]
    drop_bit_0_iff [of 8 i] drop_bit_0_iff [of 16 i] drop_bit_0_iff [of 24 i] drop_bit_0_iff [of 32 i]
    drop_bit_0_iff [of 40 i] drop_bit_0_iff [of 48 i] drop_bit_0_iff [of 56 i] drop_bit_64 [of i]
  by (simp add: read_be_def uint_bytes_def)

section \<open>Reference encoding\<close>

definition headbytes :: "byte \<Rightarrow> byte \<Rightarrow> nat \<Rightarrow> byte list" where
  "headbytes smalltag largetag n =
     (if n < 56 then [smalltag + of_nat n]
      else let bs = uint_bytes (of_nat n) in (largetag + of_nat (length bs)) # bs)"

definition string_encoding :: "byte list \<Rightarrow> byte list" where
  "string_encoding b = (if length b = 1 \<and> b ! 0 \<le> 0x7F then b else headbytes 0x80 0xB7 (length b) @ b)"

text \<open>The bytes that a value other than a list stands for.\<close>

fun payload :: "rlp_value \<Rightarrow> byte list" where
  "payload (VBytes b) = b"
| "payload (VUint i) = (if i = 0 then [] else uint_bytes i)"
| "payload (VBool b) = (if b then [1] else [])"
| "payload (VBigInt i) = (if i = 0 then [] else big_Bytes i)"
| "payload _ = []"

fun encoding :: "rlp_value \<Rightarrow> byte list" where
  "encoding (VRaw b) = b"
| "encoding VNilInterface = [0xC0]"
| "encoding (VList vs) = (let body = concat (map encoding vs) in headbytes 0xC0 0xF7 (length body) @ body)"
| "encoding v = string_encoding (payload v)"

fun encodable :: "rlp_value \<Rightarrow> bool" where
  "encodable (VBigInt i) \<longleftrightarrow> 0 \<le> i"
| "encodable (VList vs) \<longleftrightarrow> list_all encodable vs"
| "encodable _ \<longleftrightarrow> True"

section \<open>The encoder implements the reference encoding\<close>

lemma puthead_eq:
  assumes "length (headbytes t l n) \<le> length buf" "n < 2 ^ 64"
  shows "puthead buf t l (of_nat n) = Ok (length (headbytes t l n), headbytes t l n @ drop (length (headbytes t l n)) buf)"
proof -
  have "(of_nat n :: uint64) < 56 \<longleftrightarrow> n < 56"
    using assms(2) by (simp add: word_less_nat_alt unat_of_nat)
  moreover have "(ucast (of_nat n :: uint64) :: byte) = of_nat n" if "n < 56"
    using that by (simp add: unsigned_of_nat take_bit_nat_eq_self)
  ultimately show ?thesis
    using assms(1) by (cases buf) (auto simp: puthead_def headbytes_def putint_def go_copy_def Let_def)
qed

lemma headbytes_pos: "0 < length (headbytes t l n)"
  by (simp add: headbytes_def Let_def)

text \<open>The bytes that \<open>toBytes\<close> gives for a string with headers at increasing offsets.\<close>

abbreviation lh_bytes :: "listhead \<Rightarrow> byte list" where
  "lh_bytes h \<equiv> headbytes 0xC0 0xF7 (nat (lh_size h))"

fun merged :: "byte list \<Rightarrow> listhead list \<Rightarrow> nat \<Rightarrow> byte list" where
  "merged s [] p = drop p s"
| "merged s (h # hs) p = subslice s p (offset h) @ lh_bytes h @ merged s hs (offset h)"

fun heads_ok :: "byte list \<Rightarrow> listhead list \<Rightarrow> nat \<Rightarrow> bool" where
  "heads_ok s [] p \<longleftrightarrow> p \<le> length s"
| "heads_ok s (h # hs) p \<longleftrightarrow> p \<le> offset h \<and> 0 \<le> lh_size h \<and> lh_size h < 2 ^ 64 \<and> heads_ok s hs (offset h)"

lemma heads_ok_le: "heads_ok s hs p \<Longrightarrow> p \<le> length s"
  by (induction hs arbitrary: p) (auto intro: order_trans)

lemma length_merged:
  "heads_ok s hs p \<Longrightarrow> length (merged s hs p) + p = length s + sum_list (map (\<lambda>h. length (lh_bytes h)) hs)"
proof (induction hs arbitrary: p)
  case (Cons h hs)
  then show ?case using heads_ok_le [of s hs "offset h"] by (fastforce simp: length_subslice)
qed simp

lemma toBytes_loop_merged:
  assumes "heads_ok s hs p" "length rest = length (merged s hs p)"
  shows "toBytes_loop s hs (pre @ rest) (length pre) p = Ok (pre @ merged s hs p)"
  using assms
proof (induction hs arbitrary: p pre rest)
  case Nil
  then show ?case by (simp add: go_copy_def)
next
  case (Cons h hs)
  let ?sub = "subslice s p (offset h)" and ?hb = "lh_bytes h"
  have le: "p \<le> offset h" "offset h \<le> length s" and sz: "0 \<le> lh_size h" "lh_size h < 2 ^ 64"
    using Cons.prems heads_ok_le [of s hs "offset h"] by auto
  have ls: "length ?sub = offset h - p" using le by (simp add: length_subslice)
  define r1 where "r1 = drop (length ?sub) rest"
  have lr: "length r1 = length ?hb + length (merged s hs (offset h))" using Cons.prems(2) by (simp add: r1_def)
  have c: "go_copy (pre @ rest) (length pre) ?sub = pre @ ?sub @ r1"
    using Cons.prems(2) by (simp add: go_copy_def r1_def add.commute)
  have w: "word_of_int (lh_size h) = (of_nat (nat (lh_size h)) :: uint64)" using sz by simp
  have "listhead_encode h r1 = Ok (length ?hb, ?hb @ drop (length ?hb) r1)"
    unfolding listhead_encode_def w using lr sz by (intro puthead_eq) simp_all
  moreover have "toBytes_loop s hs ((pre @ ?sub @ ?hb) @ drop (length ?hb) r1) (length (pre @ ?sub @ ?hb)) (offset h)
      = Ok ((pre @ ?sub @ ?hb) @ merged s hs (offset h))"
    using Cons.prems(1) lr by (intro Cons.IH) simp_all
  moreover have n: "min (length (pre @ rest) - length pre) (offset h - p) = length ?sub" using ls Cons.prems(2) by simp
  moreover have o: "p + length ?sub = offset h" using ls le by simp
  have "\<not> (length (pre @ rest) < length pre \<or> offset h < p \<or> length s < offset h)" using le by simp
  then have "toBytes_loop s (h # hs) (pre @ rest) (length pre) p =
    bind_outcome (listhead_encode h r1) (\<lambda>(m, b). toBytes_loop s hs (pre @ ?sub @ b) (length pre + length ?sub + m) (offset h))"
    unfolding toBytes_loop.simps n c Let_def o by simp
  ultimately show ?case by (simp add: add.assoc)
qed

definition shift :: "nat \<Rightarrow> listhead \<Rightarrow> listhead" where
  "shift d h = h\<lparr>offset := d + offset h\<rparr>"

lemma shift_simps [simp]: "offset (shift d h) = d + offset h" "lh_size (shift d h) = lh_size h"
  by (simp_all add: shift_def)

lemma shift_shift [simp]: "shift a (shift b h) = shift (a + b) h" "shift 0 h = h"
  by (simp_all add: shift_def add.assoc)

lemma merged_shift: "merged (s @ t) (map (shift (length s)) hs) (length s + p) = merged t hs p"
  by (induction hs arbitrary: p) (simp_all add: subslice_def)

lemma heads_ok_shift: "heads_ok (s @ t) (map (shift (length s)) hs) (length s + p) = heads_ok t hs p"
  by (induction hs arbitrary: p) auto

lemma heads_ok_start: "heads_ok t hs q \<Longrightarrow> p \<le> q \<Longrightarrow> heads_ok t hs p"
  by (cases hs) auto

lemma merged_append:
  assumes "heads_ok s hs p" "heads_ok t gs 0"
  shows "merged (s @ t) (hs @ map (shift (length s)) gs) p = merged s hs p @ merged t gs 0 \<and>
    heads_ok (s @ t) (hs @ map (shift (length s)) gs) p"
  using assms(1)
proof (induction hs arbitrary: p)
  case Nil
  have "merged (s @ t) (map (shift (length s)) gs) p = drop p s @ merged t gs 0"
    using Nil merged_shift [of s t "tl gs" "offset (hd gs)"] by (cases gs) (simp_all add: subslice_def)
  then show ?case
    using Nil heads_ok_shift [of s t gs 0] assms(2) heads_ok_start by simp
next
  case (Cons h hs)
  then have "offset h \<le> length s" using heads_ok_le by auto
  then show ?case using Cons by (simp add: subslice_def)
qed

text \<open>A writer appends a string and headers that merge to \<open>b\<close>.\<close>

definition appended :: "encbuf \<Rightarrow> encbuf \<Rightarrow> byte list \<Rightarrow> bool" where
  "appended w w' b \<longleftrightarrow>
     (\<exists>s hs. str w' = str w @ s \<and> lheads w' = lheads w @ map (shift (length (str w))) hs \<and>
        lhsize w' = lhsize w + int (sum_list (map (\<lambda>h. length (lh_bytes h)) hs)) \<and> heads_ok s hs 0 \<and> merged s hs 0 = b)"

lemma appended_Write: "appended w (encbuf_Write b w) b"
  unfolding appended_def by (intro exI [of _ b] exI [of _ "[]"]) (simp add: encbuf_Write_def)

lemma appended_refl: "appended w w []"
  unfolding appended_def by (intro exI [of _ "[]"]) simp

lemma appended_trans:
  assumes "appended w w1 b" "appended w1 w2 c"
  shows "appended w w2 (b @ c)"
proof -
  obtain s hs where 1: "str w1 = str w @ s" "lheads w1 = lheads w @ map (shift (length (str w))) hs"
    "lhsize w1 = lhsize w + int (sum_list (map (\<lambda>h. length (lh_bytes h)) hs))" "heads_ok s hs 0" "merged s hs 0 = b"
    using assms(1) by (auto simp: appended_def)
  obtain t gs where 2: "str w2 = str w1 @ t" "lheads w2 = lheads w1 @ map (shift (length (str w1))) gs"
    "lhsize w2 = lhsize w1 + int (sum_list (map (\<lambda>h. length (lh_bytes h)) gs))" "heads_ok t gs 0" "merged t gs 0 = c"
    using assms(2) by (auto simp: appended_def)
  show ?thesis
    unfolding appended_def using 1 2 merged_append [OF 1(4) 2(4)]
    by (intro exI [of _ "s @ t"] exI [of _ "hs @ map (shift (length s)) gs"]) (simp add: comp_def)
qed

lemma appended_list:
  assumes "list_start w = (i, w1)" "appended w1 w2 b" "length b < 2 ^ 63"
  shows "appended w (listEnd i w2) (headbytes 0xC0 0xF7 (length b) @ b)"
proof -
  define h where "h = \<lparr>offset = length (str w), lh_size = lhsize w\<rparr>"
  have w1: "i = length (lheads w)" "str w1 = str w" "lheads w1 = lheads w @ [h]" "lhsize w1 = lhsize w"
    using assms(1) by (auto simp: list_start_def h_def)
  obtain s hs where a: "str w2 = str w @ s" "lheads w2 = lheads w @ h # map (shift (length (str w))) hs"
    "lhsize w2 = lhsize w + int (sum_list (map (\<lambda>h. length (lh_bytes h)) hs))" "heads_ok s hs 0" "merged s hs 0 = b"
    using assms(2) by (auto simp: appended_def w1)
  define n where "n = encbuf_size w2 - int (offset h) - lh_size h"
  define h' where "h' = \<lparr>offset = 0, lh_size = n\<rparr>"
  have n: "n = int (length b)"
    using length_merged [OF a(4)] a by (simp add: n_def h_def encbuf_size_def)
  have "int (length (lh_bytes h')) = (if n < 56 then 1 else 1 + int (intsize (word_of_int n)))"
    using n by (simp add: h'_def headbytes_def length_uint_bytes Let_def)
  moreover have "h\<lparr>lh_size := n\<rparr> = shift (length (str w)) h'" by (simp add: h_def h'_def shift_def)
  moreover have "lheads w2 ! i = h" using a(2) w1(1) by simp
  ultimately have e: "listEnd i w2 = w2\<lparr>lheads := lheads w @ map (shift (length (str w))) (h' # hs),
      lhsize := lhsize w2 + int (length (lh_bytes h'))\<rparr>"
    using a(2) w1(1) by (simp add: listEnd_def n_def Let_def)
  have "heads_ok s (h' # hs) 0" "merged s (h' # hs) 0 = headbytes 0xC0 0xF7 (length b) @ b"
    using a(4,5) n assms(3) by (simp_all add: h'_def subslice_def)
  then show ?thesis
    unfolding appended_def e using a(1,3) by (intro exI [of _ s] exI [of _ "h' # hs"]) simp
qed

lemma putint_8: "putint (replicate 8 0) i = Ok (length (uint_bytes i), uint_bytes i @ replicate (8 - length (uint_bytes i)) 0)"
  using uint_bytes_range [of i] by (auto simp: putint_def go_copy_def Let_def)

lemma encodeString_appended: "\<exists>w'. encodeString b w = Ok w' \<and> appended w w' (string_encoding b)"
proof -
  have "encodeString b w = Ok (encbuf_Write (string_encoding b) w)"
    by (cases b)
      (auto simp: encodeString_def string_encoding_def encodeStringHeader_def headbytes_def putint_8 encbuf_Write_def Let_def)
  then show ?thesis using appended_Write by blast
qed

lemma unat_to_byte: "unat (ucast (x :: uint64) :: byte) = unat x mod 256"
  by (simp add: unsigned_ucast_eq unsigned_take_bit_eq take_bit_eq_mod)

lemma string_single: "length b = 1 \<Longrightarrow> string_encoding b = (if b ! 0 \<le> 0x7F then b else 0x81 # b)"
  by (simp add: string_encoding_def headbytes_def)

lemma uint_bytes_single:
  "length (uint_bytes i) = 1 \<longleftrightarrow> i < 2 ^ 8" "i < 2 ^ 8 \<Longrightarrow> uint_bytes i ! 0 \<le> 0x7F \<longleftrightarrow> i < 128"
  by (auto simp: uint_bytes_def word_le_nat_alt word_less_nat_alt unat_to_byte)

lemma writeUint_appended: "\<exists>w'. writeUint i w = Ok w' \<and> appended w w' (string_encoding (payload (VUint i)))"
proof -
  have "i < 2 ^ 8" if "i < 128" using that by (simp add: word_less_nat_alt)
  then have "string_encoding (uint_bytes i) = (if i < 128 then [ucast i] else (0x80 + of_nat (length (uint_bytes i))) # uint_bytes i)"
    using uint_bytes_single [of i] uint_bytes_range [of i]
    by (auto simp: string_encoding_def headbytes_def Let_def) (simp_all add: uint_bytes_def)
  moreover have "(0 :: uint64) < 128" by simp
  ultimately have "writeUint i w = Ok (encbuf_Write (string_encoding (payload (VUint i))) w)"
    by (simp add: writeUint_def putint_8) (simp add: string_encoding_def headbytes_def)
  then show ?thesis using appended_Write by blast
qed

lemma writer_appended:
  "encodable v \<Longrightarrow> length (encoding v) < 2 ^ 63 \<Longrightarrow> \<exists>w'. writer v w = Ok w' \<and> appended w w' (encoding v)"
  "list_all encodable vs \<Longrightarrow> length (concat (map encoding vs)) < 2 ^ 63 \<Longrightarrow>
     \<exists>w'. writers vs w = Ok w' \<and> appended w w' (concat (map encoding vs))"
proof (induction v w and vs w rule: writer_writers.induct)
  case (1 b w)
  then show ?case using encodeString_appended by simp
next
  case (2 i w)
  then show ?case using writeUint_appended [of i w] by simp
next
  case (3 b w)
  then show ?case using appended_Write [of w] by (auto simp: writeBool_def string_encoding_def headbytes_def)
next
  case (4 i w)
  then show ?case
    using encodeString_appended [of "big_Bytes i"] appended_Write [of w] by (auto simp: writeBigInt_def string_encoding_def headbytes_def)
next
  case (8 vs w)
  let ?b = "concat (map encoding vs)"
  obtain i w1 where ls: "list_start w = (i, w1)" by fastforce
  have "length ?b < 2 ^ 63" using "8.prems"(2) by (simp add: Let_def)
  then show ?case using 8 ls appended_list [OF ls, of _ ?b] by (fastforce simp: Let_def)
next
  case (10 v vs w)
  then show ?case using appended_trans by fastforce
qed (use appended_Write appended_refl in \<open>auto simp: string_encoding_def headbytes_def\<close>)

lemma EncodeToBytes_encoding:
  assumes "encodable v" "length (encoding v) < 2 ^ 63"
  shows "EncodeToBytes v = Ok (encoding v)"
proof -
  obtain w where w: "writer v reset = Ok w" "appended reset w (encoding v)"
    using writer_appended(1) [OF assms] by blast
  moreover have "map (shift 0) hs = hs" for hs by (simp add: map_idI)
  ultimately have m: "heads_ok (str w) (lheads w) 0" "merged (str w) (lheads w) 0 = encoding v"
      "lhsize w = int (sum_list (map (\<lambda>h. length (lh_bytes h)) (lheads w)))"
    by (auto simp: appended_def reset_def)
  moreover have "encbuf_size w = int (length (encoding v))"
    using length_merged [OF m(1)] m by (simp add: encbuf_size_def)
  ultimately show ?thesis
    using w(1) toBytes_loop_merged [OF m(1), of "replicate (length (encoding v)) 0" "[]"]
    by (simp add: EncodeToBytes_def toBytes_def)
qed

section \<open>Splitting inverts the encoding\<close>

lemma uint_bytes_first: "i \<noteq> 0 \<Longrightarrow> uint_bytes i ! 0 \<noteq> 0"
  using read_first [of 0 i] read_first [of 8 i] read_first [of 16 i] read_first [of 24 i] read_first [of 32 i]
    read_first [of 40 i] read_first [of 48 i] read_first [of 56 i]
    drop_bit_0_iff [of 8 i] drop_bit_0_iff [of 16 i] drop_bit_0_iff [of 24 i] drop_bit_0_iff [of 32 i]
    drop_bit_0_iff [of 40 i] drop_bit_0_iff [of 48 i] drop_bit_0_iff [of 56 i] drop_bit_64 [of i]
  by (auto simp: uint_bytes_def)

lemma readSize_uint_bytes:
  assumes "56 \<le> n" "n < 2 ^ 64"
  shows "readSize (uint_bytes (of_nat n) @ rest) (length (uint_bytes (of_nat n))) = Ok (of_nat n)"
proof -
  let ?i = "of_nat n :: uint64"
  have n: "unat ?i = n" using assms(2) by (simp add: unat_of_nat)
  then have "\<not> ?i < 56" "?i \<noteq> 0" using assms(1) by (auto simp: word_less_nat_alt)
  moreover have "uint_bytes ?i \<noteq> []" using uint_bytes_range(1) [of ?i] by auto
  ultimately show ?thesis
    using uint_bytes_range [of ?i] uint_bytes_first [of ?i] read_be_uint_bytes [of ?i]
    by (auto simp: readSize_def nth_append Let_def)
qed

text \<open>The value after a header of a string that is not a single small byte, and after a header of a list.\<close>

definition fits :: "byte list \<Rightarrow> uint64 \<times> uint64 \<Rightarrow> bool" where
  "fits buf = (\<lambda>(ts, cs). unat ts + unat cs \<le> length buf)"

lemma fits_iff:
  assumes "length buf < 2 ^ 63" "unat ts \<le> length buf"
  shows "cs > of_nat (length buf) - ts \<longleftrightarrow> \<not> fits buf (ts, cs)"
proof -
  have "unat (of_nat (length buf) - ts) = length buf - unat ts"
    using assms unat_length [OF assms(1)] by (metis unat_sub word_le_nat_alt)
  then show ?thesis using assms by (auto simp: word_less_nat_alt fits_def)
qed

lemma unat_byte_add: "unat (c :: byte) + n < 256 \<Longrightarrow> unat (c + of_nat n) = unat c + n"
  by (simp add: unat_word_ariths unat_of_nat)

lemma byte_add_diff: "(c + of_nat n :: byte) - c = of_nat n"
  by simp

lemma ucast_of_nat_byte: "n < 256 \<Longrightarrow> (ucast (of_nat n :: byte) :: uint64) = of_nat n"
  by (simp add: unsigned_of_nat take_bit_nat_eq_self)

lemma long_head:
  assumes "56 \<le> length b" "length b < 2 ^ 61" "length rest < 2 ^ 61" "c = 0xB7 \<or> c = (0xF7 :: byte)"
  defines "bs \<equiv> uint_bytes (of_nat (length b))"
  defines "buf \<equiv> (c + of_nat (length bs)) # bs @ b @ rest"
  shows "unat (c + of_nat (length bs)) = unat c + length bs" "1 \<le> length bs" "length bs \<le> 8"
    "unat (c + of_nat (length bs) - c) = length bs" "ucast (c + of_nat (length bs) - c) + 1 = (of_nat (length bs + 1) :: uint64)"
    "readSize (drop 1 buf) (length bs) = Ok (of_nat (length b))"
    "of_nat (length b) > of_nat (length buf) - (of_nat (length bs + 1) :: uint64) \<longleftrightarrow> False"
proof -
  show r: "1 \<le> length bs" "length bs \<le> 8" using uint_bytes_range by (simp_all add: bs_def)
  show "unat (c + of_nat (length bs)) = unat c + length bs" using r assms(4) by (intro unat_byte_add) auto
  show "unat (c + of_nat (length bs) - c) = length bs" using r by (simp add: unat_of_nat)
  show "ucast (c + of_nat (length bs) - c) + 1 = (of_nat (length bs + 1) :: uint64)"
    using r ucast_of_nat_byte [of "length bs"] by simp
  show "readSize (drop 1 buf) (length bs) = Ok (of_nat (length b))"
    using readSize_uint_bytes [of "length b" "b @ rest"] assms(1,2) by (simp add: buf_def bs_def)
  have "unat (of_nat (length bs + 1) :: uint64) = length bs + 1" "unat (of_nat (length b) :: uint64) = length b"
    using r assms(2) by (simp_all add: unat_of_nat del: of_nat_add of_nat_Suc)
  then show "of_nat (length b) > of_nat (length buf) - (of_nat (length bs + 1) :: uint64) \<longleftrightarrow> False"
    using r assms(2,3) fits_iff [of buf "of_nat (length bs + 1)" "of_nat (length b)"] by (simp add: buf_def fits_def del: of_nat_add of_nat_Suc)
qed

lemma readKind_string_head:
  assumes "length b < 2 ^ 61" "length rest < 2 ^ 61" "\<not> (length b = 1 \<and> b ! 0 \<le> 0x7F)"
  shows "readKind (headbytes 0x80 0xB7 (length b) @ b @ rest)
    = Ok (Kind_String, of_nat (length (headbytes 0x80 0xB7 (length b))), of_nat (length b))"
proof (cases "length b < 56")
  case True
  let ?n = "length b" and ?buf = "(0x80 + of_nat (length b)) # b @ rest"
  have u: "unat (0x80 + of_nat ?n :: byte) = 128 + ?n" using unat_byte_add [of 128 ?n] True by simp
  have "\<not> (0x80 + of_nat ?n :: byte) < 0x80" "(0x80 + of_nat ?n :: byte) < 0xB8"
    using True unfolding word_less_nat_alt u by simp_all
  moreover have "(of_nat ?n :: uint64) = 1 \<longleftrightarrow> ?n = 1" "unat (of_nat ?n :: uint64) = ?n"
    using True by (simp_all add: word_unat_eq_iff unat_of_nat)
  moreover have "?buf ! 1 < 128 \<longleftrightarrow> b ! 0 \<le> 0x7F" if "?n = 1"
    using that by (cases b) (auto simp: word_less_nat_alt word_le_nat_alt)
  moreover have "fits ?buf (1, of_nat ?n)" using calculation by (simp add: fits_def)
  moreover have "(ucast (0x80 + of_nat ?n - 0x80 :: byte) :: uint64) = of_nat ?n"
    using True ucast_of_nat_byte [of ?n] by simp
  ultimately show ?thesis
    using True assms fits_iff [of ?buf 1 "of_nat ?n"] by (simp add: readKind_def headbytes_def Let_def)
next
  case False
  note h = long_head [where c = "0xB7", OF _ assms(1,2)]
  let ?s = "length (uint_bytes (of_nat (length b)))"
  have "\<not> (0xB7 + of_nat ?s :: byte) < 0x80" "\<not> (0xB7 + of_nat ?s :: byte) < 0xB8" "(0xB7 + of_nat ?s :: byte) < 0xC0"
    using False h(1-3) unfolding word_less_nat_alt by auto
  then show ?thesis using False h(4-7) by (simp add: readKind_def headbytes_def Let_def)
qed

lemma readKind_list_head:
  assumes "length b < 2 ^ 61" "length rest < 2 ^ 61"
  shows "readKind (headbytes 0xC0 0xF7 (length b) @ b @ rest)
    = Ok (Kind_List, of_nat (length (headbytes 0xC0 0xF7 (length b))), of_nat (length b))"
proof (cases "length b < 56")
  case True
  let ?n = "length b" and ?buf = "(0xC0 + of_nat (length b)) # b @ rest"
  have u: "unat (0xC0 + of_nat ?n :: byte) = 192 + ?n" using unat_byte_add [of 192 ?n] True by simp
  have "\<not> (0xC0 + of_nat ?n :: byte) < 0x80" "\<not> (0xC0 + of_nat ?n :: byte) < 0xB8" "\<not> (0xC0 + of_nat ?n :: byte) < 0xC0"
      "(0xC0 + of_nat ?n :: byte) < 0xF8"
    using True unfolding word_less_nat_alt u by simp_all
  moreover have "unat (of_nat ?n :: uint64) = ?n" using True by (simp add: unat_of_nat)
  moreover have "fits ?buf (1, of_nat ?n)" using calculation by (simp add: fits_def)
  moreover have "(ucast (0xC0 + of_nat ?n - 0xC0 :: byte) :: uint64) = of_nat ?n"
    using True ucast_of_nat_byte [of ?n] by simp
  ultimately show ?thesis
    using True assms fits_iff [of ?buf 1 "of_nat ?n"] by (simp add: readKind_def headbytes_def Let_def)
next
  case False
  note h = long_head [where c = "0xF7", OF _ assms(1,2)]
  let ?s = "length (uint_bytes (of_nat (length b)))"
  have "\<not> (0xF7 + of_nat ?s :: byte) < 0x80" "\<not> (0xF7 + of_nat ?s :: byte) < 0xB8" "\<not> (0xF7 + of_nat ?s :: byte) < 0xC0"
      "\<not> (0xF7 + of_nat ?s :: byte) < 0xF8"
    using False h(1-3) unfolding word_less_nat_alt by auto
  then show ?thesis using False h(4-7) by (simp add: readKind_def headbytes_def Let_def)
qed


fun content :: "rlp_value \<Rightarrow> byte list" where
  "content (VList vs) = concat (map encoding vs)"
| "content v = payload v"

fun kind_of :: "rlp_value \<Rightarrow> Kind" where
  "kind_of (VList vs) = Kind_List"
| "kind_of VNilInterface = Kind_List"
| "kind_of v = (if length (payload v) = 1 \<and> payload v ! 0 \<le> 0x7F then Kind_Byte else Kind_String)"

fun is_raw :: "rlp_value \<Rightarrow> bool" where
  "is_raw (VRaw b) \<longleftrightarrow> True"
| "is_raw _ \<longleftrightarrow> False"

text \<open>Every encoding is a header, maybe none, and the content.\<close>

lemma readKind_encoding:
  assumes "\<not> is_raw v" "length (encoding v) < 2 ^ 61" "length rest < 2 ^ 61"
  obtains h where "encoding v = h @ content v"
    "readKind (encoding v @ rest) = Ok (kind_of v, of_nat (length h), of_nat (length (content v)))"
proof -
  note main = that
  have str: thesis if "encoding v = string_encoding b" "content v = b"
    "kind_of v = (if length b = 1 \<and> b ! 0 \<le> 0x7F then Kind_Byte else Kind_String)" for b
  proof (cases "length b = 1 \<and> b ! 0 \<le> 0x7F")
    case True
    then obtain x where x: "b = [x]" "x \<le> 0x7F" by (cases b) auto
    then have "x < 0x80" by (simp add: word_le_nat_alt word_less_nat_alt)
    moreover have "\<not> (of_nat (length (x # rest)) :: uint64) < 1"
      using assms(3) by (simp add: word_less_nat_alt unat_of_nat del: of_nat_Suc)
    ultimately show thesis
      using main [of "[]"] x that by (simp add: string_encoding_def readKind_def Let_def)
  next
    case False
    then have "encoding v = headbytes 0x80 0xB7 (length b) @ b" "kind_of v = Kind_String"
      using that by (auto simp: string_encoding_def)
    then show thesis
      using main [of "headbytes 0x80 0xB7 (length b)"] readKind_string_head [OF _ assms(3) False] assms(2) that(2) by simp
  qed
  have lst: thesis if "encoding v = headbytes 0xC0 0xF7 (length b) @ b" "content v = b" "kind_of v = Kind_List" for b
    using main [of "headbytes 0xC0 0xF7 (length b)"] readKind_list_head [of b rest] assms(2,3) that by simp
  show thesis
    using assms(1) str lst by (cases v) (auto simp: Let_def headbytes_def)
qed

text \<open>The content and the rest of a value whose sizes are known.\<close>

lemma sizes_add:
  assumes "m + n < 2 ^ 62"
  shows "unat (of_nat m :: uint64) = m" "unat (of_nat m + of_nat n :: uint64) = m + n"
    "\<not> (of_nat m + of_nat n :: uint64) < of_nat m"
proof -
  show m: "unat (of_nat m :: uint64) = m" using assms by (simp add: unat_of_nat)
  show s: "unat (of_nat m + of_nat n :: uint64) = m + n" using assms by (simp add: unat_of_nat flip: of_nat_add)
  show "\<not> (of_nat m + of_nat n :: uint64) < of_nat m" unfolding word_less_nat_alt m s by simp
qed

lemma Split_encoding:
  assumes "\<not> is_raw v" "length (encoding v) < 2 ^ 61" "length rest < 2 ^ 61"
  shows "Split (encoding v @ rest) = Ok (kind_of v, content v, rest)"
proof -
  obtain h where h: "encoding v = h @ content v"
    "readKind (encoding v @ rest) = Ok (kind_of v, of_nat (length h), of_nat (length (content v)))"
    using readKind_encoding [OF assms] by blast
  moreover have "length h + length (content v) < 2 ^ 62" using assms(2) h(1) by simp
  ultimately show ?thesis
    using sizes_add [of "length h" "length (content v)"] by (simp add: Split_def subslice_def)
qed

lemma encoding_not_Nil: "\<not> is_raw v \<Longrightarrow> encoding v \<noteq> []"
  using headbytes_pos by (cases v) (auto simp: Let_def string_encoding_def)

lemma count_loop_encodings:
  "list_all (\<lambda>v. \<not> is_raw v) vs \<Longrightarrow> length (concat (map encoding vs)) < 2 ^ 61 \<Longrightarrow>
     count_loop (concat (map encoding vs)) i = Ok (i + length vs)"
proof (induction vs arbitrary: i)
  case Nil
  then show ?case by (simp add: count_loop.simps)
next
  case (Cons v vs)
  let ?rest = "concat (map encoding vs)"
  have s: "length (encoding v) < 2 ^ 61" "length ?rest < 2 ^ 61" using Cons.prems(2) by simp_all
  obtain h where h: "encoding v = h @ content v"
    "readKind (encoding v @ ?rest) = Ok (kind_of v, of_nat (length h), of_nat (length (content v)))"
    using readKind_encoding [OF _ s] Cons.prems(1) by auto
  moreover have "length h + length (content v) < 2 ^ 62" using s(1) h(1) by simp
  moreover have "encoding v \<noteq> []" using encoding_not_Nil Cons.prems(1) by simp
  ultimately show ?case
    using sizes_add [of "length h" "length (content v)"] Cons by (subst count_loop.simps) auto
qed

lemma readSize_not_Panic: "1 \<le> n \<Longrightarrow> readSize b n \<noteq> Panic"
  by (auto simp: readSize_def Let_def)

lemma unat_from_byte: "unat (ucast (x :: byte) :: uint64) = unat x"
  using take_bit_nat_eq_self [of "unat x" 64] unat_byte_less [of x] by (simp add: unsigned_ucast_eq)

lemma unat_above: "\<not> (b :: byte) < c \<Longrightarrow> unat (b - c) = unat b - unat c"
  by (simp add: unat_sub not_less)

lemma long_sizes:
  assumes "\<not> (b :: byte) < c" "unat c = Suc (unat d)"
  shows "1 \<le> unat (b - d)" "unat (ucast (b - d) + 1 :: uint64) = unat (b - d) + 1"
proof -
  have "\<not> b < d" using assms by (simp add: word_less_nat_alt)
  then show "1 \<le> unat (b - d)" using unat_above [of b d] assms by (simp add: word_less_nat_alt)
  show "unat (ucast (b - d) + 1 :: uint64) = unat (b - d) + 1"
    using unat_from_byte [of "b - d"] less_trans [OF unat_byte_less [of "b - d"], of "2 ^ 64 - 1"]
    by (simp add: unat_word_ariths)
qed

lemma readKind_Panic_iff: "readKind buf = Panic \<longleftrightarrow> buf = [0x81]"
proof -
  have "(ucast (buf ! 0 - 0x80) :: uint64) = 1 \<longleftrightarrow> buf ! 0 = 0x81"
    using unat_from_byte [of "buf ! 0 - 0x80"] word_unat_eq_iff [of "buf ! 0 - 0x80" 1]
    by (simp add: word_unat_eq_iff [of _ "1 :: uint64"] diff_eq_eq)
  moreover have "readSize (drop 1 buf) (unat (buf ! 0 - 0xB7)) \<noteq> Panic" if "\<not> buf ! 0 < 0xB8"
    using long_sizes(1) [OF that, of "0xB7"] by (intro readSize_not_Panic) simp
  moreover have "readSize (drop 1 buf) (unat (buf ! 0 - 0xF7)) \<noteq> Panic" if "\<not> buf ! 0 < 0xF8"
    using long_sizes(1) [OF that, of "0xF7"] by (intro readSize_not_Panic) simp
  ultimately show ?thesis
    by (cases "readSize (drop 1 buf) (unat (buf ! 0 - 0xB7))"; cases "readSize (drop 1 buf) (unat (buf ! 0 - 0xF7))"; cases buf)
      (auto simp: readKind_def Let_def)
qed

lemma readSize_length: "readSize b n = Ok s \<Longrightarrow> n \<le> length b"
  by (auto simp: readSize_def split: if_splits)

lemma readKind_fits:
  assumes "readKind buf = Ok (k, ts, cs)" "length buf < 2 ^ 63"
  shows "fits buf (ts, cs)"
proof -
  have "unat ts \<le> length buf \<and> \<not> cs > of_nat (length buf) - ts"
    using assms(1) long_sizes(2) [of "buf ! 0" "0xB8" "0xB7"] long_sizes(2) [of "buf ! 0" "0xF8" "0xF7"]
    by (cases buf) (auto simp: readKind_def bind_outcome_Ok_iff Let_def dest!: readSize_length split: if_splits)
  then show ?thesis using fits_iff [OF assms(2)] by blast
qed

section \<open>Properties\<close>

text \<open>C15: The encoder, which keeps the headers of the lists apart from the strings and merges them when all sizes are known, produces
  the recursive encoding of every value without a negative number: the buffer it allocates has exactly the right length, and no
  write is out of range. Booleans are values too: the comment on \<open>Encode\<close> says that they are not supported, but \<open>makeWriter\<close> has a writer for
  them.\<close>

theorem encode_implements_reference:
  assumes "encodable v" "length (encoding v) < 2 ^ 63"
  shows "EncodeToBytes v = Ok (encoding v)"
  using assms by (rule EncodeToBytes_encoding)

theorem encode_implements_reference_witness:
  "EncodeToBytes (VList [VBytes [1, 2], VList [VUint 1024, VBytes []], VBigInt 7])
     = Ok [0xC9, 0x82, 1, 2, 0xC4, 0x82, 4, 0, 0x80, 7]"
proof -
  let ?v = "VList [VBytes [1, 2], VList [VUint 1024, VBytes []], VBigInt 7]"
  have "encoding ?v = [0xC9, 0x82, 1, 2, 0xC4, 0x82, 4, 0, 0x80, 7]" by code_simp
  then show ?thesis using encode_implements_reference [of ?v] by simp
qed

text \<open>C27: Splitting what the encoder has written gives back the kind and the content of the value and exactly the bytes that
  follow it, and counting the values in the content of an encoded list gives the length of the list.\<close>

theorem split_inverts_encode:
  assumes "encodable v" "\<not> is_raw v" "length (encoding v) < 2 ^ 61" "length rest < 2 ^ 61"
  shows "\<exists>b. EncodeToBytes v = Ok b \<and> Split (b @ rest) = Ok (kind_of v, content v, rest) \<and>
    (\<forall>vs. v = VList vs \<and> list_all (\<lambda>x. \<not> is_raw x) vs \<longrightarrow> CountValues (content v) = Ok (length vs))"
proof -
  have "EncodeToBytes v = Ok (encoding v)" using assms by (intro EncodeToBytes_encoding) simp_all
  moreover have "CountValues (content v) = Ok (length vs)" if "v = VList vs" "list_all (\<lambda>x. \<not> is_raw x) vs" for vs
    using that assms(3) count_loop_encodings [of vs 0] by (simp add: CountValues_def Let_def)
  ultimately show ?thesis using Split_encoding [OF assms(2-4)] by blast
qed

theorem split_inverts_encode_witness:
  "\<exists>b. EncodeToBytes (VList [VUint 1, VList []]) = Ok b \<and> Split (b @ [9]) = Ok (Kind_List, [1, 0xC0], [9])"
proof -
  let ?v = "VList [VUint 1, VList []]"
  have "content ?v = [1, 0xC0]" "length (encoding ?v) = 3" "encodable ?v" "\<not> is_raw ?v" "kind_of ?v = Kind_List" by code_simp+
  then show ?thesis using split_inverts_encode [of ?v "[9]"] by (fastforce simp del: encoding.simps content.simps)
qed

text \<open>C40: \<open>Split\<close> panics on exactly one input: the byte \<open>0x81\<close> alone, whose following byte is read without a check of the
  length. On every other input it returns a value or an error, and its slices are in range.\<close>

theorem split_panics_iff:
  assumes "length b < 2 ^ 63"
  shows "Split b = Panic \<longleftrightarrow> b = [0x81]"
proof -
  have "\<not> (ts + cs < ts \<or> length b < unat (ts + cs))" if "readKind b = Ok (k, ts, cs)" for k ts cs
    using readKind_fits [OF that assms] assms unat_word_ariths(1) [of ts cs] by (simp add: fits_def word_less_nat_alt)
  then show ?thesis
    using readKind_Panic_iff [of b] by (cases "readKind b") (auto simp: Split_def)
qed

theorem split_panics_iff_witness: "Split [0x81] = Panic \<and> Split [0x81, 0x80] \<noteq> Panic"
  using split_panics_iff [of "[0x81]"] split_panics_iff [of "[0x81, 0x80]"] by simp

end
