(* ===== verification/Interpreter.thy ===== *)
theory Interpreter
  imports Instructions Rlp
begin

text \<open>
  The instruction tables of \<open>core/vm/jump_table.go\<close> with the numbers of \<open>opcodes.go\<close>, the loop of \<open>interpreter.go\<close> and the calls of \<open>evm.go\<close>.
  A table is the list of the entries that the Go table sets; an opcode that is not in it is the zero \<open>operation\<close> of the array,
  which is not valid. The loop of a contract and the loops of the contracts that it calls run on the same fuel.
\<close>

section \<open>Operations\<close>

record operation =
  execute :: executionFunc
  gasCost :: gasFunc
  validateStack :: "Stack \<Rightarrow> (vm_error, unit) outcome"
  memorySize :: "(Stack \<Rightarrow> (vm_error, int) outcome) option"
  halts :: bool
  jumps :: bool
  writes :: bool
  reverts :: bool
  returns :: bool

text \<open>An operation without memory and with no flag but \<open>valid\<close>, and one with a memory size.\<close>

definition op_plain :: "executionFunc \<Rightarrow> gasFunc \<Rightarrow> (Stack \<Rightarrow> (vm_error, unit) outcome) \<Rightarrow> operation" where
  "op_plain e g v = \<lparr>execute = e, gasCost = g, validateStack = v, memorySize = None, halts = False, jumps = False,
     writes = False, reverts = False, returns = False\<rparr>"

definition op_mem ::
  "executionFunc \<Rightarrow> gasFunc \<Rightarrow> (Stack \<Rightarrow> (vm_error, unit) outcome) \<Rightarrow> (Stack \<Rightarrow> (vm_error, int) outcome) \<Rightarrow> operation" where
  "op_mem e g v m = (op_plain e g v)\<lparr>memorySize := Some m\<rparr>"

type_synonym table = "(OpCode \<times> operation) list"

definition arithmetic_ops :: table where
  "arithmetic_ops =
     [(0x00, (op_plain opStop (constGasFunc 0) (makeStackFunc 0 0))\<lparr>halts := True\<rparr>),
      (0x01, op_plain opAdd (constGasFunc GasFastestStep) (makeStackFunc 2 1)),
      (0x02, op_plain opMul (constGasFunc GasFastStep) (makeStackFunc 2 1)),
      (0x03, op_plain opSub (constGasFunc GasFastestStep) (makeStackFunc 2 1)),
      (0x04, op_plain opDiv (constGasFunc GasFastStep) (makeStackFunc 2 1)),
      (0x05, op_plain opSdiv (constGasFunc GasFastStep) (makeStackFunc 2 1)),
      (0x06, op_plain opMod (constGasFunc GasFastStep) (makeStackFunc 2 1)),
      (0x07, op_plain opSmod (constGasFunc GasFastStep) (makeStackFunc 2 1)),
      (0x08, op_plain opAddmod (constGasFunc GasMidStep) (makeStackFunc 3 1)),
      (0x09, op_plain opMulmod (constGasFunc GasMidStep) (makeStackFunc 3 1)),
      (0x0a, op_plain opExp gasExp (makeStackFunc 2 1)),
      (0x0b, op_plain opSignExtend (constGasFunc GasFastStep) (makeStackFunc 2 1)),
      (0x10, op_plain opLt (constGasFunc GasFastestStep) (makeStackFunc 2 1)),
      (0x11, op_plain opGt (constGasFunc GasFastestStep) (makeStackFunc 2 1)),
      (0x12, op_plain opSlt (constGasFunc GasFastestStep) (makeStackFunc 2 1)),
      (0x13, op_plain opSgt (constGasFunc GasFastestStep) (makeStackFunc 2 1)),
      (0x14, op_plain opEq (constGasFunc GasFastestStep) (makeStackFunc 2 1)),
      (0x15, op_plain opIszero (constGasFunc GasFastestStep) (makeStackFunc 1 1)),
      (0x16, op_plain opAnd (constGasFunc GasFastestStep) (makeStackFunc 2 1)),
      (0x18, op_plain opXor (constGasFunc GasFastestStep) (makeStackFunc 2 1)),
      (0x17, op_plain opOr (constGasFunc GasFastestStep) (makeStackFunc 2 1)),
      (0x19, op_plain opNot (constGasFunc GasFastestStep) (makeStackFunc 1 1)),
      (0x1a, op_plain opByte (constGasFunc GasFastestStep) (makeStackFunc 2 1))]"

definition context_ops :: table where
  "context_ops =
     [(0x20, op_mem opSha3 gasSha3 (makeStackFunc 2 1) memorySha3),
      (0x30, op_plain opAddress (constGasFunc GasQuickStep) (makeStackFunc 0 1)),
      (0x31, op_plain opBalance gasBalance (makeStackFunc 1 1)),
      (0x32, op_plain opOrigin (constGasFunc GasQuickStep) (makeStackFunc 0 1)),
      (0x33, op_plain opCaller (constGasFunc GasQuickStep) (makeStackFunc 0 1)),
      (0x34, op_plain opCallValue (constGasFunc GasQuickStep) (makeStackFunc 0 1)),
      (0x35, op_plain opCallDataLoad (constGasFunc GasFastestStep) (makeStackFunc 1 1)),
      (0x36, op_plain opCallDataSize (constGasFunc GasQuickStep) (makeStackFunc 0 1)),
      (0x37, op_mem opCallDataCopy gasCallDataCopy (makeStackFunc 3 0) memoryCallDataCopy),
      (0x38, op_plain opCodeSize (constGasFunc GasQuickStep) (makeStackFunc 0 1)),
      (0x39, op_mem opCodeCopy gasCodeCopy (makeStackFunc 3 0) memoryCodeCopy),
      (0x3a, op_plain opGasprice (constGasFunc GasQuickStep) (makeStackFunc 0 1)),
      (0x3b, op_plain opExtCodeSize gasExtCodeSize (makeStackFunc 1 1)),
      (0x3c, op_mem opExtCodeCopy gasExtCodeCopy (makeStackFunc 4 0) memoryExtCodeCopy)]"

definition block_ops :: table where
  "block_ops =
     [(0x40, op_plain opBlockhash (constGasFunc GasExtStep) (makeStackFunc 1 1)),
      (0x41, op_plain opCoinbase (constGasFunc GasQuickStep) (makeStackFunc 0 1)),
      (0x42, op_plain opTimestamp (constGasFunc GasQuickStep) (makeStackFunc 0 1)),
      (0x43, op_plain opNumber (constGasFunc GasQuickStep) (makeStackFunc 0 1)),
      (0x44, op_plain opDifficulty (constGasFunc GasQuickStep) (makeStackFunc 0 1)),
      (0x45, op_plain opGasLimit (constGasFunc GasQuickStep) (makeStackFunc 0 1))]"

definition storage_ops :: table where
  "storage_ops =
     [(0x50, op_plain opPop (constGasFunc GasQuickStep) (makeStackFunc 1 0)),
      (0x51, op_mem opMload gasMLoad (makeStackFunc 1 1) memoryMLoad),
      (0x52, op_mem opMstore gasMStore (makeStackFunc 2 0) memoryMStore),
      (0x53, op_mem opMstore8 gasMStore8 (makeStackFunc 2 0) memoryMStore8),
      (0x54, op_plain opSload gasSLoad (makeStackFunc 1 1)),
      (0x55, (op_plain opSstore gasSStore (makeStackFunc 2 0))\<lparr>writes := True\<rparr>),
      (0x56, (op_plain opJump (constGasFunc GasMidStep) (makeStackFunc 1 0))\<lparr>jumps := True\<rparr>),
      (0x57, (op_plain opJumpi (constGasFunc GasSlowStep) (makeStackFunc 2 0))\<lparr>jumps := True\<rparr>),
      (0x58, op_plain opPc (constGasFunc GasQuickStep) (makeStackFunc 0 1)),
      (0x59, op_plain opMsize (constGasFunc GasQuickStep) (makeStackFunc 0 1)),
      (0x5a, op_plain opGas (constGasFunc GasQuickStep) (makeStackFunc 0 1)),
      (JUMPDEST, op_plain opJumpdest (constGasFunc JumpdestGas) (makeStackFunc 0 0))]"

text \<open>The entries \<open>PUSH1\<close> to \<open>PUSH32\<close>, \<open>DUP1\<close> to \<open>DUP16\<close>, \<open>SWAP1\<close> to \<open>SWAP16\<close> and \<open>LOG0\<close> to \<open>LOG4\<close> differ in their number only.\<close>

definition push_ops :: table where
  "push_ops = map (\<lambda>n. (0x5f + of_nat n, op_plain (makePush (of_nat n) n) gasPush (makeStackFunc 0 1))) [1..<33]"

definition dup_ops :: table where
  "dup_ops = map (\<lambda>n. (0x7f + of_nat n, op_plain (makeDup n) gasDup (makeDupStackFunc n))) [1..<17]"

definition swap_ops :: table where
  "swap_ops = map (\<lambda>n. (0x8f + of_nat n, op_plain (makeSwap n) gasSwap (makeSwapStackFunc (n + 1)))) [1..<17]"

definition log_ops :: table where
  "log_ops =
     map (\<lambda>n. (0xa0 + of_nat n, (op_mem (makeLog n) (makeGasLog n) (makeStackFunc (n + 2) 0) memoryLog)\<lparr>writes := True\<rparr>)) [0..<5]"

definition call_ops :: table where
  "call_ops =
     [(0xf0, (op_mem opCreate gasCreate (makeStackFunc 3 1) memoryCreate)\<lparr>writes := True, returns := True\<rparr>),
      (0xf1, (op_mem opCall gasCall (makeStackFunc 7 1) memoryCall)\<lparr>returns := True\<rparr>),
      (0xf2, (op_mem opCallCode gasCallCode (makeStackFunc 7 1) memoryCall)\<lparr>returns := True\<rparr>),
      (0xf3, (op_mem opReturn gasReturn (makeStackFunc 2 0) memoryReturn)\<lparr>halts := True\<rparr>),
      (0xff, (op_plain opSuicide gasSuicide (makeStackFunc 1 0))\<lparr>halts := True, writes := True\<rparr>)]"

definition NewFrontierInstructionSet :: table where
  "NewFrontierInstructionSet = arithmetic_ops @ context_ops @ block_ops @ storage_ops @ push_ops @ dup_ops @ swap_ops @ log_ops @ call_ops"

definition NewHomesteadInstructionSet :: table where
  "NewHomesteadInstructionSet =
     (0xf4, (op_mem opDelegateCall gasDelegateCall (makeStackFunc 6 1) memoryDelegateCall)\<lparr>returns := True\<rparr>)
     # NewFrontierInstructionSet"

definition NewMetropolisInstructionSet :: table where
  "NewMetropolisInstructionSet =
     [(0xfa, (op_mem opStaticCall gasStaticCall (makeStackFunc 6 1) memoryStaticCall)\<lparr>returns := True\<rparr>),
      (0x3d, op_plain opReturnDataSize (constGasFunc GasQuickStep) (makeStackFunc 0 1)),
      (0x3e, op_mem opReturnDataCopy gasReturnDataCopy (makeStackFunc 3 0) memoryReturnDataCopy),
      (0xfd, (op_mem opRevert gasRevert (makeStackFunc 2 0) memoryRevert)\<lparr>reverts := True, returns := True\<rparr>)]
     @ NewHomesteadInstructionSet"

section \<open>Interpreter\<close>

definition JumpTable :: "evm_env \<Rightarrow> OpCode \<Rightarrow> operation option" where
  "JumpTable env =
     map_of
       (if IsMetropolis (chainConfig env) (BlockNumber (ctx env)) then NewMetropolisInstructionSet
        else if IsHomestead (chainConfig env) (BlockNumber (ctx env)) then NewHomesteadInstructionSet
        else NewFrontierInstructionSet)"

abbreviation CALL :: OpCode where
  "CALL \<equiv> 0xf1"

definition enforceRestrictions :: "evm_env \<Rightarrow> world \<Rightarrow> OpCode \<Rightarrow> operation option \<Rightarrow> Stack \<Rightarrow> (vm_error, unit) outcome" where
  "enforceRestrictions env w op oper st =
     (if r_IsMetropolis (chainRules env) \<and> w_readOnly w then
        if (case oper of Some r \<Rightarrow> writes r | None \<Rightarrow> False) then Err errWriteProtection
        else if op = CALL then
          bind_outcome (Back st 2) (\<lambda>v. if big_BitLen v > 0 then Err errWriteProtection else Ok ())
        else Ok ()
      else Ok ())"

datatype loop_result = Continue world frame | Return "byte list" "vm_error option" world frame

text \<open>A check that ends the loop when it fails.\<close>

fun check :: "('e, 'a) outcome \<Rightarrow> ('e \<Rightarrow> loop_result) \<Rightarrow> ('a \<Rightarrow> loop_result vm) \<Rightarrow> loop_result vm" where
  "check (Ok x) h k = k x"
| "check (Err e) h k = Ok (h e)"
| "check Panic h k = Panic"

definition required_memory :: "operation \<Rightarrow> Stack \<Rightarrow> (vm_error, uint64) outcome" where
  "required_memory oper st =
     (case memorySize oper of
        None \<Rightarrow> Ok 0
      | Some ms \<Rightarrow>
          bind_outcome (ms st) (\<lambda>m.
          case bigUint64 m of (memSize, overflow) \<Rightarrow>
            if overflow then Err errGasUintOverflow
            else safe_mul (toWordSize memSize) 32))"

text \<open>When the gas is not enough, what the price function has done to the state stays.\<close>

definition consume_gas ::
  "evm_env \<Rightarrow> operation \<Rightarrow> uint64 \<Rightarrow> world \<Rightarrow> frame \<Rightarrow> (vm_error \<times> world \<times> frame, world \<times> frame) outcome" where
  "consume_gas env oper memorySize' w f =
     (if DisableGasMetering (vmConfig env) then Ok (w, f)
      else case gasCost oper (gasTable env) env memorySize' w f of
        Ok (cost, w, f) \<Rightarrow>
          (case UseGas (f_contract f) cost of
             (ok, c) \<Rightarrow> if ok then Ok (w, f\<lparr>f_contract := c\<rparr>) else Err (ErrOutOfGas, w, f))
      | Err e \<Rightarrow> Err (ErrOutOfGas, w, f)
      | Panic \<Rightarrow> Panic)"

definition finish_op :: "operation \<Rightarrow> world \<times> frame \<times> byte list \<times> vm_error option \<Rightarrow> loop_result vm" where
  "finish_op oper = (\<lambda>(w, f, res, err).
     let w = (if returns oper then w\<lparr>w_returnData := res\<rparr> else w)
     in Ok (if err \<noteq> None then Return [] err w f
            else if reverts oper then Return res (Some errExecutionReverted) w f
            else if halts oper then Return res None w f
            else if \<not> jumps oper then Continue w (f\<lparr>f_pc := f_pc f + 1\<rparr>)
            else Continue w f))"

definition loop_body :: "evm_env \<Rightarrow> calls \<Rightarrow> world \<Rightarrow> frame \<Rightarrow> loop_result vm" where
  "loop_body env cs w f =
     (if w_abort w then Ok (Return [] None w f)
      else
        let op = GetOp (f_contract f) (f_pc f);
            stop = (\<lambda>e. Return [] (Some e) w f)
        in check (enforceRestrictions env w op (JumpTable env op) (f_stack f)) stop (\<lambda>_.
           case JumpTable env op of
             None \<Rightarrow> Ok (stop (errInvalidOpcode op))
           | Some oper \<Rightarrow>
               check (validateStack oper (f_stack f)) stop (\<lambda>_.
               check (required_memory oper (f_stack f)) stop (\<lambda>memorySize'.
               check (consume_gas env oper memorySize' w f) (\<lambda>(e, w, f). Return [] (Some e) w f) (\<lambda>(w, f).
               let f = (if memorySize' > 0 then f\<lparr>f_mem := Resize memorySize' (f_mem f)\<rparr> else f)
               in bind_outcome (execute oper env cs w f) (finish_op oper))))))"

text \<open>The result, the error, the contract with the gas that is left, and the world.\<close>

type_synonym run_result = "(byte list \<times> vm_error option \<times> Contract \<times> world) vm"

type_synonym loop = "world \<Rightarrow> frame \<Rightarrow> run_result"

definition interpreter_Run :: "loop \<Rightarrow> Contract \<Rightarrow> byte list \<Rightarrow> world \<Rightarrow> run_result" where
  "interpreter_Run lp c input w =
     (let w = w\<lparr>w_depth := w_depth w + 1, w_returnData := []\<rparr>
      in bind_outcome
           (if Code c = [] then Ok ([], None, c, w)
            else lp w \<lparr>f_pc = 0, f_contract = c\<lparr>Input := input\<rparr>, f_mem = NewMemory, f_stack = newstack\<rparr>)
           (\<lambda>(ret, err, c, w). Ok (ret, err, c, w\<lparr>w_depth := w_depth w - 1\<rparr>)))"

section \<open>Calls\<close>

abbreviation CallCreateDepth :: nat where
  "CallCreateDepth \<equiv> 1024"

abbreviation MaxCodeSize :: nat where
  "MaxCodeSize \<equiv> 24576"

definition precompiles :: "evm_env \<Rightarrow> address \<Rightarrow> precompiled option" where
  "precompiles env =
     (if IsMetropolis (chainConfig env) (BlockNumber (ctx env)) then PrecompiledContractsMetropolis
      else PrecompiledContractsHomestead)"

definition evm_run :: "evm_env \<Rightarrow> loop \<Rightarrow> Contract \<Rightarrow> byte list \<Rightarrow> world \<Rightarrow> run_result" where
  "evm_run env lp c input w =
     (case (case CodeAddr c of None \<Rightarrow> None | Some a \<Rightarrow> precompiles env a) of
        Some p \<Rightarrow>
          (case RunPrecompiledContract (prm env) p input c of
             (Ok ret, c) \<Rightarrow> Ok (ret, None, c, w)
           | (Err e, c) \<Rightarrow> Ok ([], Some e, c, w)
           | (Panic, c) \<Rightarrow> Panic)
      | None \<Rightarrow> interpreter_Run lp c input w)"

text \<open>The cache of the analysed codes is shared with the calling contract; a call from outside starts with an empty one.\<close>

definition with_dests :: "contract_ref \<Rightarrow> (world \<Rightarrow> 'a vm) \<Rightarrow> world \<Rightarrow> 'a vm" where
  "with_dests clr k w =
     (case clr of AccountRef a \<Rightarrow> k (w\<lparr>w_dests := Map.empty\<rparr>) | ContractRef a c v \<Rightarrow> k w)"

text \<open>The end of the calls: an error reverts the state, and takes the gas unless the code has reverted itself.\<close>

definition settle :: "int \<Rightarrow> byte list \<times> vm_error option \<times> Contract \<times> world \<Rightarrow> call_result" where
  "settle snap = (\<lambda>(ret, err, c, w).
     if err \<noteq> None then
       (case RevertToSnapshot snap (w_db w) of
          Ok s \<Rightarrow>
            let c = (if err \<noteq> Some errExecutionReverted then snd (UseGas c (Gas c)) else c)
            in Ok (ret, Gas c, err, w\<lparr>w_db := s\<rparr>)
        | _ \<Rightarrow> Panic)
     else Ok (ret, Gas c, err, w))"

definition code_of :: "backend \<Rightarrow> address \<Rightarrow> StateDB \<Rightarrow> byte list \<times> StateDB" where
  "code_of b addr s = (case GetCode b addr s of (code, s) \<Rightarrow> (case code of None \<Rightarrow> [] | Some c \<Rightarrow> c, s))"

text \<open>The contract with the code of \<open>addr\<close>, and the state after the code has been loaded.\<close>

definition load_code :: "evm_env \<Rightarrow> address \<Rightarrow> Contract \<Rightarrow> StateDB \<Rightarrow> Contract \<times> StateDB" where
  "load_code env addr c s =
     (case GetCodeHash addr s of (h, s) \<Rightarrow> case code_of (bk env) addr s of (code, s) \<Rightarrow> (SetCallCode addr h code c, s))"

definition evm_Call :: "evm_env \<Rightarrow> loop \<Rightarrow> contract_ref \<Rightarrow> address \<Rightarrow> byte list \<Rightarrow> uint64 \<Rightarrow> int \<Rightarrow> world \<Rightarrow> call_result" where
  "evm_Call env lp clr addr input gas val w =
     (if NoRecursion (vmConfig env) \<and> w_depth w > 0 then Ok ([], gas, None, w)
      else if w_depth w > CallCreateDepth then Ok ([], gas, Some ErrDepth, w)
      else case CanTransfer (ref_Address clr) val (w_db w) of
        (can, s) \<Rightarrow>
          if \<not> can then Ok ([], gas, Some ErrInsufficientBalance, w\<lparr>w_db := s\<rparr>)
          else case Snapshot s of
            (snap, s) \<Rightarrow>
              (case Exist addr s of
                 (exists, s) \<Rightarrow>
                   if \<not> exists \<and> precompiles env addr = None \<and> IsEIP158 (chainConfig env) (BlockNumber (ctx env)) \<and> val = 0
                   then Ok ([], gas, None, w\<lparr>w_db := s\<rparr>)
                   else
                     let s = (if exists then s else CreateAccount (bk env) addr s);
                         s = Transfer (bk env) (ref_Address clr) addr val s
                     in case load_code env addr (NewContract clr (AccountRef addr) val gas) s of
                          (c, s) \<Rightarrow>
                            bind_outcome (with_dests clr (evm_run env lp c input) (w\<lparr>w_db := s\<rparr>)) (settle snap)))"

definition evm_CallCode :: "evm_env \<Rightarrow> loop \<Rightarrow> contract_ref \<Rightarrow> address \<Rightarrow> byte list \<Rightarrow> uint64 \<Rightarrow> int \<Rightarrow> world \<Rightarrow> call_result" where
  "evm_CallCode env lp clr addr input gas val w =
     (if NoRecursion (vmConfig env) \<and> w_depth w > 0 then Ok ([], gas, None, w)
      else if w_depth w > CallCreateDepth then Ok ([], gas, Some ErrDepth, w)
      else case CanTransfer (ref_Address clr) val (w_db w) of
        (can, s) \<Rightarrow>
          if \<not> can then Ok ([], gas, Some ErrInsufficientBalance, w\<lparr>w_db := s\<rparr>)
          else case Snapshot s of
            (snap, s) \<Rightarrow>
              (case load_code env addr (NewContract clr (AccountRef (ref_Address clr)) val gas) s of
                 (c, s) \<Rightarrow> bind_outcome (with_dests clr (evm_run env lp c input) (w\<lparr>w_db := s\<rparr>)) (settle snap)))"

definition evm_DelegateCall :: "evm_env \<Rightarrow> loop \<Rightarrow> contract_ref \<Rightarrow> address \<Rightarrow> byte list \<Rightarrow> uint64 \<Rightarrow> world \<Rightarrow> call_result" where
  "evm_DelegateCall env lp clr addr input gas w =
     (if NoRecursion (vmConfig env) \<and> w_depth w > 0 then Ok ([], gas, None, w)
      else if w_depth w > CallCreateDepth then Ok ([], gas, Some ErrDepth, w)
      else case Snapshot (w_db w) of
        (snap, s) \<Rightarrow>
          bind_outcome (panic_only (AsDelegate (NewContract clr (AccountRef (ref_Address clr)) 0 gas))) (\<lambda>c.
          case load_code env addr c s of
            (c, s) \<Rightarrow> bind_outcome (with_dests clr (evm_run env lp c input) (w\<lparr>w_db := s\<rparr>)) (settle snap)))"

definition evm_StaticCall :: "evm_env \<Rightarrow> loop \<Rightarrow> contract_ref \<Rightarrow> address \<Rightarrow> byte list \<Rightarrow> uint64 \<Rightarrow> world \<Rightarrow> call_result" where
  "evm_StaticCall env lp clr addr input gas w =
     (if NoRecursion (vmConfig env) \<and> w_depth w > 0 then Ok ([], gas, None, w)
      else if w_depth w > CallCreateDepth then Ok ([], gas, Some ErrDepth, w)
      else case Snapshot (w_db w) of
        (snap, s) \<Rightarrow>
          (case load_code env addr (NewContract clr (AccountRef addr) 0 gas) s of
             (c, s) \<Rightarrow>
               bind_outcome
                 (bind_outcome (with_dests clr (evm_run env lp c input) (w\<lparr>w_db := s, w_readOnly := True\<rparr>)) (settle snap))
                 (\<lambda>(ret, g, err, w'). Ok (ret, g, err, w'\<lparr>w_readOnly := w_readOnly w\<rparr>))))"

text \<open>The address of a new contract: the last 20 bytes of the hash of the encoded pair of creator and nonce.\<close>

definition address_bytes :: "address \<Rightarrow> byte list" where
  "address_bytes a = map (\<lambda>i. ucast (drop_bit (8 * (19 - i)) a)) [0..<20]"

definition CreateAddress :: "backend \<Rightarrow> address \<Rightarrow> uint64 \<Rightarrow> address" where
  "CreateAddress b a nonce =
     (let data = (case EncodeToBytes (VList [VBytes (address_bytes a), VUint nonce]) of Ok d \<Rightarrow> d | _ \<Rightarrow> [])
      in ucast (Keccak256Hash b data))"

text \<open>The code that the constructor has returned is stored if it is short enough and can be paid for.\<close>

definition store_code ::
  "evm_env \<Rightarrow> address \<Rightarrow> byte list \<Rightarrow> vm_error option \<Rightarrow> Contract \<Rightarrow> world \<Rightarrow> vm_error option \<times> Contract \<times> world" where
  "store_code env contractAddr ret err c w =
     (if err = None \<and> \<not> length ret > MaxCodeSize then
        case UseGas c (of_nat (length ret) * CreateDataGas) of
          (ok, c) \<Rightarrow>
            if ok then (err, c, w\<lparr>w_db := db_SetCode (bk env) contractAddr ret (w_db w)\<rparr>)
            else (Some ErrCodeStoreOutOfGas, c, w)
      else (err, c, w))"

definition finish_create ::
  "evm_env \<Rightarrow> int \<Rightarrow> address \<Rightarrow> byte list \<times> vm_error option \<times> Contract \<times> world
     \<Rightarrow> (byte list \<times> address \<times> uint64 \<times> vm_error option \<times> world) vm" where
  "finish_create env snap contractAddr = (\<lambda>(ret, err, c, w).
     let exceeded = (length ret > MaxCodeSize)
     in case store_code env contractAddr ret err c w of
       (err, c, w) \<Rightarrow>
         if exceeded \<or> err \<noteq> None \<and> (IsHomestead (chainConfig env) (BlockNumber (ctx env)) \<or> err \<noteq> Some ErrCodeStoreOutOfGas)
         then
           (case RevertToSnapshot snap (w_db w) of
              Ok s \<Rightarrow>
                let c = (if err \<noteq> Some errExecutionReverted then snd (UseGas c (Gas c)) else c);
                    err = (if exceeded \<and> err = None then Some errMaxCodeSizeExceeded else err)
                in Ok (ret, contractAddr, Gas c, err, w\<lparr>w_db := s\<rparr>)
            | _ \<Rightarrow> Panic)
         else Ok (ret, contractAddr, Gas c, err, w))"

definition evm_Create ::
  "evm_env \<Rightarrow> loop \<Rightarrow> contract_ref \<Rightarrow> byte list \<Rightarrow> uint64 \<Rightarrow> int \<Rightarrow> world
     \<Rightarrow> (byte list \<times> address \<times> uint64 \<times> vm_error option \<times> world) vm" where
  "evm_Create env lp clr code gas val w =
     (if NoRecursion (vmConfig env) \<and> w_depth w > 0 then Ok ([], 0, gas, None, w)
      else if w_depth w > CallCreateDepth then Ok ([], 0, gas, Some ErrDepth, w)
      else case CanTransfer (ref_Address clr) val (w_db w) of
        (can, s) \<Rightarrow>
          if \<not> can then Ok ([], 0, gas, Some ErrInsufficientBalance, w\<lparr>w_db := s\<rparr>)
          else case GetNonce (ref_Address clr) s of
            (nonce, s) \<Rightarrow>
              let s = SetNonce (bk env) (ref_Address clr) (nonce + 1) s;
                  contractAddr = CreateAddress (bk env) (ref_Address clr) nonce
              in case GetCodeHash contractAddr s of
                (contractHash, s) \<Rightarrow>
                  (case GetNonce contractAddr s of
                     (n, s) \<Rightarrow>
                       if n \<noteq> 0 \<or> contractHash \<noteq> 0 \<and> contractHash \<noteq> emptyCodeHash (bk env)
                       then Ok ([], 0, 0, Some ErrContractAddressCollision, w\<lparr>w_db := s\<rparr>)
                       else case Snapshot s of
                         (snap, s) \<Rightarrow>
                           let s = CreateAccount (bk env) contractAddr s;
                               s = (if IsEIP158 (chainConfig env) (BlockNumber (ctx env)) then SetNonce (bk env) contractAddr 1 s else s);
                               s = Transfer (bk env) (ref_Address clr) contractAddr val s;
                               c = SetCallCode contractAddr (Keccak256Hash (bk env) code) code
                                     (NewContract clr (AccountRef contractAddr) val gas)
                           in bind_outcome (with_dests clr (evm_run env lp c []) (w\<lparr>w_db := s\<rparr>)) (finish_create env snap contractAddr)))"

definition evm_calls :: "evm_env \<Rightarrow> loop \<Rightarrow> calls" where
  "evm_calls env lp = \<lparr>c_Call = evm_Call env lp, c_CallCode = evm_CallCode env lp, c_DelegateCall = evm_DelegateCall env lp,
     c_StaticCall = evm_StaticCall env lp, c_Create = evm_Create env lp\<rparr>"

primrec run_loop :: "evm_env \<Rightarrow> nat \<Rightarrow> loop" where
  "run_loop env 0 = (\<lambda>w f. Err OutOfFuel)"
| "run_loop env (Suc n) = (\<lambda>w f.
     bind_outcome (loop_body env (evm_calls env (run_loop env n)) w f) (\<lambda>r.
       case r of
         Continue w f \<Rightarrow> run_loop env n w f
       | Return ret err w f \<Rightarrow> Ok (ret, err, f_contract f, w)))"

definition Call :: "nat \<Rightarrow> evm_env \<Rightarrow> contract_ref \<Rightarrow> address \<Rightarrow> byte list \<Rightarrow> uint64 \<Rightarrow> int \<Rightarrow> world \<Rightarrow> call_result" where
  "Call n env = evm_Call env (run_loop env n)"

definition Create ::
  "nat \<Rightarrow> evm_env \<Rightarrow> contract_ref \<Rightarrow> byte list \<Rightarrow> uint64 \<Rightarrow> int \<Rightarrow> world
     \<Rightarrow> (byte list \<times> address \<times> uint64 \<times> vm_error option \<times> world) vm" where
  "Create n env = evm_Create env (run_loop env n)"

end
