(* ===== verification/Execution.thy ===== *)
theory Execution
  imports Interpreter
begin

text \<open>
  What the interpreter promises for whole executions: it uses up gas with every step and so ends, the gas that is left is at most the gas
  that was given, and every change it makes to the accounts can be undone from the snapshot of the call.
  The instructions rely on the calls through the locale \<open>callees\<close>; the induction on the fuel shows
  that the calls of the interpreter itself fulfil it.
\<close>

section \<open>Changes that can be undone\<close>

text \<open>Every snapshot that was there before can still be reverted to.\<close>

definition keeps :: "backend \<Rightarrow> StateDB \<Rightarrow> StateDB \<Rightarrow> bool" where
  "keeps b s t \<longleftrightarrow> (\<forall>base s0. since b base s0 s \<longrightarrow> since b base s0 t)"

named_theorems keeping \<open>operations that can be undone\<close>

lemma keeps_refl [simp, intro]: "keeps b s s"
  by (simp add: keeps_def)

lemma keeps_trans [trans]: "keeps b s t \<Longrightarrow> keeps b t u \<Longrightarrow> keeps b s u"
  by (simp add: keeps_def)

lemma keeps_step: "(\<And>base. db_step b base s t) \<Longrightarrow> keeps b s t"
  using since_step by (auto simp: keeps_def)

lemma keeps_changes [keeping]:
  "keeps b s (AddBalance b a x s)" "keeps b s (SubBalance b a x s)" "keeps b s (SetNonce b a n s)" "keeps b s (db_SetCode b a c s)"
  "keeps b s (SetState b a k v s)" "keeps b s (snd (Suicide a s))" "keeps b s (CreateAccount b a s)" "keeps b s (AddRefund g s)"
  "keeps b s (AddLog l s)" "keeps b s (AddPreimage h p s)" "keeps b s (snd (Snapshot s))"
  by (auto intro: keeps_step db_step.intros)

lemma query_state:
  "snd (Exist a s) = snd (getStateObject a s)" "snd (Empty b a s) = snd (getStateObject a s)"
  "snd (GetBalance a s) = snd (getStateObject a s)" "snd (GetNonce a s) = snd (getStateObject a s)"
  "snd (GetCodeSize b a s) = snd (getStateObject a s)" "snd (GetCodeHash a s) = snd (getStateObject a s)"
  "snd (HasSuicided a s) = snd (getStateObject a s)" "snd (CanTransfer a x s) = snd (getStateObject a s)"
  by (auto simp: Exist_def Empty_def GetBalance_def GetNonce_def GetCodeSize_def GetCodeHash_def HasSuicided_def CanTransfer_def
      split: prod.split option.split)

lemma keeps_queries [keeping]:
  "keeps b s (snd (getStateObject a s))" "keeps b s (snd (GetCode b a s))" "keeps b s (snd (GetState b a k s))"
  by (auto intro: keeps_step db_step.intros)

lemma keeps_query [keeping]:
  "Exist a s = (e, t) \<Longrightarrow> keeps b s t" "Empty b a s = (e, t) \<Longrightarrow> keeps b s t" "GetBalance a s = (x, t) \<Longrightarrow> keeps b s t"
  "GetNonce a s = (n, t) \<Longrightarrow> keeps b s t" "GetCodeSize b a s = (z, t) \<Longrightarrow> keeps b s t"
  "GetCodeHash a s = (h, t) \<Longrightarrow> keeps b s t" "HasSuicided a s = (e, t) \<Longrightarrow> keeps b s t"
  "CanTransfer a x s = (e, t) \<Longrightarrow> keeps b s t" "GetCode b a s = (c, t) \<Longrightarrow> keeps b s t" "GetState b a k s = (v, t) \<Longrightarrow> keeps b s t"
  "Snapshot s = (i, t) \<Longrightarrow> keeps b s t"
  using keeps_queries(1) [of b s a] query_state keeps_queries(2) [of b s a] keeps_queries(3) [of b s a k] keeps_changes(11) [of b s]
  by (metis snd_conv)+

lemmas keeps_chain = keeps_changes [THEN keeps_trans [rotated]] keeps_queries [THEN keeps_trans [rotated]] keeps_refl

lemma keeps_Transfer [keeping]: "keeps b s (Transfer b x y v s)"
  unfolding Transfer_def by (rule keeps_trans [OF keeps_changes(2) keeps_changes(1)])

lemma keeps_revert:
  assumes "Snapshot s = (i, t)" "keeps b t u" "RevertToSnapshot i u = Ok v"
  shows "keeps b s v"
  unfolding keeps_def
proof (intro allI impI)
  fix base s0 assume s: "since b base s0 s"
  then have "base \<in> fst ` set (validRevisions s)" "revisions_ok s" by (auto simp: since_def)
  moreover have "i = nextRevisionId s" using assms(1) by (simp add: Snapshot_def Let_def)
  ultimately have "base < i" by (auto simp: revisions_ok_def)
  moreover have "since b base s0 u" using s assms(1,2) keeps_query(11) [OF assms(1), of b] by (simp add: keeps_def)
  ultimately show "since b base s0 v" using since_step db_step.revert assms(3) by blast
qed

definition same_world :: "evm_env \<Rightarrow> world \<Rightarrow> world \<Rightarrow> bool" where
  "same_world env w w' \<longleftrightarrow>
     keeps (bk env) (w_db w) (w_db w') \<and> w_depth w' = w_depth w \<and> w_readOnly w' = w_readOnly w \<and> w_abort w' = w_abort w"

lemma same_world_refl [simp, intro]: "same_world env w w"
  by (simp add: same_world_def)

lemma same_world_trans [trans]: "same_world env w w1 \<Longrightarrow> same_world env w1 w2 \<Longrightarrow> same_world env w w2"
  using keeps_trans by (auto simp: same_world_def)

lemma same_world_fields [simp]:
  "same_world env w (w'\<lparr>w_returnData := r\<rparr>) = same_world env w w'" "same_world env w (w'\<lparr>w_pool := p\<rparr>) = same_world env w w'"
  "same_world env w (w'\<lparr>w_dests := d\<rparr>) = same_world env w w'"
  "same_world env w (w\<lparr>w_db := s\<rparr>) = keeps (bk env) (w_db w) s"
  by (simp_all add: same_world_def)

lemma same_world_pool [simp]:
  "same_world env w (pool_get w') = same_world env w w'" "same_world env w (pool_put is w') = same_world env w w'"
  by (simp_all add: pool_get_def pool_put_def)

section \<open>Instructions without calls\<close>

text \<open>The result of an instruction that keeps the contract, and with it the gas.\<close>

definition quiet :: "evm_env \<Rightarrow> world \<Rightarrow> Contract \<Rightarrow> exec_result \<Rightarrow> bool" where
  "quiet env w c r \<longleftrightarrow>
     (case r of Ok (w', f', ret, err) \<Rightarrow> same_world env w w' \<and> f_contract f' = c | Err e \<Rightarrow> False | Panic \<Rightarrow> True)"

lemma quiet_intros [simp]:
  "quiet env w c Panic" "quiet env w c (Ok (w', f', ret, err)) \<longleftrightarrow> same_world env w w' \<and> f_contract f' = c"
  "quiet env w c (done_op w' f') \<longleftrightarrow> same_world env w w' \<and> f_contract f' = c"
  by (simp_all add: quiet_def done_op_def)

lemma quiet_pop1: "(\<And>x f'. f_contract f' = f_contract f \<Longrightarrow> quiet env w c (k x f')) \<Longrightarrow> quiet env w c (pop1 f k)"
  by (cases "f_stack f") (auto simp: pop1_def)

lemma quiet_pop2: "(\<And>x y f'. f_contract f' = f_contract f \<Longrightarrow> quiet env w c (k x y f')) \<Longrightarrow> quiet env w c (pop2 f k)"
  by (auto simp: pop2_def intro!: quiet_pop1)

lemma quiet_pop3: "(\<And>x y z f'. f_contract f' = f_contract f \<Longrightarrow> quiet env w c (k x y z f')) \<Longrightarrow> quiet env w c (pop3 f k)"
  by (auto simp: pop3_def intro!: quiet_pop1 quiet_pop2)

text \<open>A value that is computed without an error.\<close>

definition errorless :: "('e, 'a) outcome \<Rightarrow> bool" where
  "errorless r \<longleftrightarrow> (\<forall>e. r \<noteq> Err e)"

lemma errorless_ops [simp]:
  "errorless (memory_Get a b m)" "errorless (memory_GetPtr a b m)" "errorless (panic_only r)" "errorless (mem_store o' l v f)"
  "errorless (stack_dup p n st)" "errorless (stack_swap n st)"
  by (auto simp: errorless_def memory_Get_def memory_GetPtr_def mem_store_def memory_Set_def stack_dup_def stack_swap_def)
    (cases r; simp)+

lemma quiet_bind: "errorless m \<Longrightarrow> (\<And>x. m = Ok x \<Longrightarrow> quiet env w c (k x)) \<Longrightarrow> quiet env w c (bind_outcome m k)"
  by (cases m) (auto simp: errorless_def)

lemma push_contract [simp]: "f_contract (push x f) = f_contract f"
  by (simp add: push_def)

lemma mem_store_contract: "mem_store o' l v f = Ok f' \<Longrightarrow> f_contract f' = f_contract f"
  by (auto simp: mem_store_def bind_outcome_Ok_iff)

lemmas quiet_rules = quiet_pop1 quiet_pop2 quiet_pop3 quiet_bind

lemma quiet_arithmetic:
  "quiet env w (f_contract f) (opStop env cs w f)" "quiet env w (f_contract f) (opAdd env cs w f)" "quiet env w (f_contract f) (opMul env cs w f)"
  "quiet env w (f_contract f) (opSub env cs w f)" "quiet env w (f_contract f) (opDiv env cs w f)" "quiet env w (f_contract f) (opSdiv env cs w f)"
  "quiet env w (f_contract f) (opMod env cs w f)" "quiet env w (f_contract f) (opSmod env cs w f)"
  "quiet env w (f_contract f) (opAddmod env cs w f)" "quiet env w (f_contract f) (opMulmod env cs w f)"
  "quiet env w (f_contract f) (opExp env cs w f)" "quiet env w (f_contract f) (opSignExtend env cs w f)"
  by (auto simp: opStop_def opAdd_def opMul_def opSub_def opDiv_def opSdiv_def opMod_def opSmod_def opAddmod_def opMulmod_def opExp_def
      opSignExtend_def Let_def intro!: quiet_rules split: prod.split)

lemma quiet_comparisons:
  "quiet env w (f_contract f) (opLt env cs w f)" "quiet env w (f_contract f) (opGt env cs w f)" "quiet env w (f_contract f) (opSlt env cs w f)"
  "quiet env w (f_contract f) (opSgt env cs w f)" "quiet env w (f_contract f) (opEq env cs w f)" "quiet env w (f_contract f) (opIszero env cs w f)"
  "quiet env w (f_contract f) (opAnd env cs w f)" "quiet env w (f_contract f) (opOr env cs w f)" "quiet env w (f_contract f) (opXor env cs w f)"
  "quiet env w (f_contract f) (opNot env cs w f)" "quiet env w (f_contract f) (opByte env cs w f)"
  by (auto simp: opLt_def opGt_def opSlt_def opSgt_def opEq_def opIszero_def opAnd_def opOr_def opXor_def opNot_def opByte_def
      push_bool_def Let_def intro!: quiet_rules split: prod.split if_splits)

lemma quiet_context:
  "quiet env w (f_contract f) (opSha3 env cs w f)" "quiet env w (f_contract f) (opAddress env cs w f)" "quiet env w (f_contract f) (opBalance env cs w f)"
  "quiet env w (f_contract f) (opOrigin env cs w f)" "quiet env w (f_contract f) (opCaller env cs w f)" "quiet env w (f_contract f) (opCallValue env cs w f)"
  "quiet env w (f_contract f) (opCallDataLoad env cs w f)" "quiet env w (f_contract f) (opCallDataSize env cs w f)"
  "quiet env w (f_contract f) (opCallDataCopy env cs w f)" "quiet env w (f_contract f) (opCodeSize env cs w f)"
  "quiet env w (f_contract f) (opCodeCopy env cs w f)" "quiet env w (f_contract f) (opGasprice env cs w f)"
  "quiet env w (f_contract f) (opExtCodeSize env cs w f)" "quiet env w (f_contract f) (opExtCodeCopy env cs w f)"
  by (auto simp: opSha3_def opAddress_def opBalance_def opOrigin_def opCaller_def opCallValue_def opCallDataLoad_def opCallDataSize_def
      opCallDataCopy_def opCodeSize_def opCodeCopy_def opGasprice_def opExtCodeSize_def opExtCodeCopy_def Let_def keeping
      dest!: mem_store_contract intro!: quiet_rules keeping split: prod.split)

lemma quiet_block:
  "quiet env w (f_contract f) (opBlockhash env cs w f)" "quiet env w (f_contract f) (opCoinbase env cs w f)"
  "quiet env w (f_contract f) (opTimestamp env cs w f)" "quiet env w (f_contract f) (opNumber env cs w f)"
  "quiet env w (f_contract f) (opDifficulty env cs w f)" "quiet env w (f_contract f) (opGasLimit env cs w f)"
  "quiet env w (f_contract f) (opReturnDataSize env cs w f)" "quiet env w (f_contract f) (opReturnDataCopy env cs w f)"
  by (auto simp: opBlockhash_def opCoinbase_def opTimestamp_def opNumber_def opDifficulty_def opGasLimit_def opReturnDataSize_def
      opReturnDataCopy_def Let_def dest!: mem_store_contract intro!: quiet_rules)

lemma quiet_storage:
  "quiet env w (f_contract f) (opPop env cs w f)" "quiet env w (f_contract f) (opMload env cs w f)" "quiet env w (f_contract f) (opMstore env cs w f)"
  "quiet env w (f_contract f) (opMstore8 env cs w f)" "quiet env w (f_contract f) (opSload env cs w f)" "quiet env w (f_contract f) (opSstore env cs w f)"
  "quiet env w (f_contract f) (opJump env cs w f)" "quiet env w (f_contract f) (opJumpi env cs w f)" "quiet env w (f_contract f) (opJumpdest env cs w f)"
  "quiet env w (f_contract f) (opPc env cs w f)" "quiet env w (f_contract f) (opMsize env cs w f)" "quiet env w (f_contract f) (opGas env cs w f)"
  by (auto simp: opPop_def opMload_def opMstore_def opMstore8_def opSload_def opSstore_def opJump_def opJumpi_def opJumpdest_def opPc_def
      opMsize_def opGas_def Let_def keeping dest!: mem_store_contract intro!: quiet_rules keeping split: prod.split)

lemma pop_topics_ok:
  "errorless (pop_topics n f) \<and> (\<forall>ts f'. pop_topics n f = Ok (ts, f') \<longrightarrow> f_contract f' = f_contract f)"
proof (induction n arbitrary: f)
  case (Suc n)
  show ?case
  proof (cases "f_stack f")
    case (Cons x st)
    then show ?thesis
      using Suc [of "f\<lparr>f_stack := st\<rparr>"] by (cases "pop_topics n (f\<lparr>f_stack := st\<rparr>)") (auto simp: pop1_def errorless_def)
  qed (simp add: pop1_def errorless_def)
qed (simp add: errorless_def)

lemma quiet_families:
  "quiet env w (f_contract f) (makePush s n env cs w f)" "quiet env w (f_contract f) (makeDup n env cs w f)"
  "quiet env w (f_contract f) (makeSwap n env cs w f)" "quiet env w (f_contract f) (makeLog n env cs w f)"
  by (auto simp: makePush_def makeDup_def makeSwap_def makeLog_def Let_def pop_topics_ok keeping dest: pop_topics_ok [THEN conjunct2, rule_format]
      intro!: quiet_rules keeping split: prod.split)

lemma quiet_ends:
  "quiet env w (f_contract f) (opReturn env cs w f)" "quiet env w (f_contract f) (opRevert env cs w f)"
  "quiet env w (f_contract f) (opSuicide env cs w f)"
proof -
  have "keeps b s (snd (Suicide a (AddBalance b a' x t)))" if "GetBalance a s = (x, t)" for b s t a a' x
    by (rule keeps_trans [OF keeps_query(3) [OF that] keeps_trans [OF keeps_changes(1) keeps_changes(6)]])
  then show "quiet env w (f_contract f) (opSuicide env cs w f)"
    by (auto simp: opSuicide_def Let_def intro!: quiet_rules split: prod.split)
qed (auto simp: opReturn_def opRevert_def intro!: quiet_rules)

lemmas quiet_ops = quiet_arithmetic quiet_comparisons quiet_context quiet_block quiet_storage quiet_families quiet_ends

section \<open>Prices\<close>

text \<open>A price function that keeps the contract and asks for at least \<open>p\<close>.\<close>

definition priced :: "evm_env \<Rightarrow> nat \<Rightarrow> gasFunc \<Rightarrow> bool" where
  "priced env p g \<longleftrightarrow>
     (\<forall>m w f cost w' f'. g (gasTable env) env m w f = Ok (cost, w', f') \<longrightarrow>
        p \<le> unat cost \<and> same_world env w w' \<and> f_contract f' = f_contract f)"

lemma safe_add_Ok: "safe_add x y = Ok z \<Longrightarrow> unat z = unat x + unat y"
  by (auto simp: safe_add_def SafeAdd_no_overflow split: prod.splits if_splits)

lemma mem_gas_contract: "mem_gas f m = Ok (g, f') \<Longrightarrow> f_contract f' = f_contract f \<and> f_stack f' = f_stack f"
  by (auto simp: mem_gas_def bind_outcome_Ok_iff)

lemma priced_weaken: "priced env p g \<Longrightarrow> q \<le> p \<Longrightarrow> priced env q g"
  by (fastforce simp: priced_def)

lemma gasTable_cases: "gasTable env \<in> {GasTableHomestead, GasTableHomesteadGasRepriceFork, GasTableEIP158}"
  by (simp add: gasTable_def config_GasTable_def)

lemma gasTable_min:
  "1 \<le> unat (ExtcodeSize (gasTable env))" "1 \<le> unat (ExtcodeCopy (gasTable env))" "1 \<le> unat (gt_Balance (gasTable env))"
  "1 \<le> unat (SLoad (gasTable env))" "40 \<le> unat (Calls (gasTable env))" "unat (Calls (gasTable env)) \<le> 700"
  using gasTable_cases [of env]
  by (auto simp: GasTableHomestead_def GasTableHomesteadGasRepriceFork_def GasTableEIP158_def)

lemma priced_const: "priced env (unat c) (constGasFunc c)"
  by (simp add: priced_def constGasFunc_def)

lemma priced_copy: "1 \<le> unat base \<Longrightarrow> g = copy_gas base i \<Longrightarrow> priced env 1 g"
  by (auto simp: priced_def copy_gas_def bind_outcome_Ok_iff dest!: safe_add_Ok mem_gas_contract)

lemma priced_memory:
  "priced env 1 gasCallDataCopy" "priced env 1 gasReturnDataCopy" "priced env 1 gasCodeCopy" "priced env 1 gasExtCodeCopy"
  "priced env 1 gasSha3" "priced env 1 gasMLoad" "priced env 1 gasMStore" "priced env 1 gasMStore8" "priced env 1 gasCreate"
  "priced env 0 gasReturn" "priced env 0 gasRevert"
  using gasTable_min(2) [of env]
  by (auto simp: priced_def gasCallDataCopy_def gasReturnDataCopy_def gasCodeCopy_def gasExtCodeCopy_def copy_gas_def gasSha3_def
      gasMLoad_def gasMStore_def gasMStore8_def gasCreate_def mem_plus_def gasReturn_def gasRevert_def bind_outcome_Ok_iff
      dest!: safe_add_Ok mem_gas_contract)

lemma priced_log: "priced env 1 (makeGasLog n)"
  by (auto simp: priced_def makeGasLog_def bind_outcome_Ok_iff dest!: safe_add_Ok mem_gas_contract)

lemma priced_state:
  "priced env 1 gasBalance" "priced env 1 gasExtCodeSize" "priced env 1 gasSLoad" "priced env 1 gasExp"
  "priced env 1 gasPush" "priced env 1 gasSwap" "priced env 1 gasDup"
  using gasTable_min [of env]
  by (auto simp: priced_def gasBalance_def gasExtCodeSize_def gasSLoad_def gasExp_def gasPush_def gasSwap_def gasDup_def
      bind_outcome_Ok_iff Let_def dest!: safe_add_Ok)

lemma priced_SStore: "priced env 1 gasSStore"
  by (auto simp: priced_def gasSStore_def bind_outcome_Ok_iff Let_def case_prod_unfold split: if_splits intro!: keeps_chain)

lemma priced_Suicide: "priced env 0 gasSuicide"
  unfolding priced_def
proof (intro allI impI)
  fix m w f cost w' f'
  assume "gasSuicide (gasTable env) env m w f = Ok (cost, w', f')"
  then show "0 \<le> unat cost \<and> same_world env w w' \<and> f_contract f' = f_contract f"
    by (cases "f_stack f"; auto simp: gasSuicide_def Back_def Let_def case_prod_unfold query_state split: if_splits; intro keeps_chain)
qed

text \<open>
  A call pays at least 40, and 9000 more when it sends value; the gas for the callee, which is paid as well,
  is on top of the stack afterwards.
\<close>

definition call_priced :: "evm_env \<Rightarrow> gasFunc \<Rightarrow> (frame \<Rightarrow> nat) \<Rightarrow> bool" where
  "call_priced env g base \<longleftrightarrow>
     (\<forall>m w f cost w' f'. g (gasTable env) env m w f = Ok (cost, w', f') \<longrightarrow>
        same_world env w w' \<and> f_contract f' = f_contract f \<and> f_stack f \<noteq> [] \<and>
        (\<exists>cg. f_stack f' = uint cg # tl (f_stack f) \<and> base f + unat (cg :: uint64) \<le> unat cost))"

lemma pay_call_Ok:
  "pay_call gt gas w f = Ok (cost, w', f') \<Longrightarrow>
     w' = w \<and> f_contract f' = f_contract f \<and> f_stack f \<noteq> [] \<and>
     (\<exists>cg. f_stack f' = uint cg # tl (f_stack f) \<and> unat gas + unat (cg :: uint64) = unat cost)"
  by (cases "f_stack f") (auto simp: pay_call_def bind_outcome_Ok_iff Let_def Back_def dest!: safe_add_Ok)

definition value_base :: "frame \<Rightarrow> nat" where
  "value_base f = (if 2 < length (f_stack f) \<and> f_stack f ! 2 \<noteq> 0 then 9040 else 40)"

lemma call_priced_plain:
  "call_priced env gasDelegateCall (\<lambda>f. 40)" "call_priced env gasStaticCall (\<lambda>f. 40)"
proof -
  have "\<exists>cg. f_stack f' = uint cg # tl (f_stack f) \<and> 40 + unat (cg :: uint64) \<le> unat cost \<and> same_world env w w' \<and>
      f_contract f' = f_contract f \<and> f_stack f \<noteq> []"
    if p: "bind_outcome (mem_gas f m) (\<lambda>(gas, f). bind_outcome (safe_add gas (Calls (gasTable env))) (\<lambda>gas. pay_call (gasTable env) gas w f))
      = Ok (cost, w', f')" for f m cost w w' f'
  proof -
    obtain g f1 g1 where 1: "mem_gas f m = Ok (g, f1)" "safe_add g (Calls (gasTable env)) = Ok g1"
      "pay_call (gasTable env) g1 w f1 = Ok (cost, w', f')"
      using p by (auto simp: bind_outcome_Ok_iff)
    then show ?thesis
      using mem_gas_contract [OF 1(1)] safe_add_Ok [OF 1(2)] pay_call_Ok [OF 1(3)] gasTable_min(5) [of env] by force
  qed
  then show "call_priced env gasDelegateCall (\<lambda>f. 40)" "call_priced env gasStaticCall (\<lambda>f. 40)"
    unfolding call_priced_def gasDelegateCall_def gasStaticCall_def by blast+
qed

lemma call_priced_value:
  "call_priced env gasCallCode value_base" "call_priced env gasCall value_base"
proof -
  have pay: "\<exists>cg. f_stack f' = uint cg # tl (f_stack f) \<and> unat base + unat (cg :: uint64) \<le> unat cost \<and> w' = w \<and>
      f_contract f' = f_contract f \<and> f_stack f \<noteq> []"
    if p: "bind_outcome (mem_gas f m) (\<lambda>(mg, f). bind_outcome (safe_add base mg) (\<lambda>gas. pay_call (gasTable env) gas w f)) = Ok (cost, w', f')"
    for f m cost w w' f' base
  proof -
    obtain g f1 g1 where 1: "mem_gas f m = Ok (g, f1)" "safe_add base g = Ok g1" "pay_call (gasTable env) g1 w f1 = Ok (cost, w', f')"
      using p by (auto simp: bind_outcome_Ok_iff)
    then show ?thesis using mem_gas_contract [OF 1(1)] safe_add_Ok [OF 1(2)] pay_call_Ok [OF 1(3)] by force
  qed
  have base: "unat (Calls (gasTable env) + CallValueTransferGas) = unat (Calls (gasTable env)) + 9000"
    "unat (Calls (gasTable env) + CallNewAccountGas) = unat (Calls (gasTable env)) + 25000"
    "unat (Calls (gasTable env) + CallNewAccountGas + CallValueTransferGas) = unat (Calls (gasTable env)) + 34000"
    using gasTable_cases [of env]
    by (auto simp: GasTableHomestead_def GasTableHomesteadGasRepriceFork_def GasTableEIP158_def)
  show "call_priced env gasCallCode value_base"
    unfolding call_priced_def
  proof (intro allI impI)
    fix m w f cost w' f' assume g: "gasCallCode (gasTable env) env m w f = Ok (cost, w', f')"
    then have l: "2 < length (f_stack f)" by (auto simp: gasCallCode_def Back_def split: if_splits)
    let ?base = "if f_stack f ! 2 \<noteq> 0 then Calls (gasTable env) + CallValueTransferGas else Calls (gasTable env)"
    have "value_base f \<le> unat ?base" using l base gasTable_min(5) [of env] by (auto simp: value_base_def)
    moreover have "bind_outcome (mem_gas f m) (\<lambda>(mg, f). bind_outcome (safe_add ?base mg) (\<lambda>gas. pay_call (gasTable env) gas w f)) = Ok (cost, w', f')"
      using g l by (simp add: gasCallCode_def Back_def Let_def)
    ultimately show "same_world env w w' \<and> f_contract f' = f_contract f \<and> f_stack f \<noteq> [] \<and>
        (\<exists>cg. f_stack f' = uint cg # tl (f_stack f) \<and> value_base f + unat (cg :: uint64) \<le> unat cost)"
      using pay [of f m ?base w cost w' f'] by fastforce
  qed
  show "call_priced env gasCall value_base"
    unfolding call_priced_def
  proof (intro allI impI)
    fix m w f cost w' f' assume g: "gasCall (gasTable env) env m w f = Ok (cost, w', f')"
    then have l: "2 < length (f_stack f)" by (auto simp: gasCall_def Back_def split: if_splits)
    obtain b1 s where s: "keeps (bk env) (w_db w) s" "b1 = Calls (gasTable env) \<or> b1 = Calls (gasTable env) + CallNewAccountGas"
      "(let w = w\<lparr>w_db := s\<rparr>; gas = (if f_stack f ! 2 \<noteq> 0 then b1 + CallValueTransferGas else b1)
        in bind_outcome (mem_gas f m) (\<lambda>(mg, f). bind_outcome (safe_add gas mg) (\<lambda>gas. pay_call (gasTable env) gas w f))) = Ok (cost, w', f')"
      using g l by (auto simp: gasCall_def Back_def Let_def split: if_splits prod.splits intro: keeps_query)
    let ?base = "if f_stack f ! 2 \<noteq> 0 then b1 + CallValueTransferGas else b1"
    have "value_base f \<le> unat ?base" using s(2) l base gasTable_min(5) [of env] by (auto simp: value_base_def)
    then show "same_world env w w' \<and> f_contract f' = f_contract f \<and> f_stack f \<noteq> [] \<and>
        (\<exists>cg. f_stack f' = uint cg # tl (f_stack f) \<and> value_base f + unat (cg :: uint64) \<le> unat cost)"
      using pay [of f m ?base "w\<lparr>w_db := s\<rparr>" cost w' f'] s(1,3) by (fastforce simp: Let_def)
  qed
qed

section \<open>Calls of other contracts\<close>

definition metered :: "evm_env \<Rightarrow> bool" where
  "metered env \<longleftrightarrow> \<not> DisableGasMetering (vmConfig env)"

text \<open>What an instruction relies on when it calls: the world can be restored, the callee gives back at most the gas it got, and it
  does not run out of fuel when it got less gas than there is fuel.\<close>

definition call_ok :: "evm_env \<Rightarrow> nat \<Rightarrow> uint64 \<Rightarrow> world \<Rightarrow> call_result \<Rightarrow> bool" where
  "call_ok env n gas w r \<longleftrightarrow>
     (case r of
        Ok (ret, g, err, w') \<Rightarrow> same_world env w w' \<and> (metered env \<longrightarrow> g \<le> gas)
      | Err e \<Rightarrow> metered env \<longrightarrow> n \<le> unat gas
      | Panic \<Rightarrow> True)"

definition create_ok ::
  "evm_env \<Rightarrow> nat \<Rightarrow> uint64 \<Rightarrow> world \<Rightarrow> (byte list \<times> address \<times> uint64 \<times> vm_error option \<times> world) vm \<Rightarrow> bool" where
  "create_ok env n gas w r \<longleftrightarrow>
     (case r of
        Ok (ret, addr, g, err, w') \<Rightarrow> same_world env w w' \<and> (metered env \<longrightarrow> g \<le> gas)
      | Err e \<Rightarrow> metered env \<longrightarrow> n \<le> unat gas
      | Panic \<Rightarrow> True)"

text \<open>The result of an instruction that leaves at most \<open>lim\<close> gas.\<close>

definition spends :: "evm_env \<Rightarrow> nat \<Rightarrow> world \<Rightarrow> nat \<Rightarrow> exec_result \<Rightarrow> bool" where
  "spends env n w lim r \<longleftrightarrow>
     (case r of
        Ok (w', f', ret, err) \<Rightarrow> same_world env w w' \<and> (metered env \<longrightarrow> unat (Gas (f_contract f')) \<le> lim)
      | Err e \<Rightarrow> metered env \<longrightarrow> n \<le> lim
      | Panic \<Rightarrow> True)"

lemma spends_Panic [simp]: "spends env n w lim Panic"
  by (simp add: spends_def)

lemma quiet_spends: "quiet env w c r \<Longrightarrow> spends env n w (unat (Gas c)) r"
  by (auto simp: quiet_def spends_def split: outcome.splits)

lemma spends_pop1:
  "(\<And>x st. f_stack f = x # st \<Longrightarrow> spends env n w lim (k x (f\<lparr>f_stack := st\<rparr>))) \<Longrightarrow> spends env n w lim (pop1 f k)"
  by (cases "f_stack f") (auto simp: pop1_def)

lemma spends_pop2:
  "(\<And>x y st. f_stack f = x # y # st \<Longrightarrow> spends env n w lim (k x y (f\<lparr>f_stack := st\<rparr>))) \<Longrightarrow> spends env n w lim (pop2 f k)"
  by (auto simp: pop2_def intro!: spends_pop1)

lemma spends_pop3:
  "(\<And>x y z st. f_stack f = x # y # z # st \<Longrightarrow> spends env n w lim (k x y z (f\<lparr>f_stack := st\<rparr>))) \<Longrightarrow> spends env n w lim (pop3 f k)"
  by (auto simp: pop3_def intro!: spends_pop1 spends_pop2)

lemma spends_bind: "errorless m \<Longrightarrow> (\<And>x. m = Ok x \<Longrightarrow> spends env n w lim (k x)) \<Longrightarrow> spends env n w lim (bind_outcome m k)"
  by (cases m) (auto simp: errorless_def)

lemmas spends_rules = spends_pop3 spends_pop2 spends_pop1 spends_bind [OF errorless_ops(1)]

lemma unat_plus_le: "unat ((a :: uint64) + b) \<le> unat a + unat b"
  by (simp add: unat_word_ariths mod_less_eq_dividend)

lemma after_call_spends:
  assumes "call_ok env n gas w r" "unat gas \<le> child" "f_contract f = c"
  shows "spends env n w (unat (Gas c) + child) (bind_outcome r (after_call puts o' l f))"
proof (cases r)
  case (Ok t)
  obtain ret g err w' where t: "t = (ret, g, err, w')" by (cases t) auto
  have w: "same_world env w w'" "metered env \<Longrightarrow> unat g \<le> child"
    using assms Ok t by (auto simp: call_ok_def word_le_nat_alt)
  have "unat (Gas c + g) \<le> unat (Gas c) + unat g" by (rule unat_plus_le)
  then have "spends env n w (unat (Gas c) + child) (Ok (pool_put puts w', add_gas g f', ret, None))"
    if "f_contract f' = c" for f'
    using w that by (fastforce simp: spends_def add_gas_def)
  then show ?thesis
    using assms(3) by (auto simp: Ok t after_call_def Let_def dest!: mem_store_contract intro!: spends_bind split: if_splits)
qed (use assms in \<open>auto simp: call_ok_def spends_def\<close>)

definition stipend :: "int \<Rightarrow> nat" where
  "stipend v = (if v \<noteq> 0 then 2300 else 0)"

lemma stipend_gas: "unat (if U256 v \<noteq> 0 then cg + CallStipend else (cg :: uint64)) \<le> unat cg + stipend v"
  using unat_plus_le [of cg CallStipend] by (auto simp: stipend_def U256_def)

locale callees =
  fixes env :: evm_env and n :: nat and cs :: calls
  assumes Call_ok: "call_ok env n gas w (c_Call cs clr addr inp gas val w)"
    and CallCode_ok: "call_ok env n gas w (c_CallCode cs clr addr inp gas val w)"
    and DelegateCall_ok: "call_ok env n gas w (c_DelegateCall cs clr addr inp gas w)"
    and StaticCall_ok: "call_ok env n gas w (c_StaticCall cs clr addr inp gas w)"
    and Create_ok: "create_ok env n gas w (c_Create cs clr inp gas val w)"
begin

lemma opCall_spends:
  assumes "f_stack f = g # a # v # st"
  shows "spends env n w (unat (Gas (f_contract f)) + (unat (big_Uint64 g) + stipend v)) (opCall env cs w f)"
  unfolding opCall_def Let_def
  by (intro spends_rules after_call_spends [OF Call_ok]) (use assms stipend_gas [of v "big_Uint64 g"] in auto)

lemma opCallCode_spends:
  assumes "f_stack f = g # a # v # st"
  shows "spends env n w (unat (Gas (f_contract f)) + (unat (big_Uint64 g) + stipend v)) (opCallCode env cs w f)"
  unfolding opCallCode_def Let_def
  by (intro spends_rules after_call_spends [OF CallCode_ok]) (use assms stipend_gas [of v "big_Uint64 g"] in auto)

lemma opDelegateCall_spends:
  assumes "f_stack f = g # st"
  shows "spends env n w (unat (Gas (f_contract f)) + unat (big_Uint64 g)) (opDelegateCall env cs w f)"
  unfolding opDelegateCall_def
  by (intro spends_rules after_call_spends [OF DelegateCall_ok]) (use assms in auto)

lemma opStaticCall_spends:
  assumes "f_stack f = g # st"
  shows "spends env n w (unat (Gas (f_contract f)) + unat (big_Uint64 g)) (opStaticCall env cs w f)"
  unfolding opStaticCall_def
  by (intro spends_rules after_call_spends [OF StaticCall_ok]) (use assms in auto)

text \<open>A creation hands the callee part of its own gas, and gets back at most that.\<close>

lemma opCreate_spends: "spends env n w (unat (Gas (f_contract f))) (opCreate env cs w f)"
proof -
  have main: "spends env n w (unat (Gas c)) (bind_outcome (c_Create cs clr input g v w) (\<lambda>(res, addr, returnGas, suberr, w).
      let f = (if P suberr then push 0 f else if Q suberr then push 0 f else push (uint addr) f);
          f = add_gas returnGas f;
          w = pool_put ps w
      in if suberr = Some errExecutionReverted then Ok (w, f, res, None) else done_op w f))"
    if "g \<le> Gas c" "Gas (f_contract f) = Gas c - g" for c clr input g v f P Q ps
  proof -
    have "unat (Gas c - g + r) \<le> unat (Gas c)" if "r \<le> g" for r
      using unat_plus_le [of "Gas c - g" r] \<open>g \<le> Gas c\<close> that by (simp add: unat_sub word_le_nat_alt)
    moreover have "unat g \<le> unat (Gas c)" using that(1) by (simp add: word_le_nat_alt)
    ultimately show ?thesis
      using Create_ok [of g w clr input v] that(2)
      by (cases "c_Create cs clr input g v w") (auto simp: create_ok_def spends_def done_op_def add_gas_def Let_def)
  qed
  have d: "x - x div 64 \<le> (x :: uint64)" for x by (simp add: word_le_nat_alt unat_sub_if' unat_div)
  show ?thesis
    unfolding opCreate_def
    by (intro spends_rules) (auto simp: Let_def UseGas_def d leD [OF d] intro!: main [unfolded Let_def])
qed

end

section \<open>All instructions of the tables\<close>

text \<open>An operation that costs gas unless it ends the loop, in an environment where the calls keep their promises.\<close>

definition sound_op :: "evm_env \<Rightarrow> operation \<Rightarrow> bool" where
  "sound_op env oper \<longleftrightarrow>
     (\<forall>n cs. callees env n cs \<longrightarrow>
        (\<forall>m w f cost w1 f1 mem'. gasCost oper (gasTable env) env m w f = Ok (cost, w1, f1) \<longrightarrow>
           same_world env w w1 \<and> f_contract f1 = f_contract f \<and>
           (cost \<le> Gas (f_contract f) \<longrightarrow> (halts oper \<or> reverts oper \<or> Gas (f_contract f) \<noteq> 0) \<and>
              spends env n w1 (unat (Gas (f_contract f)) - (if halts oper \<or> reverts oper then 0 else 1))
                (execute oper env cs w1
                   (f1\<lparr>f_contract := (f_contract f1)\<lparr>Gas := Gas (f_contract f1) - cost\<rparr>, f_mem := mem'\<rparr>)))) \<and>
        (\<forall>w f. (\<exists>lim. spends env n w lim (execute oper env cs w f)) \<and>
           (halts oper \<or> reverts oper \<longrightarrow> errorless (execute oper env cs w f))))"

lemma spends_mono: "spends env n w lim r \<Longrightarrow> lim \<le> lim' \<Longrightarrow> spends env n w lim' r"
  by (auto simp: spends_def split: outcome.splits)

lemma quiet_errorless: "quiet env w c r \<Longrightarrow> errorless r"
  by (cases r) (auto simp: quiet_def errorless_def)

lemma sound_quiet:
  assumes "\<And>cs w f. quiet env w (f_contract f) (execute oper env cs w f)" "priced env p (gasCost oper)"
    "1 \<le> p \<or> halts oper \<or> reverts oper"
  shows "sound_op env oper"
  unfolding sound_op_def
proof (intro allI impI conjI)
  fix n cs m w f cost w1 f1 mem'
  assume "gasCost oper (gasTable env) env m w f = Ok (cost, w1, f1)"
  then have p: "p \<le> unat cost" "same_world env w w1" "f_contract f1 = f_contract f"
    using assms(2) by (auto simp: priced_def)
  then show "same_world env w w1" "f_contract f1 = f_contract f" by simp_all
  assume le: "cost \<le> Gas (f_contract f)"
  then have u: "unat (Gas (f_contract f) - cost) = unat (Gas (f_contract f)) - unat cost" by (rule unat_sub)
  let ?f = "f1\<lparr>f_contract := (f_contract f1)\<lparr>Gas := Gas (f_contract f1) - cost\<rparr>, f_mem := mem'\<rparr>"
  show "halts oper \<or> reverts oper \<or> Gas (f_contract f) \<noteq> 0" using le p(1) assms(3) by auto
  have "spends env n w1 (unat (Gas (f_contract f) - cost)) (execute oper env cs w1 ?f)"
    using quiet_spends [OF assms(1) [of w1 ?f cs]] p(3) by simp
  then show "spends env n w1 (unat (Gas (f_contract f)) - (if halts oper \<or> reverts oper then 0 else 1)) (execute oper env cs w1 ?f)"
    using p(1) assms(3) u by (auto elim!: spends_mono)
qed (use assms(1) quiet_spends quiet_errorless in blast)+

lemma sound_costly:
  assumes "\<And>cs w f. quiet env w (f_contract f) (execute oper env cs w f)" "priced env 1 (gasCost oper)"
  shows "sound_op env oper"
  using assms by (intro sound_quiet [where p = 1]) auto

lemma sound_ending:
  assumes "\<And>cs w f. quiet env w (f_contract f) (execute oper env cs w f)" "priced env 0 (gasCost oper)" "halts oper \<or> reverts oper"
  shows "sound_op env oper"
  using assms by (intro sound_quiet [where p = 0]) auto

lemma priced_steps:
  "priced env 1 (constGasFunc GasQuickStep)" "priced env 1 (constGasFunc GasFastestStep)" "priced env 1 (constGasFunc GasFastStep)"
  "priced env 1 (constGasFunc GasMidStep)" "priced env 1 (constGasFunc GasSlowStep)" "priced env 1 (constGasFunc GasExtStep)"
  "priced env 1 (constGasFunc JumpdestGas)" "priced env 0 (constGasFunc 0)"
  by (simp_all add: priced_def constGasFunc_def)

lemmas priced_ops = priced_steps priced_memory priced_log priced_state priced_SStore priced_Suicide

lemmas op_record = op_plain_def op_mem_def

lemma sound_tables:
  "\<forall>(c, oper) \<in> set (tl arithmetic_ops). sound_op env oper" "\<forall>(c, oper) \<in> set context_ops. sound_op env oper"
  "\<forall>(c, oper) \<in> set block_ops. sound_op env oper" "\<forall>(c, oper) \<in> set storage_ops. sound_op env oper"
  by (auto simp only: arithmetic_ops_def context_ops_def block_ops_def storage_ops_def list.sel set_simps prod.case ball_simps simp_thms
      intro!: sound_costly) (simp_all only: op_record operation.simps quiet_ops priced_ops)

lemma sound_families:
  "\<forall>(c, oper) \<in> set push_ops. sound_op env oper" "\<forall>(c, oper) \<in> set dup_ops. sound_op env oper"
  "\<forall>(c, oper) \<in> set swap_ops. sound_op env oper" "\<forall>(c, oper) \<in> set log_ops. sound_op env oper"
  by (auto simp only: push_ops_def dup_ops_def swap_ops_def log_ops_def set_map prod.case intro!: sound_costly)
    (simp_all only: op_record operation.simps quiet_ops priced_ops)

text \<open>The calls: what is handed on is paid for, and the stipend is less than the price of sending value.\<close>

lemma sound_call:
  assumes cp: "call_priced env (gasCost oper) base" and m: "\<And>f. 40 \<le> base f"
    and sp: "\<And>n cs w f g st. callees env n cs \<Longrightarrow> f_stack f = g # st \<Longrightarrow>
      spends env n w (unat (Gas (f_contract f)) + (unat (big_Uint64 g) + extra (f_stack f))) (execute oper env cs w f)"
    and Nil: "\<And>cs w f. f_stack f = [] \<Longrightarrow> execute oper env cs w f = Panic"
    and ex: "\<And>f x. f_stack f \<noteq> [] \<Longrightarrow> extra (x # tl (f_stack f)) < base f"
    and nh: "\<not> halts oper" "\<not> reverts oper"
  shows "sound_op env oper"
  unfolding sound_op_def
proof (intro allI impI conjI)
  fix n cs m w f cost w1 f1 mem'
  assume c: "callees env n cs" and gc: "gasCost oper (gasTable env) env m w f = Ok (cost, w1, f1)"
  obtain cg where p: "same_world env w w1" "f_contract f1 = f_contract f" "f_stack f \<noteq> []" "f_stack f1 = uint cg # tl (f_stack f)"
    "base f + unat (cg :: uint64) \<le> unat cost"
    using cp [unfolded call_priced_def, rule_format, OF gc] by auto
  then show "same_world env w w1" "f_contract f1 = f_contract f" by simp_all
  assume g: "cost \<le> Gas (f_contract f)"
  let ?f = "f1\<lparr>f_contract := (f_contract f1)\<lparr>Gas := Gas (f_contract f1) - cost\<rparr>, f_mem := mem'\<rparr>"
  have "spends env n w1 (unat (Gas (f_contract f) - cost) + (unat cg + extra (uint cg # tl (f_stack f)))) (execute oper env cs w1 ?f)"
    using sp [OF c, of ?f "uint cg" "tl (f_stack f)" w1] p by (simp add: big_Uint64_def)
  moreover have "unat (Gas (f_contract f) - cost) = unat (Gas (f_contract f)) - unat cost" "unat cost \<le> unat (Gas (f_contract f))"
    using g by (simp_all add: unat_sub word_le_nat_alt)
  moreover from this show "halts oper \<or> reverts oper \<or> Gas (f_contract f) \<noteq> 0" using p(5) m [of f] by auto
  ultimately show "spends env n w1 (unat (Gas (f_contract f)) - (if halts oper \<or> reverts oper then 0 else 1)) (execute oper env cs w1 ?f)"
    using p(5) ex [OF p(3), of "uint cg"] by (elim spends_mono) auto
next
  fix n cs w f assume c: "callees env n cs"
  show "\<exists>lim. spends env n w lim (execute oper env cs w f)"
    using sp [OF c, of f] Nil [of f] by (cases "f_stack f") fastforce+
qed (use nh in simp)

definition sent :: "Stack \<Rightarrow> nat" where
  "sent st = (if 2 < length st then stipend (st ! 2) else 0)"

lemma opCall_short:
  assumes "length (f_stack f) < 3"
  shows "opCall env cs w f = Panic" "opCallCode env cs w f = Panic"
  using assms by (cases "f_stack f"; cases "tl (f_stack f)"; cases "tl (tl (f_stack f))";
      force simp: opCall_def opCallCode_def pop3_def pop2_def pop1_def)+

lemma sent_call:
  assumes "callees env n cs" "f_stack f = g # st"
  shows "spends env n w (unat (Gas (f_contract f)) + (unat (big_Uint64 g) + sent (f_stack f))) (opCall env cs w f)"
    "spends env n w (unat (Gas (f_contract f)) + (unat (big_Uint64 g) + sent (f_stack f))) (opCallCode env cs w f)"
proof -
  have "(\<exists>a v st'. f_stack f = g # a # v # st') \<or> length (f_stack f) < 3"
    using assms(2) by (cases st; cases "tl st") auto
  then show "spends env n w (unat (Gas (f_contract f)) + (unat (big_Uint64 g) + sent (f_stack f))) (opCall env cs w f)"
    "spends env n w (unat (Gas (f_contract f)) + (unat (big_Uint64 g) + sent (f_stack f))) (opCallCode env cs w f)"
    using callees.opCall_spends [OF assms(1), of f g] callees.opCallCode_spends [OF assms(1), of f g] opCall_short [of f]
    by (fastforce simp: sent_def)+
qed

lemma sent_less: "sent (x # tl (f_stack f)) < value_base f"
  by (cases "f_stack f") (auto simp: sent_def stipend_def value_base_def)

lemma value_base_min: "40 \<le> value_base f"
  by (simp add: value_base_def)

lemma sound_Call:
  assumes "execute oper = opCall" "gasCost oper = gasCall" and nh: "\<not> halts oper" "\<not> reverts oper"
  shows "sound_op env oper"
  by (rule sound_call [where base = value_base and extra = sent], unfold assms(1,2))
    (assumption | rule call_priced_value value_base_min sent_less sent_call opCall_short nh | simp)+

lemma sound_CallCode:
  assumes "execute oper = opCallCode" "gasCost oper = gasCallCode" and nh: "\<not> halts oper" "\<not> reverts oper"
  shows "sound_op env oper"
  by (rule sound_call [where base = value_base and extra = sent], unfold assms(1,2))
    (assumption | rule call_priced_value value_base_min sent_less sent_call opCall_short nh | simp)+

lemma sound_DelegateCall:
  assumes "execute oper = opDelegateCall" "gasCost oper = gasDelegateCall" and nh: "\<not> halts oper" "\<not> reverts oper"
  shows "sound_op env oper"
  by (rule sound_call [where base = "\<lambda>f. 40" and extra = "\<lambda>st. 0"], unfold assms(1,2))
    (simp_all add: nh call_priced_plain callees.opDelegateCall_spends, simp add: opDelegateCall_def pop2_def pop1_def)

lemma sound_StaticCall:
  assumes "execute oper = opStaticCall" "gasCost oper = gasStaticCall" and nh: "\<not> halts oper" "\<not> reverts oper"
  shows "sound_op env oper"
  by (rule sound_call [where base = "\<lambda>f. 40" and extra = "\<lambda>st. 0"], unfold assms(1,2))
    (simp_all add: nh call_priced_plain callees.opStaticCall_spends, simp add: opStaticCall_def pop2_def pop1_def)

lemma sound_Create:
  assumes "execute oper = opCreate" "gasCost oper = gasCreate" and nh: "\<not> halts oper" "\<not> reverts oper"
  shows "sound_op env oper"
  unfolding sound_op_def
proof (intro allI impI conjI)
  fix n cs m w f cost w1 f1 mem'
  assume c: "callees env n cs" and "gasCost oper (gasTable env) env m w f = Ok (cost, w1, f1)"
  then have p: "1 \<le> unat cost" "same_world env w w1" "f_contract f1 = f_contract f"
    using priced_memory(9) [of env] by (auto simp: priced_def assms(2))
  then show "same_world env w w1" "f_contract f1 = f_contract f" by simp_all
  assume le: "cost \<le> Gas (f_contract f)"
  then have u: "unat (Gas (f_contract f) - cost) = unat (Gas (f_contract f)) - unat cost" by (rule unat_sub)
  let ?f = "f1\<lparr>f_contract := (f_contract f1)\<lparr>Gas := Gas (f_contract f1) - cost\<rparr>, f_mem := mem'\<rparr>"
  show "halts oper \<or> reverts oper \<or> Gas (f_contract f) \<noteq> 0" using le p(1) by auto
  have "spends env n w1 (unat (Gas (f_contract f) - cost)) (execute oper env cs w1 ?f)"
    using callees.opCreate_spends [OF c, of w1 ?f] p(3) by (simp add: assms(1))
  then show "spends env n w1 (unat (Gas (f_contract f)) - (if halts oper \<or> reverts oper then 0 else 1)) (execute oper env cs w1 ?f)"
    using p(1) u by (elim spends_mono) auto
qed (use callees.opCreate_spends assms in metis)+

lemma sound_ends:
  "sound_op env ((op_plain opStop (constGasFunc 0) v)\<lparr>halts := True\<rparr>)" "sound_op env ((op_mem opReturn gasReturn v m)\<lparr>halts := True\<rparr>)"
  "sound_op env ((op_plain opSuicide gasSuicide v)\<lparr>halts := True, writes := True\<rparr>)"
  "sound_op env ((op_mem opRevert gasRevert v m)\<lparr>reverts := True, returns := True\<rparr>)"
  by (rule sound_ending; simp add: op_record quiet_ops priced_ops)+

lemma sound_call_entries:
  "sound_op env ((op_mem opCreate gasCreate v m)\<lparr>writes := True, returns := True\<rparr>)"
  "sound_op env ((op_mem opCall gasCall v m)\<lparr>returns := True\<rparr>)" "sound_op env ((op_mem opCallCode gasCallCode v m)\<lparr>returns := True\<rparr>)"
  "sound_op env ((op_mem opDelegateCall gasDelegateCall v m)\<lparr>returns := True\<rparr>)"
  "sound_op env ((op_mem opStaticCall gasStaticCall v m)\<lparr>returns := True\<rparr>)"
  by (rule sound_Create sound_Call sound_CallCode sound_DelegateCall sound_StaticCall; simp add: op_record; fail)+

lemma sound_returndata:
  "sound_op env (op_plain opReturnDataSize (constGasFunc GasQuickStep) v)" "sound_op env (op_mem opReturnDataCopy gasReturnDataCopy v m)"
  by (rule sound_costly; simp only: op_record operation.simps quiet_ops priced_ops)+

lemma sound_table: "\<forall>(c, oper) \<in> set NewMetropolisInstructionSet. sound_op env oper"
proof -
  have "arithmetic_ops = (0x00, (op_plain opStop (constGasFunc 0) (makeStackFunc 0 0))\<lparr>halts := True\<rparr>) # tl arithmetic_ops"
    by (simp add: arithmetic_ops_def)
  then have "\<forall>(c, oper) \<in> set arithmetic_ops. sound_op env oper"
    using sound_tables(1) [of env] sound_ends(1) by (metis (no_types, lifting) case_prodI set_ConsD)
  moreover have "\<forall>(c, oper) \<in> set call_ops. sound_op env oper"
    by (simp add: call_ops_def sound_ends sound_call_entries)
  ultimately show ?thesis
    using sound_tables(2-4) [of env] sound_families [of env]
    by (simp add: NewMetropolisInstructionSet_def NewHomesteadInstructionSet_def NewFrontierInstructionSet_def ball_Un sound_ends
        sound_call_entries sound_returndata)
qed

lemma JumpTable_sound: "JumpTable env c = Some oper \<Longrightarrow> sound_op env oper"
  using sound_table [of env]
  by (auto simp: JumpTable_def NewMetropolisInstructionSet_def NewHomesteadInstructionSet_def split: if_splits dest!: map_of_SomeD)

section \<open>The loop\<close>

definition body_ok :: "evm_env \<Rightarrow> nat \<Rightarrow> uint64 \<Rightarrow> world \<Rightarrow> loop_result vm \<Rightarrow> bool" where
  "body_ok env n gas w r \<longleftrightarrow>
     (case r of
        Ok (Continue w' f') \<Rightarrow> same_world env w w' \<and> (metered env \<longrightarrow> Gas (f_contract f') < gas)
      | Ok (Return ret err w' f') \<Rightarrow> same_world env w w' \<and> (metered env \<longrightarrow> Gas (f_contract f') \<le> gas)
      | Err e \<Rightarrow> metered env \<longrightarrow> n < unat gas
      | Panic \<Rightarrow> True)"

definition run_ok :: "evm_env \<Rightarrow> nat \<Rightarrow> uint64 \<Rightarrow> world \<Rightarrow> run_result \<Rightarrow> bool" where
  "run_ok env n gas w r \<longleftrightarrow>
     (case r of
        Ok (ret, err, c, w') \<Rightarrow> same_world env w w' \<and> (metered env \<longrightarrow> Gas c \<le> gas)
      | Err e \<Rightarrow> metered env \<longrightarrow> n \<le> unat gas
      | Panic \<Rightarrow> True)"

lemma body_ok_check:
  "(\<And>e. r = Err e \<Longrightarrow> body_ok env n gas w (Ok (h e))) \<Longrightarrow> (\<And>x. r = Ok x \<Longrightarrow> body_ok env n gas w (k x)) \<Longrightarrow>
     body_ok env n gas w (check r h k)"
  by (cases r) (auto simp: body_ok_def)

lemma body_ok_world: "body_ok env n gas w1 r \<Longrightarrow> same_world env w w1 \<Longrightarrow> body_ok env n gas w r"
  by (auto simp: body_ok_def split: outcome.splits loop_result.splits intro: same_world_trans)

lemma body_ok_stop [simp]: "body_ok env n (Gas (f_contract f)) w (Ok (Return ret err w f))"
  by (simp add: body_ok_def)

lemma finish_ok:
  assumes "spends env n w lim r" "halts oper \<or> reverts oper \<Longrightarrow> errorless r"
    "metered env \<Longrightarrow> lim \<le> unat gas - (if halts oper \<or> reverts oper then 0 else 1) \<and> (halts oper \<or> reverts oper \<or> gas \<noteq> 0)"
  shows "body_ok env n gas w (bind_outcome r (finish_op oper))"
proof (cases r)
  case (Ok t)
  obtain w' f' ret err where t: "t = (w', f', ret, err)" by (cases t) auto
  have "same_world env w w'" "metered env \<Longrightarrow> unat (Gas (f_contract f')) \<le> lim"
    using assms(1) by (simp_all add: spends_def Ok t)
  moreover have "halts oper \<or> reverts oper \<or> 0 < unat gas" if "metered env" using assms(3) that by (auto simp: unat_gt_0)
  ultimately show ?thesis
    using assms(3) by (fastforce simp: body_ok_def finish_op_def Ok t Let_def word_le_nat_alt word_less_nat_alt)
next
  case (Err e)
  then have "\<not> halts oper" "\<not> reverts oper" using assms(2) by (auto simp: errorless_def)
  moreover have "halts oper \<or> reverts oper \<or> 0 < unat gas" if "metered env" using assms(3) that by (auto simp: unat_gt_0)
  ultimately show ?thesis using assms(1,3) Err by (fastforce simp: body_ok_def spends_def)
qed (simp add: body_ok_def)

context callees
begin

lemma consume_gas_ok:
  assumes so: "sound_op env oper" and cg: "consume_gas env oper m w f = Ok (w1, f1)"
  shows "same_world env w w1" "body_ok env n (Gas (f_contract f)) w1 (bind_outcome (execute oper env cs w1 (f1\<lparr>f_mem := mem'\<rparr>)) (finish_op oper))"
proof -
  have c: "callees env n cs" by (rule callees_axioms)
  note so1 = so [unfolded sound_op_def, rule_format, OF c, THEN conjunct1, rule_format]
    and so2 = so [unfolded sound_op_def, rule_format, OF c, THEN conjunct2, rule_format]
  have e: "halts oper \<or> reverts oper \<Longrightarrow> errorless (execute oper env cs w1 (f1\<lparr>f_mem := mem'\<rparr>))" using so2 by blast
  have "same_world env w w1 \<and> body_ok env n (Gas (f_contract f)) w1 (bind_outcome (execute oper env cs w1 (f1\<lparr>f_mem := mem'\<rparr>)) (finish_op oper))"
  proof (cases "metered env")
    case False
    then have "w1 = w" using cg by (simp add: consume_gas_def metered_def)
    moreover obtain lim where "spends env n w1 lim (execute oper env cs w1 (f1\<lparr>f_mem := mem'\<rparr>))" using so2 by blast
    ultimately show ?thesis
      using finish_ok [where env = env and lim = lim and gas = "Gas (f_contract f)" and oper = oper, OF _ e] False same_world_refl by metis
  next
    case True
    then obtain cost w2 f2 where g: "gasCost oper (gasTable env) env m w f = Ok (cost, w2, f2)" "\<not> Gas (f_contract f2) < cost"
      "w1 = w2" "f1 = f2\<lparr>f_contract := (f_contract f2)\<lparr>Gas := Gas (f_contract f2) - cost\<rparr>\<rparr>"
      using cg by (auto simp: consume_gas_def metered_def UseGas_def split: outcome.splits if_splits)
    have r: "same_world env w w2" "f_contract f2 = f_contract f" using so1 [OF g(1)] by auto
    moreover have "cost \<le> Gas (f_contract f)" using g(2) r(2) by (simp add: not_less)
    moreover have f1: "f1\<lparr>f_mem := mem'\<rparr> = f2\<lparr>f_contract := (f_contract f2)\<lparr>Gas := Gas (f_contract f2) - cost\<rparr>, f_mem := mem'\<rparr>"
      by (simp add: g(4))
    ultimately have "(halts oper \<or> reverts oper \<or> Gas (f_contract f) \<noteq> 0) \<and>
        spends env n w1 (unat (Gas (f_contract f)) - (if halts oper \<or> reverts oper then 0 else 1)) (execute oper env cs w1 (f1\<lparr>f_mem := mem'\<rparr>))"
      using so1 [OF g(1), of mem'] unfolding g(3) f1 by blast
    then show ?thesis using finish_ok [OF _ e] r(1) g(3) by blast
  qed
  then show "same_world env w w1" "body_ok env n (Gas (f_contract f)) w1 (bind_outcome (execute oper env cs w1 (f1\<lparr>f_mem := mem'\<rparr>)) (finish_op oper))"
    by simp_all
qed

lemma consume_gas_Err: "sound_op env oper \<Longrightarrow> consume_gas env oper m w f = Err (e, w1, f1) \<Longrightarrow> same_world env w w1 \<and> f_contract f1 = f_contract f"
  using callees_axioms
  by (auto simp: consume_gas_def sound_op_def UseGas_def split: outcome.splits if_splits)

lemma loop_body_ok: "body_ok env n (Gas (f_contract f)) w (loop_body env cs w f)"
proof (cases "JumpTable env (GetOp (f_contract f) (f_pc f))")
  case None
  then show ?thesis by (auto simp: loop_body_def Let_def intro!: body_ok_check)
next
  case (Some oper)
  have so: "sound_op env oper" using Some by (rule JumpTable_sound)
  have main: "body_ok env n (Gas (f_contract f)) w (check (consume_gas env oper m w f) (\<lambda>(e, w, f). Return [] (Some e) w f) (\<lambda>(w, f).
      bind_outcome (execute oper env cs w (if 0 < m then f\<lparr>f_mem := Resize m (f_mem f)\<rparr> else f)) (finish_op oper)))" for m
  proof (rule body_ok_check)
    fix e assume "consume_gas env oper m w f = Err e"
    moreover obtain e' w1 f1 where "e = (e', w1, f1)" by (cases e) auto
    ultimately show "body_ok env n (Gas (f_contract f)) w (Ok (case e of (e, w, f) \<Rightarrow> Return [] (Some e) w f))"
      using consume_gas_Err [OF so, of m w f e' w1 f1] by (simp add: body_ok_def)
  next
    fix t assume "consume_gas env oper m w f = Ok t"
    then obtain w1 f1 where t: "consume_gas env oper m w f = Ok (w1, f1)" "t = (w1, f1)" by (cases t) auto
    have "(if 0 < m then f1\<lparr>f_mem := Resize m (f_mem f1)\<rparr> else f1) = f1\<lparr>f_mem := (if 0 < m then Resize m (f_mem f1) else f_mem f1)\<rparr>"
      by simp
    then have "body_ok env n (Gas (f_contract f)) w1 (bind_outcome (execute oper env cs w1 (if 0 < m then f1\<lparr>f_mem := Resize m (f_mem f1)\<rparr> else f1)) (finish_op oper))"
      using consume_gas_ok(2) [OF so t(1), of "if 0 < m then Resize m (f_mem f1) else f_mem f1"] by (simp only:)
    then show "body_ok env n (Gas (f_contract f)) w (case t of (w, f) \<Rightarrow>
        bind_outcome (execute oper env cs w (if 0 < m then f\<lparr>f_mem := Resize m (f_mem f)\<rparr> else f)) (finish_op oper))"
      using body_ok_world [OF _ consume_gas_ok(1) [OF so t(1)]] by (simp only: t(2) prod.case)
  qed
  show ?thesis
  proof (cases "w_abort w")
    case False
    show ?thesis
      unfolding loop_body_def Let_def Some option.case if_not_P [OF False]
      by (rule body_ok_check, rule body_ok_stop)+ (rule main)
  qed (simp add: loop_body_def)
qed

end

section \<open>The calls of the interpreter\<close>

lemma UseGas_le: "Gas (snd (UseGas c g)) \<le> Gas c"
  by (auto simp: UseGas_def word_sub_le)

lemma run_ok_Ok [simp]: "run_ok env n gas w (Ok (ret, err, c, w')) \<longleftrightarrow> same_world env w w' \<and> (metered env \<longrightarrow> Gas c \<le> gas)"
  by (simp add: run_ok_def)

lemma interpreter_Run_ok:
  assumes "\<And>w f. run_ok env n (Gas (f_contract f)) w (lp w f)"
  shows "run_ok env n (Gas c) w (interpreter_Run lp c input w)"
proof (cases "Code c = []")
  case True
  then show ?thesis by (simp add: interpreter_Run_def Let_def same_world_def)
next
  case False
  let ?w = "w\<lparr>w_depth := w_depth w + 1, w_returnData := []\<rparr>"
    and ?f = "\<lparr>f_pc = 0, f_contract = c\<lparr>Input := input\<rparr>, f_mem = NewMemory, f_stack = newstack\<rparr>"
  have "run_ok env n (Gas c) ?w (lp ?w ?f)" using assms [of ?f ?w] by simp
  then show ?thesis
    using False by (cases "lp ?w ?f") (auto simp: interpreter_Run_def Let_def run_ok_def same_world_def)
qed

lemma evm_run_ok:
  assumes "\<And>w f. run_ok env n (Gas (f_contract f)) w (lp w f)"
  shows "run_ok env n (Gas c) w (evm_run env lp c input w)"
proof -
  have le: "Gas (snd (RunPrecompiledContract b p input c)) \<le> Gas c" for b p
    using UseGas_le [of c] by (auto simp: RunPrecompiledContract_def case_prod_unfold split: outcome.split)
  have "run_ok env n (Gas c) w (case RunPrecompiledContract (prm env) p input c of
      (Ok ret, c) \<Rightarrow> Ok (ret, None, c, w) | (Err e, c) \<Rightarrow> Ok ([], Some e, c, w) | (Panic, c) \<Rightarrow> Panic)" for p
  proof -
    obtain r c' where r: "RunPrecompiledContract (prm env) p input c = (r, c')" by fastforce
    then have "Gas c' \<le> Gas c" using le [of "prm env" p] by simp
    then show ?thesis unfolding r by (cases r) (simp_all add: run_ok_def)
  qed
  then show ?thesis
    using interpreter_Run_ok [OF assms] by (auto simp: evm_run_def split: option.split)
qed

lemma with_dests_ok: "(\<And>w. run_ok env n g w (k w)) \<Longrightarrow> run_ok env n g w (with_dests clr k w)"
proof -
  assume k: "\<And>w. run_ok env n g w (k w)"
  have "run_ok env n g (w\<lparr>w_dests := d\<rparr>) r = run_ok env n g w r" for d r
    by (cases r) (auto simp: run_ok_def same_world_def)
  then show ?thesis using k by (auto simp: with_dests_def split: contract_ref.split)
qed

lemma settle_ok:
  assumes "Snapshot s0 = (snap, s1)" "keeps (bk env) (w_db w) s0" "keeps (bk env) s1 s2"
    "run_ok env n gas (w\<lparr>w_db := s2, w_readOnly := ro\<rparr>) r"
  shows "case bind_outcome r (settle snap) of
      Ok (ret, g, err, w') \<Rightarrow> same_world env (w\<lparr>w_readOnly := ro\<rparr>) w' \<and> (metered env \<longrightarrow> g \<le> gas)
    | Err e \<Rightarrow> metered env \<longrightarrow> n \<le> unat gas | Panic \<Rightarrow> True"
proof (cases r)
  case (Ok t)
  obtain ret err c w3 where t: "t = (ret, err, c, w3)" by (cases t) auto
  have w3: "keeps (bk env) s2 (w_db w3)" "w_depth w3 = w_depth w" "w_readOnly w3 = ro" "w_abort w3 = w_abort w" "metered env \<longrightarrow> Gas c \<le> gas"
    using assms(4) by (simp_all add: Ok t same_world_def)
  have k: "keeps (bk env) s1 (w_db w3)" by (rule keeps_trans [OF assms(3) w3(1)])
  have "keeps (bk env) (w_db w) (w_db w3)"
    by (rule keeps_trans [OF assms(2) keeps_trans [OF keeps_query(11) [OF assms(1)] k]])
  moreover have "keeps (bk env) (w_db w) s" if "RevertToSnapshot snap (w_db w3) = Ok s" for s
    by (rule keeps_trans [OF assms(2) keeps_revert [OF assms(1) k that]])
  moreover have "metered env \<longrightarrow> Gas (snd (UseGas c g)) \<le> gas" for g
    using w3(5) UseGas_le [of c g] order_trans by blast
  ultimately show ?thesis
    using w3 by (cases "RevertToSnapshot snap (w_db w3)") (auto simp: Ok t settle_def same_world_def Let_def)
qed (use assms(4) in \<open>auto simp: run_ok_def\<close>)

lemma settle_call_ok:
  assumes "Snapshot s0 = (snap, s1)" "keeps (bk env) (w_db w) s0" "keeps (bk env) s1 s2" "run_ok env n gas (w\<lparr>w_db := s2\<rparr>) r"
  shows "call_ok env n gas w (bind_outcome r (settle snap))"
proof -
  have "w\<lparr>w_readOnly := w_readOnly w\<rparr> = w" "w\<lparr>w_db := s2, w_readOnly := w_readOnly w\<rparr> = w\<lparr>w_db := s2\<rparr>" by simp_all
  then show ?thesis
    using settle_ok [OF assms(1-3), of n gas "w_readOnly w" r] assms(4) unfolding call_ok_def by (simp only:)
qed

lemma load_code_ok:
  assumes "load_code env addr c s = (c', s')"
  shows "Gas c' = Gas c" "keeps (bk env) s s'"
proof -
  obtain h t where h: "GetCodeHash addr s = (h, t)" by fastforce
  obtain code u where u: "GetCode (bk env) addr t = (code, u)" by fastforce
  show "Gas c' = Gas c" "keeps (bk env) s s'"
    using assms h u keeps_trans [OF keeps_query(6) [OF h] keeps_query(9) [OF u]]
    by (auto simp: load_code_def code_of_def SetCallCode_def)
qed

text \<open>The calls that return before anything is done.\<close>

lemma call_ok_simps [simp]:
  "call_ok env n gas w (Ok (ret, gas, err, w)) \<longleftrightarrow> True"
  "call_ok env n gas w (Ok (ret, gas, err, w\<lparr>w_db := s\<rparr>)) \<longleftrightarrow> keeps (bk env) (w_db w) s"
  by (simp_all add: call_ok_def)

lemma evm_Call_ok:
  assumes "\<And>w f. run_ok env n (Gas (f_contract f)) w (lp w f)"
  shows "call_ok env n gas w (evm_Call env lp clr addr input gas val w)"
proof -
  obtain can s where can: "CanTransfer (ref_Address clr) val (w_db w) = (can, s)" by fastforce
  obtain snap s1 where snap: "Snapshot s = (snap, s1)" by fastforce
  obtain ex s2 where ex: "Exist addr s1 = (ex, s2)" by fastforce
  define s3 where "s3 = Transfer (bk env) (ref_Address clr) addr val (if ex then s2 else CreateAccount (bk env) addr s2)"
  obtain c s4 where lc: "load_code env addr (NewContract clr (AccountRef addr) val gas) s3 = (c, s4)" by fastforce
  have k: "keeps (bk env) (w_db w) s" "keeps (bk env) (w_db w) s2"
    using keeps_query(8) [OF can] keeps_trans [OF keeps_query(11) [OF snap] keeps_query(1) [OF ex]] keeps_trans by blast+
  have "keeps (bk env) s2 s3"
    unfolding s3_def by (cases ex) (auto intro: keeping keeps_trans [OF keeps_changes(7) keeps_Transfer])
  then have "keeps (bk env) s1 s4"
    using keeps_query(1) [OF ex] load_code_ok(2) [OF lc] keeps_trans by blast
  moreover have "Gas c = gas" using load_code_ok(1) [OF lc] by (simp add: NewContract_def)
  ultimately have "call_ok env n gas w (bind_outcome (with_dests clr (evm_run env lp c input) (w\<lparr>w_db := s4\<rparr>)) (settle snap))"
    using evm_run_ok [OF assms, of c _ input] by (auto intro!: settle_call_ok [OF snap k(1)] with_dests_ok)
  then show ?thesis
    using k can snap ex lc by (auto simp: evm_Call_def Let_def s3_def)
qed

lemma evm_CallCode_ok:
  assumes "\<And>w f. run_ok env n (Gas (f_contract f)) w (lp w f)"
  shows "call_ok env n gas w (evm_CallCode env lp clr addr input gas val w)"
proof -
  obtain can s where can: "CanTransfer (ref_Address clr) val (w_db w) = (can, s)" by fastforce
  obtain snap s1 where snap: "Snapshot s = (snap, s1)" by fastforce
  obtain c s4 where lc: "load_code env addr (NewContract clr (AccountRef (ref_Address clr)) val gas) s1 = (c, s4)" by fastforce
  have k: "keeps (bk env) (w_db w) s" using keeps_query(8) [OF can] .
  have "Gas c = gas" using load_code_ok(1) [OF lc] by (simp add: NewContract_def)
  then have "call_ok env n gas w (bind_outcome (with_dests clr (evm_run env lp c input) (w\<lparr>w_db := s4\<rparr>)) (settle snap))"
    using evm_run_ok [OF assms, of c _ input] by (auto intro!: settle_call_ok [OF snap k load_code_ok(2) [OF lc]] with_dests_ok)
  then show ?thesis
    using k can snap lc by (auto simp: evm_CallCode_def)
qed

lemma evm_DelegateCall_ok:
  assumes "\<And>w f. run_ok env n (Gas (f_contract f)) w (lp w f)"
  shows "call_ok env n gas w (evm_DelegateCall env lp clr addr input gas w)"
proof (cases clr)
  case (AccountRef a)
  then show ?thesis by (cases "Snapshot (w_db w)") (simp add: evm_DelegateCall_def AsDelegate_def NewContract_def call_ok_def)
next
  case (ContractRef a ca v)
  obtain snap s1 where snap: "Snapshot (w_db w) = (snap, s1)" by fastforce
  obtain c0 where c0: "AsDelegate (NewContract clr (AccountRef (ref_Address clr)) 0 gas) = Ok c0" "Gas c0 = gas"
    using ContractRef by (simp add: AsDelegate_def NewContract_def)
  obtain c s4 where lc: "load_code env addr c0 s1 = (c, s4)" by fastforce
  have "Gas c = gas" using load_code_ok(1) [OF lc] c0(2) by simp
  then have "call_ok env n gas w (bind_outcome (with_dests clr (evm_run env lp c input) (w\<lparr>w_db := s4\<rparr>)) (settle snap))"
    using evm_run_ok [OF assms, of c _ input] by (auto intro!: settle_call_ok [OF snap keeps_refl load_code_ok(2) [OF lc]] with_dests_ok)
  then show ?thesis
    using snap lc c0 by (auto simp: evm_DelegateCall_def)
qed

lemma evm_StaticCall_ok:
  assumes "\<And>w f. run_ok env n (Gas (f_contract f)) w (lp w f)"
  shows "call_ok env n gas w (evm_StaticCall env lp clr addr input gas w)"
proof -
  obtain snap s1 where snap: "Snapshot (w_db w) = (snap, s1)" by fastforce
  obtain c s4 where lc: "load_code env addr (NewContract clr (AccountRef addr) 0 gas) s1 = (c, s4)" by fastforce
  have "Gas c = gas" using load_code_ok(1) [OF lc] by (simp add: NewContract_def)
  define r where "r = bind_outcome (with_dests clr (evm_run env lp c input) (w\<lparr>w_db := s4, w_readOnly := True\<rparr>)) (settle snap)"
  have "case r of Ok (ret, g, err, w') \<Rightarrow> same_world env (w\<lparr>w_readOnly := True\<rparr>) w' \<and> (metered env \<longrightarrow> g \<le> gas)
      | Err e \<Rightarrow> metered env \<longrightarrow> n \<le> unat gas | Panic \<Rightarrow> True"
    unfolding r_def using evm_run_ok [OF assms, of c _ input] \<open>Gas c = gas\<close>
    by (intro settle_ok [OF snap keeps_refl load_code_ok(2) [OF lc]] with_dests_ok) simp
  then have "call_ok env n gas w (bind_outcome r (\<lambda>(ret, g, err, w'). Ok (ret, g, err, w'\<lparr>w_readOnly := w_readOnly w\<rparr>)))"
    by (cases r) (auto simp: call_ok_def same_world_def)
  then show ?thesis
    using snap lc by (auto simp: evm_StaticCall_def r_def)
qed

lemma store_code_ok:
  assumes "store_code env addr ret err c w = (err', c', w')"
  shows "same_world env w w'" "Gas c' \<le> Gas c"
  using assms UseGas_le [of c] by (auto simp: store_code_def case_prod_unfold keeping split: if_splits)

lemma create_ok_simps [simp]:
  "create_ok env n gas w (Ok (ret, a, g, err, w)) \<longleftrightarrow> (metered env \<longrightarrow> g \<le> gas)"
  "create_ok env n gas w (Ok (ret, a, g, err, w\<lparr>w_db := s\<rparr>)) \<longleftrightarrow> keeps (bk env) (w_db w) s \<and> (metered env \<longrightarrow> g \<le> gas)"
  by (simp_all add: create_ok_def)

lemma finish_create_ok:
  assumes "Snapshot s0 = (snap, s1)" "keeps (bk env) (w_db w) s0" "keeps (bk env) s1 s2" "run_ok env n gas (w\<lparr>w_db := s2\<rparr>) r"
  shows "create_ok env n gas w (bind_outcome r (finish_create env snap addr))"
proof (cases r)
  case (Ok t)
  obtain ret err c w3 where t: "t = (ret, err, c, w3)" by (cases t) auto
  obtain err' c' w4 where sc: "store_code env addr ret err c w3 = (err', c', w4)" by (cases "store_code env addr ret err c w3") auto
  have "same_world env (w\<lparr>w_db := s2\<rparr>) w4" and le: "metered env \<Longrightarrow> Gas c' \<le> gas"
    using assms(4) same_world_trans [OF _ store_code_ok(1) [OF sc]] order_trans [OF store_code_ok(2) [OF sc]] by (auto simp: Ok t)
  then have w4: "keeps (bk env) s2 (w_db w4)" "w_depth w4 = w_depth w" "w_readOnly w4 = w_readOnly w" "w_abort w4 = w_abort w"
    by (simp_all add: same_world_def)
  have k: "keeps (bk env) s1 (w_db w4)" by (rule keeps_trans [OF assms(3) w4(1)])
  have "keeps (bk env) (w_db w) (w_db w4)"
    by (rule keeps_trans [OF assms(2) keeps_trans [OF keeps_query(11) [OF assms(1)] k]])
  moreover have "keeps (bk env) (w_db w) s" if "RevertToSnapshot snap (w_db w4) = Ok s" for s
    by (rule keeps_trans [OF assms(2) keeps_revert [OF assms(1) k that]])
  moreover have "metered env \<Longrightarrow> Gas (snd (UseGas c' g)) \<le> gas" for g
    using le UseGas_le [of c' g] order_trans by blast
  ultimately show ?thesis
    using w4 le
    by (cases "RevertToSnapshot snap (w_db w4)") (auto simp: Ok t sc finish_create_def create_ok_def same_world_def Let_def)
qed (use assms(4) in \<open>auto simp: run_ok_def create_ok_def\<close>)

lemma evm_Create_ok:
  assumes "\<And>w f. run_ok env n (Gas (f_contract f)) w (lp w f)"
  shows "create_ok env n gas w (evm_Create env lp clr code gas val w)"
proof -
  let ?b = "bk env" and ?from = "ref_Address clr"
  obtain can s where can: "CanTransfer ?from val (w_db w) = (can, s)" by fastforce
  obtain nonce s1 where nonce: "GetNonce ?from s = (nonce, s1)" by fastforce
  define addr where "addr = CreateAddress ?b ?from nonce"
  define s2 where "s2 = SetNonce ?b ?from (nonce + 1) s1"
  obtain h s3 where h: "GetCodeHash addr s2 = (h, s3)" by fastforce
  obtain m s4 where m: "GetNonce addr s3 = (m, s4)" by fastforce
  obtain snap s5 where snap: "Snapshot s4 = (snap, s5)" by fastforce
  define s6 where "s6 = CreateAccount ?b addr s5"
  define s7 where "s7 = (if IsEIP158 (chainConfig env) (BlockNumber (ctx env)) then SetNonce ?b addr 1 s6 else s6)"
  define s8 where "s8 = Transfer ?b ?from addr val s7"
  define c where "c = SetCallCode addr (Keccak256Hash ?b code) code (NewContract clr (AccountRef addr) val gas)"
  have ks: "keeps ?b (w_db w) s" by (rule keeps_query(8) [OF can])
  have "keeps ?b s1 s2" by (simp add: s2_def keeping)
  then have k: "keeps ?b (w_db w) s4"
    using ks keeps_query(4) [OF nonce] keeps_query(6) [OF h] keeps_query(4) [OF m] by (meson keeps_trans)
  have "keeps ?b s5 s6" "keeps ?b s6 s7" "keeps ?b s7 s8" by (simp_all add: s6_def s7_def s8_def keeping)
  then have k8: "keeps ?b s5 s8" by (meson keeps_trans)
  have "Gas c = gas" by (simp add: c_def SetCallCode_def NewContract_def)
  then have "create_ok env n gas w (bind_outcome (with_dests clr (evm_run env lp c []) (w\<lparr>w_db := s8\<rparr>)) (finish_create env snap addr))"
    using evm_run_ok [OF assms, of c _ "[]"] by (auto intro!: finish_create_ok [OF snap k k8] with_dests_ok)
  then show ?thesis
    using k ks can nonce h m snap
    by (cases "IsEIP158 (chainConfig env) (BlockNumber (ctx env))")
      (simp_all add: evm_Create_def Let_def s7_def s8_def flip: addr_def s2_def s6_def c_def)
qed

section \<open>All runs\<close>

lemma callees_evm:
  assumes "\<And>w f. run_ok env n (Gas (f_contract f)) w (lp w f)"
  shows "callees env n (evm_calls env lp)"
  by unfold_locales
    (simp_all add: evm_calls_def evm_Call_ok evm_CallCode_ok evm_DelegateCall_ok evm_StaticCall_ok evm_Create_ok assms)

lemma run_loop_ok: "run_ok env n (Gas (f_contract f)) w (run_loop env n w f)"
proof (induction n arbitrary: w f)
  case 0
  then show ?case by (simp add: run_ok_def)
next
  case (Suc n)
  let ?b = "loop_body env (evm_calls env (run_loop env n)) w f"
  have b: "body_ok env n (Gas (f_contract f)) w ?b"
    by (rule callees.loop_body_ok [OF callees_evm [OF Suc.IH]])
  show ?case
  proof (cases ?b)
    case (Ok r)
    show ?thesis
    proof (cases r)
      case (Continue w1 f1)
      have c: "same_world env w w1" "metered env \<Longrightarrow> Gas (f_contract f1) < Gas (f_contract f)"
        using b by (simp_all add: Ok Continue body_ok_def)
      show ?thesis
        using Suc.IH [of f1 w1] c same_world_trans [OF c(1)]
        by (cases "run_loop env n w1 f1") (auto simp: run_ok_def Ok Continue word_less_nat_alt word_le_nat_alt)
    qed (use b Ok in \<open>simp add: body_ok_def run_ok_def\<close>)
  qed (use b in \<open>auto simp: body_ok_def run_ok_def\<close>)
qed

interpretation evm: callees env n "evm_calls env (run_loop env n)" for env n
  by (rule callees_evm [OF run_loop_ok])

end
