(* ===== verification/Termination.thy ===== *)
theory Termination
  imports Execution
begin

text \<open>
  The properties of whole calls: they end with the same result for every fuel above the gas, they give back at most the gas they got, and a call that fails
  leaves the accounts as they were. The fuel is only a device of the model: a run that does not exhaust it has the
  same result with more.
\<close>

section \<open>More fuel does not change a result\<close>

definition le_res :: "'a vm \<Rightarrow> 'a vm \<Rightarrow> bool" where
  "le_res r r' \<longleftrightarrow> r = r' \<or> (\<exists>e. r = Err e)"

lemma le_res_refl [simp, intro]: "le_res r r"
  by (simp add: le_res_def)

lemma le_res_bind: "le_res r r' \<Longrightarrow> le_res (bind_outcome r k) (bind_outcome r' k)"
  by (auto simp: le_res_def)

lemma le_res_bind2: "(\<And>x. le_res (k x) (k' x)) \<Longrightarrow> le_res (bind_outcome r k) (bind_outcome r k')"
  by (cases r) auto

lemma le_res_pop1: "(\<And>x f. le_res (k x f) (k' x f)) \<Longrightarrow> le_res (pop1 f k) (pop1 f k')"
  by (auto simp: pop1_def intro!: le_res_bind2)

lemma le_res_pop2: "(\<And>x y f. le_res (k x y f) (k' x y f)) \<Longrightarrow> le_res (pop2 f k) (pop2 f k')"
  by (auto simp: pop2_def intro!: le_res_pop1)

lemma le_res_pop3: "(\<And>x y z f. le_res (k x y z f) (k' x y z f)) \<Longrightarrow> le_res (pop3 f k) (pop3 f k')"
  by (auto simp: pop3_def intro!: le_res_pop1 le_res_pop2)

lemma le_res_check: "(\<And>x. le_res (k x) (k' x)) \<Longrightarrow> le_res (check r h k) (check r h k')"
  by (cases r) auto

definition le_calls :: "calls \<Rightarrow> calls \<Rightarrow> bool" where
  "le_calls cs cs' \<longleftrightarrow>
     (\<forall>clr a i g v w. le_res (c_Call cs clr a i g v w) (c_Call cs' clr a i g v w) \<and> le_res (c_CallCode cs clr a i g v w) (c_CallCode cs' clr a i g v w) \<and>
        le_res (c_DelegateCall cs clr a i g w) (c_DelegateCall cs' clr a i g w) \<and> le_res (c_StaticCall cs clr a i g w) (c_StaticCall cs' clr a i g w) \<and>
        le_res (c_Create cs clr i g v w) (c_Create cs' clr i g v w))"

definition mono_op :: "executionFunc \<Rightarrow> bool" where
  "mono_op e \<longleftrightarrow> (\<forall>env cs cs' w f. le_calls cs cs' \<longrightarrow> le_res (e env cs w f) (e env cs' w f))"

lemma mono_calls: "mono_op opCall" "mono_op opCallCode" "mono_op opDelegateCall" "mono_op opStaticCall" "mono_op opCreate"
  by (auto simp: mono_op_def le_calls_def opCall_def opCallCode_def opDelegateCall_def opStaticCall_def opCreate_def Let_def
      intro!: le_res_pop1 le_res_pop2 le_res_pop3 le_res_bind2 le_res_bind)

lemma mono_others:
  "mono_op opStop" "mono_op opAdd" "mono_op opMul" "mono_op opSub" "mono_op opDiv" "mono_op opSdiv" "mono_op opMod" "mono_op opSmod"
  "mono_op opAddmod" "mono_op opMulmod" "mono_op opExp" "mono_op opSignExtend" "mono_op opLt" "mono_op opGt" "mono_op opSlt" "mono_op opSgt"
  "mono_op opEq" "mono_op opIszero" "mono_op opAnd" "mono_op opOr" "mono_op opXor" "mono_op opNot" "mono_op opByte" "mono_op opSha3"
  "mono_op opAddress" "mono_op opBalance" "mono_op opOrigin" "mono_op opCaller" "mono_op opCallValue" "mono_op opCallDataLoad"
  "mono_op opCallDataSize" "mono_op opCallDataCopy" "mono_op opCodeSize" "mono_op opCodeCopy" "mono_op opGasprice" "mono_op opExtCodeSize"
  "mono_op opExtCodeCopy" "mono_op opBlockhash" "mono_op opCoinbase" "mono_op opTimestamp" "mono_op opNumber" "mono_op opDifficulty"
  "mono_op opGasLimit" "mono_op opReturnDataSize" "mono_op opReturnDataCopy" "mono_op opPop" "mono_op opMload" "mono_op opMstore"
  "mono_op opMstore8" "mono_op opSload" "mono_op opSstore" "mono_op opJump" "mono_op opJumpi" "mono_op opJumpdest" "mono_op opPc"
  "mono_op opMsize" "mono_op opGas" "mono_op (makePush s n)" "mono_op (makeDup n)" "mono_op (makeSwap n)" "mono_op (makeLog n)"
  "mono_op opReturn" "mono_op opRevert" "mono_op opSuicide"
  unfolding mono_op_def opStop_def opAdd_def opMul_def opSub_def opDiv_def opSdiv_def opMod_def opSmod_def opAddmod_def opMulmod_def opExp_def
    opSignExtend_def opLt_def opGt_def opSlt_def opSgt_def opEq_def opIszero_def opAnd_def opOr_def opXor_def opNot_def opByte_def opSha3_def
    opAddress_def opBalance_def opOrigin_def opCaller_def opCallValue_def opCallDataLoad_def opCallDataSize_def opCallDataCopy_def
    opCodeSize_def opCodeCopy_def opGasprice_def opExtCodeSize_def opExtCodeCopy_def opBlockhash_def opCoinbase_def opTimestamp_def
    opNumber_def opDifficulty_def opGasLimit_def opReturnDataSize_def opReturnDataCopy_def opPop_def opMload_def opMstore_def opMstore8_def
    opSload_def opSstore_def opJump_def opJumpi_def opJumpdest_def opPc_def opMsize_def opGas_def makePush_def makeDup_def makeSwap_def
    makeLog_def opReturn_def opRevert_def opSuicide_def
  by (simp_all only: le_res_refl simp_thms)

lemma mono_table: "\<forall>(c, oper) \<in> set NewMetropolisInstructionSet. mono_op (execute oper)"
  unfolding NewMetropolisInstructionSet_def NewHomesteadInstructionSet_def NewFrontierInstructionSet_def arithmetic_ops_def context_ops_def
    block_ops_def storage_ops_def push_ops_def dup_ops_def swap_ops_def log_ops_def call_ops_def
  by (simp add: op_record mono_calls mono_others ball_Un)

lemma JumpTable_mono: "JumpTable env c = Some oper \<Longrightarrow> mono_op (execute oper)"
  using mono_table
  by (auto simp: JumpTable_def NewMetropolisInstructionSet_def NewHomesteadInstructionSet_def split: if_splits dest!: map_of_SomeD)

lemma loop_body_mono: "le_calls cs cs' \<Longrightarrow> le_res (loop_body env cs w f) (loop_body env cs' w f)"
proof (cases "JumpTable env (GetOp (f_contract f) (f_pc f))")
  case (Some oper)
  assume le: "le_calls cs cs'"
  have "le_res (execute oper env cs w f) (execute oper env cs' w f)" for w f
    using JumpTable_mono [OF Some] le by (simp add: mono_op_def)
  then show ?thesis
    by (auto simp: loop_body_def Some Let_def intro!: le_res_check le_res_bind)
qed (simp add: loop_body_def)

definition le_loop :: "loop \<Rightarrow> loop \<Rightarrow> bool" where
  "le_loop lp lp' \<longleftrightarrow> (\<forall>w f. le_res (lp w f) (lp' w f))"

lemma evm_run_mono: "le_loop lp lp' \<Longrightarrow> le_res (evm_run env lp c input w) (evm_run env lp' c input w)"
  by (auto simp: evm_run_def interpreter_Run_def le_loop_def Let_def intro!: le_res_bind split: option.split)

lemma with_dests_mono: "(\<And>w. le_res (k w) (k' w)) \<Longrightarrow> le_res (with_dests clr k w) (with_dests clr k' w)"
  by (simp add: with_dests_def split: contract_ref.split)

lemma le_res_if: "le_res x x' \<Longrightarrow> le_res y y' \<Longrightarrow> le_res (if b then x else y) (if b then x' else y')"
  by simp

lemma le_res_run:
  "le_loop lp lp' \<Longrightarrow> le_res (bind_outcome (with_dests clr (evm_run env lp c input) w) k) (bind_outcome (with_dests clr (evm_run env lp' c input) w) k)"
  by (intro le_res_bind with_dests_mono evm_run_mono)

lemma evm_Call_mono: "le_loop lp lp' \<Longrightarrow> le_res (evm_Call env lp clr a i g v w) (evm_Call env lp' clr a i g v w)"
  unfolding evm_Call_def Let_def case_prod_unfold by (intro le_res_if le_res_refl le_res_run)

lemma evm_CallCode_mono: "le_loop lp lp' \<Longrightarrow> le_res (evm_CallCode env lp clr a i g v w) (evm_CallCode env lp' clr a i g v w)"
  by (simp add: evm_CallCode_def case_prod_unfold le_res_run)

lemma evm_DelegateCall_mono: "le_loop lp lp' \<Longrightarrow> le_res (evm_DelegateCall env lp clr a i g w) (evm_DelegateCall env lp' clr a i g w)"
  by (simp add: evm_DelegateCall_def case_prod_unfold le_res_run le_res_bind2)

lemma evm_StaticCall_mono: "le_loop lp lp' \<Longrightarrow> le_res (evm_StaticCall env lp clr a i g w) (evm_StaticCall env lp' clr a i g w)"
  by (simp add: evm_StaticCall_def case_prod_unfold le_res_bind [OF le_res_run])

lemma evm_Create_mono: "le_loop lp lp' \<Longrightarrow> le_res (evm_Create env lp clr i g v w) (evm_Create env lp' clr i g v w)"
  unfolding evm_Create_def Let_def case_prod_unfold by (intro le_res_if le_res_refl le_res_run)

lemma evm_calls_mono: "le_loop lp lp' \<Longrightarrow> le_calls (evm_calls env lp) (evm_calls env lp')"
  by (simp add: le_calls_def evm_calls_def evm_Call_mono evm_CallCode_mono evm_DelegateCall_mono evm_StaticCall_mono evm_Create_mono)

lemma run_loop_mono: "n \<le> m \<Longrightarrow> le_loop (run_loop env n) (run_loop env m)"
proof (induction n arbitrary: m)
  case 0
  then show ?case by (simp add: le_loop_def le_res_def)
next
  case (Suc n)
  then obtain k where m: "m = Suc k" "n \<le> k" by (cases m) auto
  have IH: "le_loop (run_loop env n) (run_loop env k)" using Suc.IH m(2) .
  show ?case
    unfolding le_loop_def
  proof (intro allI)
    fix w f
    let ?k = "\<lambda>lp r. case r of Continue w f \<Rightarrow> lp w f | Return ret err w f \<Rightarrow> Ok (ret, err, f_contract f, w)"
    let ?b = "\<lambda>j. loop_body env (evm_calls env (run_loop env j)) w f"
    have "le_res (?b n) (?b k)" by (rule loop_body_mono [OF evm_calls_mono [OF IH]])
    then have "le_res (bind_outcome (?b n) (?k (run_loop env n))) (bind_outcome (?b k) (?k (run_loop env n)))" by (rule le_res_bind)
    moreover have "le_res (bind_outcome (?b k) (?k (run_loop env n))) (bind_outcome (?b k) (?k (run_loop env k)))"
      using IH by (auto simp: le_loop_def intro!: le_res_bind2 split: loop_result.split)
    ultimately show "le_res (run_loop env (Suc n) w f) (run_loop env m w f)" unfolding m(1) by (auto simp: le_res_def)
  qed
qed

lemma Call_mono: "n \<le> m \<Longrightarrow> le_res (Call n env clr a i g v w) (Call m env clr a i g v w)"
  unfolding Call_def by (intro evm_Call_mono run_loop_mono)

lemma Create_mono: "n \<le> m \<Longrightarrow> le_res (Create n env clr i g v w) (Create m env clr i g v w)"
  unfolding Create_def by (intro evm_Create_mono run_loop_mono)

section \<open>Failed calls\<close>

text \<open>From a snapshot on, whatever the callee has done is undone.\<close>

definition restored :: "evm_env \<Rightarrow> StateDB \<Rightarrow> StateDB \<Rightarrow> bool" where
  "restored env s s' \<longleftrightarrow>
     observe (bk env) s' = observe (bk env) s \<and> wf_objects s' \<and> revisions_ok s' \<and> journal s' = journal s \<and>
     validRevisions s' = validRevisions s \<and> acc_trie s' = acc_trie s"

lemma restored_refl: "wf_objects s \<Longrightarrow> revisions_ok s \<Longrightarrow> restored env s s"
  by (simp add: restored_def)

lemma restored_query:
  assumes "wf_objects s" "revisions_ok s" "CanTransfer a x s = (can, t)"
  shows "restored env s t"
proof -
  have t: "t = snd (getStateObject a s)" using query_state(8) [of a x s] assms(3) by simp
  then show ?thesis
    using getStateObject_same(1) [of "bk env" a s] getStateObject_same(2-5) [of a s] wf_getStateObject [OF assms(1), of a] assms(2)
    by (simp add: restored_def revisions_ok_def)
qed

lemma restored_trans: "restored env s t \<Longrightarrow> restored env t u \<Longrightarrow> restored env s u"
  by (simp add: restored_def)

text \<open>The error and the gas of a failed call: only a code that reverts itself gives back gas.\<close>

lemma settle_restores:
  assumes "wf_objects s0" "revisions_ok s0" "Snapshot s0 = (snap, s1)" "keeps (bk env) s1 s2"
    "run_ok env n gas (w\<lparr>w_db := s2, w_readOnly := ro\<rparr>) r" "bind_outcome r (settle snap) = Ok (ret, g, Some e, w')"
  shows "restored env s0 (w_db w') \<and> (e = errExecutionReverted \<or> g = 0)"
proof -
  obtain t where t: "r = Ok t" "settle snap t = Ok (ret, g, Some e, w')"
    using assms(6) by (auto simp: bind_outcome_Ok_iff)
  obtain ret1 err c w3 where t': "t = (ret1, err, c, w3)" by (cases t) auto
  have "keeps (bk env) s2 (w_db w3)" using assms(5) by (simp add: t t' same_world_def)
  then have si: "since (bk env) snap s0 (w_db w3)"
    using since_start [OF assms(1-3)] assms(4) by (auto simp: keeps_def)
  obtain s' where s': "RevertToSnapshot snap (w_db w3) = Ok s'" "restored env s0 s'"
    using revert_since [OF si] by (auto simp: restored_def)
  then show ?thesis using t(2) unfolding t' by (auto simp: settle_def Let_def UseGas_def split: if_splits)
qed

lemmas run_loop_run_ok = evm_run_ok [OF run_loop_ok]

lemma Call_restores:
  assumes wf: "wf_objects (w_db w)" "revisions_ok (w_db w)"
    and c: "evm_Call env (run_loop env n) clr addr input gas val w = Ok (ret, g, Some e, w')"
  shows "restored env (w_db w) (w_db w') \<and> (e = errExecutionReverted \<or> g = 0 \<or> e = ErrDepth \<or> e = ErrInsufficientBalance)"
proof -
  let ?lp = "run_loop env n"
  obtain can s where can: "CanTransfer (ref_Address clr) val (w_db w) = (can, s)" by fastforce
  have s: "restored env (w_db w) s" by (rule restored_query [OF wf can])
  obtain snap s1 where snap: "Snapshot s = (snap, s1)" by fastforce
  obtain ex s2 where ex: "Exist addr s1 = (ex, s2)" by fastforce
  define s3 where "s3 = Transfer (bk env) (ref_Address clr) addr val (if ex then s2 else CreateAccount (bk env) addr s2)"
  obtain c' s4 where lc: "load_code env addr (NewContract clr (AccountRef addr) val gas) s3 = (c', s4)" by fastforce
  have "keeps (bk env) s2 s3"
    unfolding s3_def by (cases ex) (auto intro: keeping keeps_trans [OF keeps_changes(7) keeps_Transfer])
  then have k: "keeps (bk env) s1 s4" using keeps_query(1) [OF ex] load_code_ok(2) [OF lc] keeps_trans by blast
  have r: "run_ok env n (Gas c') (w\<lparr>w_db := s4, w_readOnly := w_readOnly w\<rparr>) (with_dests clr (evm_run env ?lp c' input) (w\<lparr>w_db := s4\<rparr>))"
    by (simp add: with_dests_ok run_loop_run_ok)
  have "restored env s (w_db w') \<and> (e = errExecutionReverted \<or> g = 0)"
    if "bind_outcome (with_dests clr (evm_run env ?lp c' input) (w\<lparr>w_db := s4\<rparr>)) (settle snap) = Ok (ret, g, Some e, w')"
    using s by (intro settle_restores [OF _ _ snap k r that]) (simp_all add: restored_def)
  then show ?thesis
    using c can snap ex lc s restored_refl [OF wf] restored_trans [OF s]
    by (auto simp: evm_Call_def Let_def s3_def split: if_splits)
qed

lemma call_ok_gas: "call_ok env n gas w r \<Longrightarrow> metered env \<Longrightarrow> case r of Ok (ret, g, err, w') \<Rightarrow> g \<le> gas | _ \<Rightarrow> True"
  by (cases r) (auto simp: call_ok_def)

lemma create_ok_gas: "create_ok env n gas w r \<Longrightarrow> metered env \<Longrightarrow> case r of Ok (ret, a, g, err, w') \<Rightarrow> g \<le> gas | _ \<Rightarrow> True"
  by (cases r) (auto simp: create_ok_def)

section \<open>A concrete machine\<close>

text \<open>All forks are active from block 0 on; account 100 has the given code and account 1 has 100 wei.\<close>

definition sample_env :: evm_env where
  "sample_env =
     \<lparr>ctx = \<lparr>GetHash = (\<lambda>_. 0), Origin = 1, GasPrice = 1, Coinbase = 2, GasLimit = 1000, BlockNumber = 1, Time = 0, Difficulty = 0\<rparr>,
      chainConfig = \<lparr>ChainId = Some 1, HomesteadBlock = Some 0, DAOForkBlock = None, EIP150Block = Some 0, EIP155Block = Some 0,
        EIP158Block = Some 0, MetropolisBlock = Some 0\<rparr>,
      vmConfig = \<lparr>NoRecursion = False, DisableGasMetering = False, EnablePreimageRecording = False\<rparr>,
      bk = zero_backend\<lparr>Keccak256Hash := (\<lambda>bs. of_nat (length bs))\<rparr>,
      prm = \<lparr>prim_sha256 = (\<lambda>x. x), prim_ripemd160 = (\<lambda>x. x), prim_keccak256 = (\<lambda>x. x), prim_Ecrecover = (\<lambda>_ _. None),
        prim_undef = (\<lambda>_. 0)\<rparr>\<rparr>"

definition sample_world :: "byte list \<Rightarrow> world" where
  "sample_world code =
     \<lparr>w_db = db_SetCode (bk sample_env) 100 code (AddBalance (bk sample_env) 1 100 empty_statedb), w_depth = 0, w_readOnly = False,
      w_returnData = [], w_pool = [], w_dests = Map.empty, w_abort = False\<rparr>"

lemma metered_sample: "metered sample_env"
  by (simp add: metered_def sample_env_def)

lemma extends_ok: "extends b s t \<Longrightarrow> revisions_ok s \<Longrightarrow> wf_objects t \<and> revisions_ok t"
  by (simp add: extends_def revisions_ok_def)

lemma sample_world_ok: "wf_objects (w_db (sample_world code)) \<and> revisions_ok (w_db (sample_world code))"
proof -
  have "wf_objects empty_statedb" "revisions_ok empty_statedb" by (simp_all add: empty_statedb_def wf_objects_def revisions_ok_def)
  then have "wf_objects (AddBalance (bk sample_env) 1 100 empty_statedb) \<and> revisions_ok (AddBalance (bk sample_env) 1 100 empty_statedb)"
    using extends_ok extends_changes(1) by blast
  then show ?thesis
    unfolding sample_world_def world.simps using extends_ok extends_changes(5) by blast
qed

text \<open>A call with value to a precompiled contract that runs out of gas: the transfer has been done and is undone.\<close>

lemma sample_precompile_fails:
  "case evm_Call sample_env lp (AccountRef 1) 4 [] 5 5 (sample_world [0x00]) of Ok (ret, g, e, w') \<Rightarrow> e = Some ErrOutOfGas | _ \<Rightarrow> False"
  by code_simp

lemma call_result_error:
  "case r of Ok (ret, g, e, w') \<Rightarrow> e = Some x | _ \<Rightarrow> False \<Longrightarrow> \<exists>ret g w'. r = Ok (ret, g, Some x, w')"
  by (cases r) auto

section \<open>Properties\<close>

text \<open>C7: Execution ends: with gas metering on, a call with \<open>gas\<close> gas needs fewer than \<open>gas + 1\<close> rounds of the loop, nested calls
  included: the model never runs out of fuel, and every larger fuel gives the same result.\<close>

theorem call_terminates:
  assumes "metered env" "unat gas < n" "n \<le> m"
  shows "Call n env clr addr input gas val w \<noteq> Err OutOfFuel \<and>
    Call m env clr addr input gas val w = Call n env clr addr input gas val w"
proof -
  have "call_ok env n gas w (Call n env clr addr input gas val w)"
    unfolding Call_def by (rule evm_Call_ok [OF run_loop_ok])
  then have "\<forall>e. Call n env clr addr input gas val w \<noteq> Err e"
    using assms(1,2) by (auto simp: call_ok_def)
  then show ?thesis
    using Call_mono [OF assms(3), of env clr addr input gas val w] by (auto simp: le_res_def)
qed

theorem call_terminates_witness:
  "Call 1000 sample_env (AccountRef 1) 100 [] 25 5 (sample_world [0x5b, 0x60, 0, 0x56])
     = Call 26 sample_env (AccountRef 1) 100 [] 25 5 (sample_world [0x5b, 0x60, 0, 0x56])"
proof -
  have "unat (25 :: uint64) < 26" "(26 :: nat) \<le> 1000" by simp_all
  then show ?thesis using call_terminates [OF metered_sample] by blast
qed

text \<open>C11: A call and a creation give back at most the gas they were given, whatever they execute and however deep they nest.\<close>

theorem gas_is_bounded:
  assumes "metered env"
  shows "(case Call n env clr addr input gas val w of Ok (ret, g, err, w') \<Rightarrow> g \<le> gas | _ \<Rightarrow> True) \<and>
    (case Create n env clr code gas val w of Ok (ret, a, g, err, w') \<Rightarrow> g \<le> gas | _ \<Rightarrow> True)"
  unfolding Call_def Create_def
  by (rule conjI [OF call_ok_gas [OF evm_Call_ok [OF run_loop_ok] assms] create_ok_gas [OF evm_Create_ok [OF run_loop_ok] assms]])

theorem gas_is_bounded_witness:
  "case Call 30 sample_env (AccountRef 1) 100 [] 25 5 (sample_world [0x60, 1, 0x60, 2, 0x01, 0x00]) of
     Ok (ret, g, err, w') \<Rightarrow> g \<le> 25 | _ \<Rightarrow> True"
  using gas_is_bounded [OF metered_sample] by blast

text \<open>C2: A call that ends with an error leaves every account, the refund, the logs and the preimages as they were before it, and the
  journal and the snapshots too, and takes all the gas unless the code has reverted itself or nothing was executed.\<close>

theorem failed_call_restores:
  assumes "wf_objects (w_db w)" "revisions_ok (w_db w)" "Call n env clr addr input gas val w = Ok (ret, g, Some e, w')"
  shows "observe (bk env) (w_db w') = observe (bk env) (w_db w) \<and> journal (w_db w') = journal (w_db w) \<and>
    validRevisions (w_db w') = validRevisions (w_db w) \<and>
    (g = 0 \<or> e = errExecutionReverted \<or> e = ErrDepth \<or> e = ErrInsufficientBalance)"
  using Call_restores [OF assms(1,2) assms(3) [unfolded Call_def]] by (auto simp: restored_def)

theorem failed_call_restores_witness:
  "\<exists>ret g w'. Call 50 sample_env (AccountRef 1) 4 [] 5 5 (sample_world [0x00]) = Ok (ret, g, Some ErrOutOfGas, w') \<and>
     observe (bk sample_env) (w_db w') = observe (bk sample_env) (w_db (sample_world [0x00]))"
proof -
  obtain ret g w' where r: "Call 50 sample_env (AccountRef 1) 4 [] 5 5 (sample_world [0x00]) = Ok (ret, g, Some ErrOutOfGas, w')"
    using call_result_error [OF sample_precompile_fails] unfolding Call_def by blast
  then show ?thesis
    using failed_call_restores [OF sample_world_ok [THEN conjunct1] sample_world_ok [THEN conjunct2] r] by blast
qed

end
