(* ===== verification/Supply.thy ===== *)
theory Supply
  imports Termination
begin

text \<open>
  The money of the accounts: no execution creates any. The sum of all balances never grows, and no balance becomes
  negative; what a contract sends when it destroys itself in its own favour is lost. The proof needs that the numbers on the stack are
  not negative, so that the value of a call is not, and the calls of the interpreter enter through the locale \<open>custodians\<close>.
\<close>

section \<open>Balances\<close>

definition bal :: "StateDB \<Rightarrow> address \<Rightarrow> int" where
  "bal s a = fst (GetBalance a s)"

definition total :: "StateDB \<Rightarrow> int" where
  "total s = (\<Sum>a\<in>UNIV. bal s a)"

lemma bal_eq:
  "bal s a =
     (case stateObjects s a of
        Some c \<Rightarrow> if deleted c then 0 else Balance (so_data c)
      | None \<Rightarrow> (case acc_trie s a of None \<Rightarrow> 0 | Some d \<Rightarrow> Balance d))"
  by (auto simp: bal_def GetBalance_def getStateObject_def newObject_def Let_def split: option.split)

lemma bal_writes [simp]:
  "bal (setStateObject c s) = (bal s)(so_address c := if deleted c then 0 else Balance (so_data c))"
  "bal (write_object c s) = (bal s)(so_address c := if deleted c then 0 else Balance (so_data c))"
  "bal (append_journal e s) = bal s" "bal (MarkStateObjectDirty a s) = bal s"
  by (auto simp: bal_eq setStateObject_def write_object_def append_journal_def MarkStateObjectDirty_def fun_eq_iff cong: option.case_cong)

lemma refund_writes [simp]:
  "refund (setStateObject c s) = refund s" "refund (write_object c s) = refund s" "refund (MarkStateObjectDirty a s) = refund s"
  by (simp_all add: setStateObject_def write_object_def MarkStateObjectDirty_def)

text \<open>Operations that leave all balances and the refund as they are.\<close>

definition idle :: "StateDB \<Rightarrow> StateDB \<Rightarrow> bool" where
  "idle s t \<longleftrightarrow> bal t = bal s \<and> refund t = refund s"

lemma idle_lookup: "idle s (snd (getStateObject a s))"
proof -
  have "stateObjects s a = None \<Longrightarrow> acc_trie s a = Some d \<Longrightarrow> bal s a = Balance d" for d by (simp add: bal_eq)
  then show ?thesis by (auto simp: idle_def getStateObject_def Let_def newObject_def fun_upd_idem split: option.split)
qed

lemma lookup_Some:
  "wf_objects s \<Longrightarrow> getStateObject a s = (Some c, t) \<Longrightarrow> so_address c = a \<and> \<not> deleted c \<and> Balance (so_data c) = bal s a"
  by (auto simp: getStateObject_def wf_objects_def bal_eq Let_def split: option.splits if_splits)

lemma lookup_None: "getStateObject a s = (None, t) \<Longrightarrow> bal s a = 0"
  by (auto simp: getStateObject_def bal_eq Let_def split: option.splits if_splits)

lemma createObject_bal:
  assumes "createObject b a s = (c, prev, t)"
  shows "bal t = (bal s)(a := 0)" "refund t = refund s" "so_address c = a" "\<not> deleted c" "Balance (so_data c) = 0"
    "prev = fst (getStateObject a s)"
  using assms idle_lookup [of s a]
  by (auto simp: createObject_def Let_def newObject_def zeroAccount_def idle_def split: prod.splits)

lemma GetOrNew_bal:
  assumes "wf_objects s" "GetOrNewStateObject b a s = (c, t)"
  shows "idle s t" "so_address c = a" "\<not> deleted c" "Balance (so_data c) = bal s a" "wf_objects t"
proof -
  obtain r u where r: "getStateObject a s = (r, u)" by fastforce
  have u: "idle s u" using idle_lookup [of s a] r by simp
  have "idle s t \<and> so_address c = a \<and> \<not> deleted c \<and> Balance (so_data c) = bal s a"
  proof (cases r)
    case None
    then obtain prev where "createObject b a u = (c, prev, t)"
      using assms(2) r by (auto simp: GetOrNewStateObject_def split: prod.splits)
    then show ?thesis
      using createObject_bal [of b a u c prev t] lookup_None [of a s u] r None u by (auto simp: idle_def)
  qed (use assms r u lookup_Some [of s a _ u] in \<open>auto simp: GetOrNewStateObject_def\<close>)
  then show "idle s t" "so_address c = a" "\<not> deleted c" "Balance (so_data c) = bal s a" by simp_all
  show "wf_objects t" using GetOrNew_extends(2) [OF assms] by (rule extends_wf)
qed

lemma bal_changes:
  assumes "wf_objects s"
  shows "bal (AddBalance b a x s) = (bal s)(a := bal s a + x)" "refund (AddBalance b a x s) = refund s"
    "bal (SubBalance b a x s) = (bal s)(a := bal s a - x)" "refund (SubBalance b a x s) = refund s"
    "idle s (SetNonce b a n s)" "idle s (db_SetCode b a code s)" "idle s (SetState b a k v s)"
proof -
  obtain c t where c: "GetOrNewStateObject b a s = (c, t)" by fastforce
  note g = GetOrNew_bal [OF assms c]
  obtain p1 c1 where c1: "obj_GetState b k c = (p1, c1)" by fastforce
  obtain p2 c2 where c2: "obj_Code b c = (p2, c2)" by fastforce
  note f1 = obj_GetState_acct [of b k c, unfolded c1 snd_conv] and f2 = obj_Code_acct [of b c, unfolded c2 snd_conv]
  show "bal (AddBalance b a x s) = (bal s)(a := bal s a + x)" "refund (AddBalance b a x s) = refund s"
    "bal (SubBalance b a x s) = (bal s)(a := bal s a - x)" "refund (SubBalance b a x s) = refund s"
    "idle s (SetNonce b a n s)" "idle s (db_SetCode b a code s)" "idle s (SetState b a k v s)"
    using c c1 c2 f1 f2 g
    by (auto simp: AddBalance_def SubBalance_def SetNonce_def db_SetCode_def SetState_def obj_AddBalance_def obj_SubBalance_def
        obj_SetBalance_def obj_setBalance_def obj_SetNonce_def obj_setNonce_def obj_SetCode_def obj_setCode_def obj_SetState_def
        obj_setState_def touch_def idle_def fun_upd_idem)
qed

lemma bal_CreateAccount: "wf_objects s \<Longrightarrow> idle s (CreateAccount b a s)"
proof -
  assume wf: "wf_objects s"
  obtain c prev t where t: "createObject b a s = (c, prev, t)" by (cases "createObject b a s") auto
  note ct = createObject_bal [OF t]
  obtain r u where r: "getStateObject a s = (r, u)" by fastforce
  show ?thesis
  proof (cases r)
    case None
    then show ?thesis using ct t r lookup_None [of a s u] by (simp add: CreateAccount_def idle_def fun_upd_idem)
  next
    case (Some p)
    then show ?thesis using ct t r lookup_Some [OF wf, of a p u] by (simp add: CreateAccount_def idle_def obj_setBalance_def fun_upd_idem)
  qed
qed

lemma bal_Suicide: "wf_objects s \<Longrightarrow> bal (snd (Suicide a s)) = (bal s)(a := 0) \<and> refund (snd (Suicide a s)) = refund s"
proof -
  assume wf: "wf_objects s"
  obtain r u where r: "getStateObject a s = (r, u)" by fastforce
  have u: "idle s u" using idle_lookup [of s a] r by simp
  show ?thesis
  proof (cases r)
    case None
    then show ?thesis using r u lookup_None [of a s u] by (simp add: Suicide_def idle_def fun_upd_idem)
  next
    case (Some p)
    then show ?thesis
      using r u lookup_Some [OF wf, of a p u] by (simp add: Suicide_def Let_def idle_def markSuicided_def)
  qed
qed

lemma idle_queries:
  assumes "wf_objects s"
  shows "idle s (snd (GetCode b a s))" "idle s (snd (GetState b a k s))"
proof -
  obtain r u where r: "getStateObject a s = (r, u)" by fastforce
  have u: "idle s u" using idle_lookup [of s a] r by simp
  have "idle s (snd (GetCode b a s)) \<and> idle s (snd (GetState b a k s))"
  proof (cases r)
    case None
    then show ?thesis using r u by (simp add: GetCode_def GetState_def)
  next
    case (Some c)
    obtain p1 c1 where c1: "obj_GetState b k c = (p1, c1)" by fastforce
    obtain p2 c2 where c2: "obj_Code b c = (p2, c2)" by fastforce
    show ?thesis
      using r u Some lookup_Some [OF assms, of a c u] c1 c2 obj_GetState_acct [of b k c] obj_Code_acct [of b c]
      by (auto simp: GetCode_def GetState_def idle_def fun_upd_idem)
  qed
  then show "idle s (snd (GetCode b a s))" "idle s (snd (GetState b a k s))" by simp_all
qed

lemma idle_others:
  "idle s (snd (Snapshot s))" "idle s (AddLog l s)" "idle s (AddPreimage h p s)"
  by (auto simp: idle_def fun_eq_iff bal_eq Snapshot_def AddLog_def AddPreimage_def append_journal_def Let_def split: option.split)

lemma bal_AddRefund: "bal (AddRefund g s) = bal s" "refund (AddRefund g s) = refund s + g"
  by (auto simp: fun_eq_iff bal_eq AddRefund_def append_journal_def Let_def cong: option.case_cong)

section \<open>Sound states\<close>

definition sound :: "StateDB \<Rightarrow> bool" where
  "sound s \<longleftrightarrow> wf_objects s \<and> revisions_ok s \<and> 0 \<le> refund s \<and> (\<forall>a. 0 \<le> bal s a)"

text \<open>From a sound state to a sound state without more money.\<close>

definition guards :: "StateDB \<Rightarrow> StateDB \<Rightarrow> bool" where
  "guards s t \<longleftrightarrow> (sound s \<longrightarrow> sound t \<and> total t \<le> total s)"

lemma guards_refl [simp, intro]: "guards s s"
  by (simp add: guards_def)

lemma guards_trans [trans]: "guards s t \<Longrightarrow> guards t u \<Longrightarrow> guards s u"
  by (auto simp: guards_def)

named_theorems guarding \<open>operations that create no money\<close>

lemma total_idle: "idle s t \<Longrightarrow> total t = total s"
  by (simp add: total_def idle_def)

lemma guards_idle:
  assumes "wf_objects s \<Longrightarrow> idle s t" "wf_objects s \<Longrightarrow> extends b s t"
  shows "guards s t"
  using assms total_idle [of s t] extends_ok [of b s t] by (auto simp: guards_def sound_def idle_def)

lemma guards_changes [guarding]:
  "guards s (SetNonce b a n s)" "guards s (db_SetCode b a c s)" "guards s (SetState b a k v s)" "guards s (CreateAccount b a s)"
  "guards s (AddLog l s)" "guards s (AddPreimage h p s)" "guards s (snd (getStateObject a s))" "guards s (snd (GetCode b a s))"
  "guards s (snd (GetState b a k s))"
  by (rule guards_idle [where b = b]; simp add: bal_changes bal_CreateAccount idle_others idle_lookup idle_queries extends_changes extends_CreateAccount
      extends_AddLog extends_AddPreimage extends_queries; fail)+

lemma guards_Snapshot [guarding]: "guards s (snd (Snapshot s))"
proof -
  have "revisions_ok (snd (Snapshot s))" if "revisions_ok s"
    using that by (auto simp: revisions_ok_def Snapshot_def Let_def sorted_wrt_append nth_append)
  then show ?thesis
    using total_idle [OF idle_others(1) [of s]] idle_others(1) [of s]
    by (auto simp: guards_def sound_def idle_def Snapshot_def Let_def)
qed

lemma guards_AddRefund [guarding]: "0 \<le> g \<Longrightarrow> guards s (AddRefund g s)"
  using extends_ok [OF extends_AddRefund, of s] by (auto simp: guards_def sound_def bal_AddRefund total_def)

lemma guards_query [guarding]:
  "Exist a s = (e, t) \<Longrightarrow> guards s t" "Empty b a s = (e, t) \<Longrightarrow> guards s t" "GetBalance a s = (x, t) \<Longrightarrow> guards s t"
  "GetNonce a s = (n, t) \<Longrightarrow> guards s t" "GetCodeSize b a s = (z, t) \<Longrightarrow> guards s t"
  "GetCodeHash a s = (h, t) \<Longrightarrow> guards s t" "CanTransfer a x s = (e, t) \<Longrightarrow> guards s t"
  "GetCode b a s = (c, t) \<Longrightarrow> guards s t" "GetState b a k s = (v, t) \<Longrightarrow> guards s t" "Snapshot s = (i, t) \<Longrightarrow> guards s t"
  using guards_changes(7) [of s a] query_state guards_changes(8) [of s b a] guards_changes(9) [of s b a k] guards_Snapshot [of s]
  by (metis snd_conv)+

lemma total_upd:
  assumes "bal t = (bal s)(a := x)"
  shows "total t = total s - bal s a + x"
proof -
  have "total u = bal u a + sum (bal u) (UNIV - {a})" for u unfolding total_def by (rule sum.remove) simp_all
  moreover have "sum (bal t) (UNIV - {a}) = sum (bal s) (UNIV - {a})" using assms by (intro sum.cong) auto
  ultimately show ?thesis using assms by simp
qed

text \<open>A transfer that the sender can pay for.\<close>

lemma guards_Transfer:
  assumes "0 \<le> v" "v \<le> bal s x"
  shows "guards s (Transfer b x y v s)"
  unfolding guards_def
proof
  assume s: "sound s"
  let ?t = "SubBalance b x v s"
  have wf: "wf_objects s" "revisions_ok s" using s by (simp_all add: sound_def)
  have wt: "wf_objects ?t" "revisions_ok ?t" using extends_ok [OF extends_changes(2) [OF wf(1)] wf(2)] by auto
  have wu: "wf_objects (AddBalance b y v ?t) \<and> revisions_ok (AddBalance b y v ?t)"
    by (rule extends_ok [OF extends_changes(1) [OF wt(1)] wt(2)])
  have bt: "bal ?t = (bal s)(x := bal s x - v)" "refund ?t = refund s" using bal_changes [OF wf(1)] by auto
  have bu: "bal (AddBalance b y v ?t) = (bal ?t)(y := bal ?t y + v)" "refund (AddBalance b y v ?t) = refund s"
    using bal_changes(1,2) [OF wt(1)] bt(2) by auto
  have "total (AddBalance b y v ?t) = total s" using total_upd [OF bt(1)] total_upd [OF bu(1)] by simp
  then show "sound (Transfer b x y v s) \<and> total (Transfer b x y v s) \<le> total s"
    using wu bu bt assms s by (auto simp: Transfer_def sound_def)
qed

text \<open>The end of a contract: its balance goes to \<open>y\<close>, and is lost when that is the contract itself.\<close>

lemma guards_Suicide:
  assumes "GetBalance x s = (v, t)"
  shows "guards s (snd (Suicide x (AddBalance b y v t)))"
  unfolding guards_def
proof
  assume s: "sound s"
  then have t: "sound t" "total t \<le> total s" using guards_query(3) [OF assms] by (auto simp: guards_def)
  have v: "v = bal s x" "idle s t" using assms idle_lookup [of s x] query_state(3) [of x s] by (simp_all add: bal_def)
  let ?u = "AddBalance b y v t"
  have wt: "wf_objects t" "revisions_ok t" using t by (simp_all add: sound_def)
  have wu: "wf_objects ?u" "revisions_ok ?u" using extends_ok [OF extends_changes(1) [OF wt(1)] wt(2)] by auto
  have wv: "wf_objects (snd (Suicide x ?u)) \<and> revisions_ok (snd (Suicide x ?u))"
    by (rule extends_ok [OF extends_Suicide [OF wu(1)] wu(2)])
  have bu: "bal ?u = (bal t)(y := bal t y + v)" "refund ?u = refund t" using bal_changes(1,2) [OF wt(1)] by auto
  have bv: "bal (snd (Suicide x ?u)) = (bal ?u)(x := 0)" "refund (snd (Suicide x ?u)) = refund t"
    using bal_Suicide [OF wu(1)] bu(2) by auto
  have "0 \<le> v" "bal t x = v" using s v by (auto simp: sound_def idle_def)
  then have "total (snd (Suicide x ?u)) \<le> total t" using total_upd [OF bu(1)] total_upd [OF bv(1)] bu(1) by auto
  moreover have "sound (snd (Suicide x ?u))" using wv bv bu t(1) \<open>0 \<le> v\<close> by (auto simp: sound_def)
  ultimately show "sound (snd (Suicide x ?u)) \<and> total (snd (Suicide x ?u)) \<le> total s" using t(2) by simp
qed

text \<open>Going back to a snapshot.\<close>

lemma restored_guards: "restored env s t \<Longrightarrow> sound s \<Longrightarrow> sound t \<and> total t = total s"
proof -
  assume r: "restored env s t" and s: "sound s"
  have o: "bal u a = (case ob_account (observe (bk env) u) a of None \<Rightarrow> 0 | Some c \<Rightarrow> a_balance c)"
    "refund u = ob_refund (observe (bk env) u)" for u a
    by (auto simp: bal_def GetBalance_def observe_def acct_of_def split: prod.split option.split)
  have "bal t = bal s" "refund t = refund s" using r o by (auto simp: restored_def fun_eq_iff)
  then show ?thesis using r s by (simp add: sound_def restored_def total_def)
qed

section \<open>Instructions\<close>

text \<open>The numbers on the stack and the value that came with the call are not negative.\<close>

definition typed :: "frame \<Rightarrow> bool" where
  "typed f \<longleftrightarrow> (\<forall>x \<in> set (f_stack f). 0 \<le> x) \<and> 0 \<le> value' (f_contract f)"

definition fair :: "evm_env \<Rightarrow> bool" where
  "fair env \<longleftrightarrow> 0 \<le> GasPrice (ctx env)"

definition stays :: "world \<Rightarrow> exec_result \<Rightarrow> bool" where
  "stays w r \<longleftrightarrow>
     (case r of Ok (w', f', ret, err) \<Rightarrow> sound (w_db w') \<and> total (w_db w') \<le> total (w_db w) \<and> typed f' | _ \<Rightarrow> True)"

lemma stays_simps [simp]:
  "stays w Panic" "stays w (Err e)"
  "stays w (Ok (w', f', ret, err)) \<longleftrightarrow> sound (w_db w') \<and> total (w_db w') \<le> total (w_db w) \<and> typed f'"
  "stays w (done_op w' f') \<longleftrightarrow> sound (w_db w') \<and> total (w_db w') \<le> total (w_db w) \<and> typed f'"
  by (simp_all add: stays_def done_op_def)

lemma pool_db [simp]: "w_db (pool_get w) = w_db w" "w_db (pool_put is w) = w_db w"
  by (simp_all add: pool_get_def pool_put_def)

lemma typed_simps [simp]:
  "typed (push x f) \<longleftrightarrow> 0 \<le> x \<and> typed f" "typed (f\<lparr>f_pc := p\<rparr>) = typed f" "typed (f\<lparr>f_mem := m\<rparr>) = typed f"
  "typed (f\<lparr>f_contract := (f_contract f)\<lparr>Gas := g\<rparr>\<rparr>) = typed f" "typed (add_gas g' f) = typed f"
  by (auto simp: typed_def push_def stack_push_def add_gas_def)

lemma stays_pop1: "typed f \<Longrightarrow> (\<And>x f'. 0 \<le> x \<Longrightarrow> typed f' \<Longrightarrow> f_contract f' = f_contract f \<Longrightarrow> stays w (k x f')) \<Longrightarrow> stays w (pop1 f k)"
  by (cases "f_stack f") (auto simp: pop1_def typed_def)

lemma stays_pop2:
  "typed f \<Longrightarrow> (\<And>x y f'. 0 \<le> x \<Longrightarrow> 0 \<le> y \<Longrightarrow> typed f' \<Longrightarrow> f_contract f' = f_contract f \<Longrightarrow> stays w (k x y f')) \<Longrightarrow> stays w (pop2 f k)"
  by (auto simp: pop2_def intro!: stays_pop1)

lemma stays_pop3:
  "typed f \<Longrightarrow> (\<And>x y z f'. 0 \<le> x \<Longrightarrow> 0 \<le> y \<Longrightarrow> 0 \<le> z \<Longrightarrow> typed f' \<Longrightarrow> f_contract f' = f_contract f \<Longrightarrow> stays w (k x y z f')) \<Longrightarrow>
     stays w (pop3 f k)"
  by (auto simp: pop3_def intro!: stays_pop1 stays_pop2)

lemma stays_bind: "(\<And>x. m = Ok x \<Longrightarrow> stays w (k x)) \<Longrightarrow> stays w (bind_outcome m k)"
  by (cases m) auto

lemmas stays_rules = stays_pop1 stays_pop2 stays_pop3 stays_bind

lemma mem_store_typed: "mem_store o' l v f = Ok f' \<Longrightarrow> typed f' = typed f"
  by (auto simp: mem_store_def bind_outcome_Ok_iff)

lemma U256_nonneg [simp]: "0 \<le> U256 x"
  by (simp add: U256_mod)

lemma exp_word_nonneg: "0 \<le> r \<Longrightarrow> 0 \<le> fst (exp_word i w r b)"
  by (induction i w r b rule: exp_word.induct) (auto simp: Let_def)

lemma exp_words_nonneg: "0 \<le> r \<Longrightarrow> 0 \<le> fst (exp_words ws r b)"
proof (induction ws r b rule: exp_words.induct)
  case (2 w ws r b)
  then show ?case using exp_word_nonneg [of r 64 w b] by (cases "exp_word 64 w r b") (simp add: Let_def)
qed simp

lemma math_Exp_nonneg: "math_Exp b e = (r, b') \<Longrightarrow> 0 \<le> r"
  using exp_words_nonneg [of 1 "big_Bits e" b] by (simp add: math_Exp_def)

lemma stays_arithmetic:
  assumes "sound (w_db w)" "typed f"
  shows "stays w (opStop env cs w f)" "stays w (opAdd env cs w f)" "stays w (opMul env cs w f)" "stays w (opSub env cs w f)"
    "stays w (opDiv env cs w f)" "stays w (opSdiv env cs w f)" "stays w (opMod env cs w f)" "stays w (opSmod env cs w f)"
    "stays w (opAddmod env cs w f)" "stays w (opMulmod env cs w f)" "stays w (opExp env cs w f)" "stays w (opSignExtend env cs w f)"
  using assms
  by (auto simp: opStop_def opAdd_def opMul_def opSub_def opDiv_def opSdiv_def opMod_def opSmod_def opAddmod_def opMulmod_def opExp_def
      opSignExtend_def Let_def dest: math_Exp_nonneg intro!: stays_rules split: prod.split)

lemma stays_comparisons:
  assumes "sound (w_db w)" "typed f"
  shows "stays w (opLt env cs w f)" "stays w (opGt env cs w f)" "stays w (opSlt env cs w f)" "stays w (opSgt env cs w f)"
    "stays w (opEq env cs w f)" "stays w (opIszero env cs w f)" "stays w (opAnd env cs w f)" "stays w (opOr env cs w f)"
    "stays w (opXor env cs w f)" "stays w (opNot env cs w f)" "stays w (opByte env cs w f)"
  using assms
  by (auto simp: opLt_def opGt_def opSlt_def opSgt_def opEq_def opIszero_def opAnd_def opOr_def opXor_def opNot_def opByte_def
      push_bool_def Let_def intro!: stays_rules split: prod.split if_splits)

lemma guards_use: "guards s t \<Longrightarrow> sound s \<Longrightarrow> sound t \<and> total t \<le> total s"
  by (simp add: guards_def)

lemma stays_context:
  assumes "sound (w_db w)" "typed f" "fair env"
  shows "stays w (opSha3 env cs w f)" "stays w (opAddress env cs w f)" "stays w (opBalance env cs w f)" "stays w (opOrigin env cs w f)"
    "stays w (opCaller env cs w f)" "stays w (opCallValue env cs w f)" "stays w (opCallDataLoad env cs w f)"
    "stays w (opCallDataSize env cs w f)" "stays w (opCallDataCopy env cs w f)" "stays w (opCodeSize env cs w f)"
    "stays w (opCodeCopy env cs w f)" "stays w (opGasprice env cs w f)" "stays w (opExtCodeSize env cs w f)" "stays w (opExtCodeCopy env cs w f)"
proof -
  have b: "0 \<le> x" if "GetBalance a (w_db w) = (x, t)" for a x t
  proof -
    have "x = bal (w_db w) a" using that by (simp add: bal_def)
    then show ?thesis using assms(1) by (simp add: sound_def)
  qed
  have c: "sound t \<and> total t \<le> total (w_db w)" if "GetCode (bk env) a (w_db w) = (x, t)" for a x t
    using guards_query(8) [OF that] assms(1) by (rule guards_use)
  have v: "0 \<le> value' (f_contract f)" "0 \<le> GasPrice (ctx env)" using assms by (simp_all add: typed_def fair_def)
  show "stays w (opSha3 env cs w f)" "stays w (opAddress env cs w f)" "stays w (opBalance env cs w f)" "stays w (opOrigin env cs w f)"
    "stays w (opCaller env cs w f)" "stays w (opCallValue env cs w f)" "stays w (opCallDataLoad env cs w f)"
    "stays w (opCallDataSize env cs w f)" "stays w (opCallDataCopy env cs w f)" "stays w (opCodeSize env cs w f)"
    "stays w (opCodeCopy env cs w f)" "stays w (opGasprice env cs w f)" "stays w (opExtCodeSize env cs w f)" "stays w (opExtCodeCopy env cs w f)"
    using assms v
    by (auto simp: opSha3_def opAddress_def opBalance_def opOrigin_def opCaller_def opCallValue_def opCallDataLoad_def opCallDataSize_def
      opCallDataCopy_def opCodeSize_def opCodeCopy_def opGasprice_def opExtCodeSize_def opExtCodeCopy_def Let_def guards_changes [THEN guards_use]
      dest!: mem_store_typed c dest: b guards_query [THEN guards_use] intro!: stays_rules split: prod.split)
qed

lemma stays_block:
  assumes "sound (w_db w)" "typed f"
  shows "stays w (opBlockhash env cs w f)" "stays w (opCoinbase env cs w f)" "stays w (opTimestamp env cs w f)"
    "stays w (opNumber env cs w f)" "stays w (opDifficulty env cs w f)" "stays w (opGasLimit env cs w f)"
    "stays w (opReturnDataSize env cs w f)" "stays w (opReturnDataCopy env cs w f)"
  using assms
  by (auto simp: opBlockhash_def opCoinbase_def opTimestamp_def opNumber_def opDifficulty_def opGasLimit_def opReturnDataSize_def
      opReturnDataCopy_def Let_def dest!: mem_store_typed intro!: stays_rules)

lemma stays_storage:
  assumes "sound (w_db w)" "typed f"
  shows "stays w (opPop env cs w f)" "stays w (opMload env cs w f)" "stays w (opMstore env cs w f)" "stays w (opMstore8 env cs w f)"
    "stays w (opSload env cs w f)" "stays w (opSstore env cs w f)" "stays w (opJump env cs w f)" "stays w (opJumpi env cs w f)"
    "stays w (opJumpdest env cs w f)" "stays w (opPc env cs w f)" "stays w (opMsize env cs w f)" "stays w (opGas env cs w f)"
  using assms
  by (auto simp: opPop_def opMload_def opMstore_def opMstore8_def opSload_def opSstore_def opJump_def opJumpi_def opJumpdest_def opPc_def
      opMsize_def opGas_def Let_def guards_changes [THEN guards_use] dest!: mem_store_typed dest: guards_query [THEN guards_use]
      intro!: stays_rules split: prod.split)

lemma pop_topics_typed: "pop_topics n f = Ok (ts, f') \<Longrightarrow> typed f \<Longrightarrow> typed f'"
proof (induction n arbitrary: f ts)
  case (Suc n)
  show ?case
  proof (cases "f_stack f")
    case (Cons x st)
    then have "typed (f\<lparr>f_stack := st\<rparr>)" using Suc.prems(2) by (simp add: typed_def)
    then show ?thesis using Suc Cons by (auto simp: pop1_def bind_outcome_Ok_iff)
  qed (use Suc.prems in \<open>simp add: pop1_def\<close>)
qed simp

lemma stack_typed:
  "stack_dup p n st = Ok (p', st') \<Longrightarrow> \<forall>x \<in> set st. 0 \<le> x \<Longrightarrow> \<forall>x \<in> set st'. 0 \<le> x"
  "stack_swap n st = Ok st' \<Longrightarrow> \<forall>x \<in> set st. 0 \<le> x \<Longrightarrow> \<forall>x \<in> set st'. 0 \<le> x"
proof -
  show "stack_dup p n st = Ok (p', st') \<Longrightarrow> \<forall>x \<in> set st. 0 \<le> x \<Longrightarrow> \<forall>x \<in> set st'. 0 \<le> x"
    by (auto simp: stack_dup_def stack_push_def split: if_splits)
  assume "stack_swap n st = Ok st'" and nn: "\<forall>x \<in> set st. 0 \<le> x"
  then have st': "st' = st[n - 1 := st ! 0, 0 := st ! (n - 1)]" "0 < length st" "n - 1 < length st"
    by (auto simp: stack_swap_def split: if_splits)
  have "set st' \<subseteq> insert (st ! (n - 1)) (insert (st ! 0) (set st))"
    unfolding st'(1) using set_update_subset_insert [of st "n - 1" "st ! 0"] set_update_subset_insert [of "st[n - 1 := st ! 0]" 0 "st ! (n - 1)"]
    by blast
  then show "\<forall>x \<in> set st'. 0 \<le> x" using nn nth_mem [OF st'(2)] nth_mem [OF st'(3)] by blast
qed

lemma stays_families:
  assumes "sound (w_db w)" "typed f"
  shows "stays w (makePush s n env cs w f)" "stays w (makeDup n env cs w f)" "stays w (makeSwap n env cs w f)" "stays w (makeLog n env cs w f)"
proof -
  have st: "\<forall>x \<in> set (f_stack f). 0 \<le> x" "0 \<le> value' (f_contract f)" using assms(2) by (auto simp: typed_def)
  show "stays w (makeDup n env cs w f)" "stays w (makeSwap n env cs w f)"
    using assms(1) st stack_typed
    by (auto simp: makeDup_def makeSwap_def typed_def intro!: stays_bind; blast)+
  show "stays w (makePush s n env cs w f)" "stays w (makeLog n env cs w f)"
    using assms by (auto simp: makePush_def makeLog_def Let_def guards_changes [THEN guards_use] dest: pop_topics_typed intro!: stays_rules)
qed

lemma stays_ends:
  assumes "sound (w_db w)" "typed f"
  shows "stays w (opReturn env cs w f)" "stays w (opRevert env cs w f)" "stays w (opSuicide env cs w f)"
proof -
  show "stays w (opSuicide env cs w f)"
    using assms by (auto simp: opSuicide_def Let_def guards_Suicide [THEN guards_use] intro!: stays_rules split: prod.split)
qed (use assms in \<open>auto simp: opReturn_def opRevert_def intro!: stays_rules\<close>)

lemmas stays_ops = stays_arithmetic stays_comparisons stays_context stays_block stays_storage stays_families stays_ends

section \<open>Prices\<close>

definition fares :: "evm_env \<Rightarrow> gasFunc \<Rightarrow> bool" where
  "fares env g \<longleftrightarrow>
     (\<forall>m w f cost w' f'. g (gasTable env) env m w f = Ok (cost, w', f') \<longrightarrow> guards (w_db w) (w_db w') \<and> (typed f \<longrightarrow> typed f'))"

lemma mem_gas_typed: "mem_gas f m = Ok (g, f') \<Longrightarrow> typed f' = typed f"
  using mem_gas_contract [of f m g f'] by (simp add: typed_def)

lemma fares_plain:
  "fares env (constGasFunc c)" "fares env gasBalance" "fares env gasExtCodeSize" "fares env gasSLoad" "fares env gasExp"
  "fares env gasPush" "fares env gasSwap" "fares env gasDup"
  by (auto simp: fares_def constGasFunc_def gasBalance_def gasExtCodeSize_def gasSLoad_def gasExp_def gasPush_def gasSwap_def gasDup_def
      bind_outcome_Ok_iff Let_def)

lemma fares_memory:
  "fares env gasCallDataCopy" "fares env gasReturnDataCopy" "fares env gasCodeCopy" "fares env gasExtCodeCopy"
  "fares env gasSha3" "fares env gasMLoad" "fares env gasMStore" "fares env gasMStore8" "fares env gasCreate"
  "fares env gasReturn" "fares env gasRevert" "fares env (makeGasLog n)"
  by (auto simp: fares_def gasCallDataCopy_def gasReturnDataCopy_def gasCodeCopy_def gasExtCodeCopy_def copy_gas_def gasSha3_def
      gasMLoad_def gasMStore_def gasMStore8_def gasCreate_def mem_plus_def gasReturn_def gasRevert_def makeGasLog_def bind_outcome_Ok_iff
      dest!: mem_gas_typed)

lemmas guards_chain = guards_changes [THEN guards_trans [rotated]] guards_AddRefund [THEN guards_trans [rotated]]

lemma fares_SStore: "fares env gasSStore"
  by (auto simp: fares_def gasSStore_def bind_outcome_Ok_iff Let_def case_prod_unfold guarding split: if_splits intro!: guards_chain)

lemma fares_Suicide: "fares env gasSuicide"
  unfolding fares_def
proof (intro allI impI)
  fix m w f cost w' f'
  assume "gasSuicide (gasTable env) env m w f = Ok (cost, w', f')"
  then show "guards (w_db w) (w_db w') \<and> (typed f \<longrightarrow> typed f')"
    by (cases "f_stack f"; auto simp: gasSuicide_def Back_def Let_def case_prod_unfold query_state split: if_splits; intro guards_chain guards_refl; simp)
qed

lemma pay_call_typed: "pay_call gt gas w f = Ok (cost, w', f') \<Longrightarrow> w' = w \<and> (typed f \<longrightarrow> typed f')"
  using pay_call_Ok [of gt gas w f cost w' f'] by (cases "f_stack f") (auto simp: typed_def)

lemma fares_calls: "fares env gasCall" "fares env gasCallCode" "fares env gasDelegateCall" "fares env gasStaticCall"
proof -
  show "fares env gasCall"
    unfolding fares_def
  proof (intro allI impI)
    fix m w f cost w' f'
    assume "gasCall (gasTable env) env m w f = Ok (cost, w', f')"
    then obtain s where "guards (w_db w) s" "w' = w\<lparr>w_db := s\<rparr>" "typed f \<longrightarrow> typed f'"
      by (auto simp: gasCall_def bind_outcome_Ok_iff Let_def split: if_splits prod.splits dest!: pay_call_typed mem_gas_typed intro: guards_query)
    then show "guards (w_db w) (w_db w') \<and> (typed f \<longrightarrow> typed f')" by simp
  qed
qed (auto simp: fares_def gasCallCode_def gasDelegateCall_def gasStaticCall_def bind_outcome_Ok_iff Let_def dest!: pay_call_typed mem_gas_typed)

lemmas fares_ops = fares_plain fares_memory fares_SStore fares_Suicide fares_calls

section \<open>Calls of other contracts\<close>

definition call_safe :: "world \<Rightarrow> call_result \<Rightarrow> bool" where
  "call_safe w r \<longleftrightarrow> (case r of Ok (ret, g, err, w') \<Rightarrow> guards (w_db w) (w_db w') | _ \<Rightarrow> True)"

definition create_safe :: "world \<Rightarrow> (byte list \<times> address \<times> uint64 \<times> vm_error option \<times> world) vm \<Rightarrow> bool" where
  "create_safe w r \<longleftrightarrow> (case r of Ok (ret, addr, g, err, w') \<Rightarrow> guards (w_db w) (w_db w') | _ \<Rightarrow> True)"

definition ref_typed :: "contract_ref \<Rightarrow> bool" where
  "ref_typed clr \<longleftrightarrow> (case clr of AccountRef a \<Rightarrow> True | ContractRef a c v \<Rightarrow> 0 \<le> v)"

lemma after_call_stays:
  assumes "call_safe w r" "sound (w_db w)" "typed f"
  shows "stays w (bind_outcome r (after_call puts o' l f))"
proof (cases r)
  case (Ok t)
  obtain ret g err w' where t: "t = (ret, g, err, w')" by (cases t) auto
  have "sound (w_db w')" "total (w_db w') \<le> total (w_db w)" using assms(1,2) by (auto simp: call_safe_def Ok t guards_def)
  then show ?thesis
    using assms(3) by (auto simp: Ok t after_call_def Let_def intro!: stays_bind split: if_splits dest!: mem_store_typed)
qed auto

locale custodians =
  fixes env :: evm_env and cs :: calls
  assumes Call_safe: "fair env \<Longrightarrow> ref_typed clr \<Longrightarrow> 0 \<le> val \<Longrightarrow> call_safe w (c_Call cs clr addr inp gas val w)"
    and CallCode_safe: "fair env \<Longrightarrow> ref_typed clr \<Longrightarrow> 0 \<le> val \<Longrightarrow> call_safe w (c_CallCode cs clr addr inp gas val w)"
    and DelegateCall_safe: "fair env \<Longrightarrow> ref_typed clr \<Longrightarrow> call_safe w (c_DelegateCall cs clr addr inp gas w)"
    and StaticCall_safe: "fair env \<Longrightarrow> ref_typed clr \<Longrightarrow> call_safe w (c_StaticCall cs clr addr inp gas w)"
    and Create_safe: "fair env \<Longrightarrow> ref_typed clr \<Longrightarrow> 0 \<le> val \<Longrightarrow> create_safe w (c_Create cs clr inp gas val w)"
begin

lemma as_ref_typed: "typed f \<Longrightarrow> ref_typed (as_ref (f_contract f))"
  by (simp add: typed_def ref_typed_def as_ref_def)

lemmas call_rules = stays_pop3 stays_pop2 stays_pop1 stays_bind [of "memory_Get a b m" for a b m] after_call_stays as_ref_typed
  Call_safe CallCode_safe DelegateCall_safe StaticCall_safe

lemma stays_calls:
  assumes "fair env" "sound (w_db w)" "typed f"
  shows "stays w (opCall env cs w f)" "stays w (opCallCode env cs w f)" "stays w (opDelegateCall env cs w f)" "stays w (opStaticCall env cs w f)"
  unfolding opCall_def opCallCode_def opDelegateCall_def opStaticCall_def Let_def
  by (intro call_rules; (rule assms U256_nonneg | assumption))+

lemma stays_create:
  assumes "fair env" "sound (w_db w)" "typed f"
  shows "stays w (opCreate env cs w f)"
proof -
  have main: "stays w (bind_outcome (c_Create cs clr input g v w) (\<lambda>(res, addr, returnGas, suberr, w).
      let f = (if P suberr then push 0 f else if Q suberr then push 0 f else push (uint addr) f);
          f = add_gas returnGas f;
          w = pool_put ps w
      in if suberr = Some errExecutionReverted then Ok (w, f, res, None) else done_op w f))"
    if "0 \<le> v" "typed f" "ref_typed clr" for input g v f P Q ps clr
    using Create_safe [OF assms(1) that(3) that(1), of w input g] that assms(2)
    by (cases "c_Create cs clr input g v w") (auto simp: create_safe_def guards_def Let_def)
  have use: "value' (snd (UseGas c g)) = value' c" for c g
    by (simp add: UseGas_def)
  show ?thesis
    unfolding opCreate_def using assms(3)
    by (intro stays_rules) (auto simp: Let_def use typed_def ref_typed_def as_ref_def intro!: main [unfolded Let_def])
qed

end

section \<open>The loop\<close>

definition honest_op :: "evm_env \<Rightarrow> operation \<Rightarrow> bool" where
  "honest_op env oper \<longleftrightarrow> fares env (gasCost oper) \<and>
     (\<forall>cs w f. custodians env cs \<longrightarrow> fair env \<longrightarrow> sound (w_db w) \<longrightarrow> typed f \<longrightarrow> stays w (execute oper env cs w f))"

lemma honest_plain:
  assumes "\<And>cs w f. sound (w_db w) \<Longrightarrow> typed f \<Longrightarrow> fair env \<Longrightarrow> stays w (execute oper env cs w f)" "fares env (gasCost oper)"
  shows "honest_op env oper"
  using assms by (simp add: honest_op_def)

lemma honest_tables:
  "\<forall>(c, oper) \<in> set arithmetic_ops. honest_op env oper" "\<forall>(c, oper) \<in> set context_ops. honest_op env oper"
  "\<forall>(c, oper) \<in> set block_ops. honest_op env oper" "\<forall>(c, oper) \<in> set storage_ops. honest_op env oper"
  by (auto simp only: arithmetic_ops_def context_ops_def block_ops_def storage_ops_def set_simps prod.case ball_simps simp_thms
      intro!: honest_plain) (simp_all only: op_record operation.simps stays_ops fares_ops)

lemma honest_families:
  "\<forall>(c, oper) \<in> set push_ops. honest_op env oper" "\<forall>(c, oper) \<in> set dup_ops. honest_op env oper"
  "\<forall>(c, oper) \<in> set swap_ops. honest_op env oper" "\<forall>(c, oper) \<in> set log_ops. honest_op env oper"
  by (auto simp only: push_ops_def dup_ops_def swap_ops_def log_ops_def set_map prod.case intro!: honest_plain)
    (simp_all only: op_record operation.simps stays_ops fares_ops)

lemma honest_rest:
  "honest_op env ((op_mem opReturn gasReturn v m)\<lparr>halts := True\<rparr>)"
  "honest_op env ((op_plain opSuicide gasSuicide v)\<lparr>halts := True, writes := True\<rparr>)"
  "honest_op env ((op_mem opRevert gasRevert v m)\<lparr>reverts := True, returns := True\<rparr>)"
  "honest_op env (op_plain opReturnDataSize (constGasFunc GasQuickStep) v)" "honest_op env (op_mem opReturnDataCopy gasReturnDataCopy v m)"
  by (rule honest_plain; simp only: op_record operation.simps stays_ops fares_ops)+

lemma honest_calls:
  "honest_op env ((op_mem opCreate gasCreate v m)\<lparr>writes := True, returns := True\<rparr>)"
  "honest_op env ((op_mem opCall gasCall v m)\<lparr>returns := True\<rparr>)" "honest_op env ((op_mem opCallCode gasCallCode v m)\<lparr>returns := True\<rparr>)"
  "honest_op env ((op_mem opDelegateCall gasDelegateCall v m)\<lparr>returns := True\<rparr>)"
  "honest_op env ((op_mem opStaticCall gasStaticCall v m)\<lparr>returns := True\<rparr>)"
  by (simp_all add: honest_op_def op_record fares_ops custodians.stays_calls custodians.stays_create)

lemma honest_table: "\<forall>(c, oper) \<in> set NewMetropolisInstructionSet. honest_op env oper"
  using honest_tables [of env] honest_families [of env]
  by (simp add: NewMetropolisInstructionSet_def NewHomesteadInstructionSet_def NewFrontierInstructionSet_def call_ops_def ball_Un honest_rest
      honest_calls)

lemma JumpTable_honest: "JumpTable env c = Some oper \<Longrightarrow> honest_op env oper"
  using honest_table [of env]
  by (auto simp: JumpTable_def NewMetropolisInstructionSet_def NewHomesteadInstructionSet_def split: if_splits dest!: map_of_SomeD)

definition body_safe :: "world \<Rightarrow> loop_result vm \<Rightarrow> bool" where
  "body_safe w r \<longleftrightarrow>
     (case r of
        Ok (Continue w' f') \<Rightarrow> sound (w_db w') \<and> total (w_db w') \<le> total (w_db w) \<and> typed f'
      | Ok (Return ret err w' f') \<Rightarrow> sound (w_db w') \<and> total (w_db w') \<le> total (w_db w)
      | _ \<Rightarrow> True)"

lemma body_safe_check:
  "(\<And>e. r = Err e \<Longrightarrow> body_safe w (Ok (h e))) \<Longrightarrow> (\<And>x. r = Ok x \<Longrightarrow> body_safe w (k x)) \<Longrightarrow> body_safe w (check r h k)"
  by (cases r) (auto simp: body_safe_def)

lemma body_safe_stop: "sound (w_db w) \<Longrightarrow> body_safe w (Ok (Return ret err w f))"
  by (simp add: body_safe_def)

lemma consume_gas_safe:
  assumes "fares env (gasCost oper)" "sound (w_db w)" "typed f"
  shows "consume_gas env oper m w f = Ok (w1, f1) \<Longrightarrow> sound (w_db w1) \<and> total (w_db w1) \<le> total (w_db w) \<and> typed f1"
    "consume_gas env oper m w f = Err (e, w1, f1) \<Longrightarrow> sound (w_db w1) \<and> total (w_db w1) \<le> total (w_db w)"
proof -
  have g: "sound (w_db w2) \<and> total (w_db w2) \<le> total (w_db w) \<and> typed f2"
    if "gasCost oper (gasTable env) env m w f = Ok (cost, w2, f2)" for cost w2 f2
    using assms that by (auto simp: fares_def guards_def)
  have u: "typed (f\<lparr>f_contract := snd (UseGas (f_contract f) g)\<rparr>) = typed f" for f g
    by (simp add: UseGas_def typed_def)
  show "consume_gas env oper m w f = Ok (w1, f1) \<Longrightarrow> sound (w_db w1) \<and> total (w_db w1) \<le> total (w_db w) \<and> typed f1"
    "consume_gas env oper m w f = Err (e, w1, f1) \<Longrightarrow> sound (w_db w1) \<and> total (w_db w1) \<le> total (w_db w)"
    using assms g u by (auto simp: consume_gas_def case_prod_unfold split: if_splits outcome.splits)
qed

lemma finish_safe: "stays w1 r \<Longrightarrow> total (w_db w1) \<le> total (w_db w) \<Longrightarrow> body_safe w (bind_outcome r (finish_op oper))"
  by (cases r) (auto simp: finish_op_def body_safe_def stays_def Let_def split: if_splits prod.splits)

context custodians
begin

lemma loop_body_safe:
  assumes "fair env" "sound (w_db w)" "typed f"
  shows "body_safe w (loop_body env cs w f)"
proof (cases "JumpTable env (GetOp (f_contract f) (f_pc f))")
  case None
  then show ?thesis using assms(2) by (auto simp: loop_body_def Let_def intro!: body_safe_check body_safe_stop)
next
  case (Some oper)
  have h: "fares env (gasCost oper)" "\<And>w f. sound (w_db w) \<Longrightarrow> typed f \<Longrightarrow> stays w (execute oper env cs w f)"
    using JumpTable_honest [OF Some] assms(1) custodians_axioms by (auto simp: honest_op_def)
  note stop = body_safe_stop [OF assms(2)]
  have main: "body_safe w (check (consume_gas env oper m w f) (\<lambda>(e, w, f). Return [] (Some e) w f) (\<lambda>(w, f).
      bind_outcome (execute oper env cs w (if 0 < m then f\<lparr>f_mem := Resize m (f_mem f)\<rparr> else f)) (finish_op oper)))" for m
  proof (rule body_safe_check)
    fix e assume "consume_gas env oper m w f = Err e"
    then show "body_safe w (Ok (case e of (e, w, f) \<Rightarrow> Return [] (Some e) w f))"
      using consume_gas_safe(2) [OF h(1) assms(2,3)] by (cases e) (auto simp: body_safe_def)
  next
    fix t assume t: "consume_gas env oper m w f = Ok t"
    obtain w1 f1 where t': "t = (w1, f1)" by (cases t) auto
    have c: "sound (w_db w1)" "total (w_db w1) \<le> total (w_db w)" "typed f1"
      using consume_gas_safe(1) [OF h(1) assms(2,3), of m w1 f1] t t' by auto
    then have "stays w1 (execute oper env cs w1 (if 0 < m then f1\<lparr>f_mem := Resize m (f_mem f1)\<rparr> else f1))" by (intro h(2)) simp_all
    then show "body_safe w (case t of (w, f) \<Rightarrow>
        bind_outcome (execute oper env cs w (if 0 < m then f\<lparr>f_mem := Resize m (f_mem f)\<rparr> else f)) (finish_op oper))"
      using finish_safe c(2) by (simp only: t' prod.case)
  qed
  show ?thesis
  proof (cases "w_abort w")
    case False
    show ?thesis
      unfolding loop_body_def Let_def Some option.case if_not_P [OF False]
      by (rule body_safe_check, rule stop)+ (rule main)
  qed (simp add: loop_body_def stop)
qed

end

section \<open>The calls of the interpreter\<close>

definition run_safe :: "world \<Rightarrow> run_result \<Rightarrow> bool" where
  "run_safe w r \<longleftrightarrow> (case r of Ok (ret, err, c, w') \<Rightarrow> sound (w_db w') \<and> total (w_db w') \<le> total (w_db w) | _ \<Rightarrow> True)"

definition loop_safe :: "loop \<Rightarrow> bool" where
  "loop_safe lp \<longleftrightarrow> (\<forall>w f. sound (w_db w) \<longrightarrow> typed f \<longrightarrow> run_safe w (lp w f))"

lemma run_safe_dests [simp]: "run_safe (w\<lparr>w_dests := d\<rparr>) r = run_safe w r"
  by (cases r) (auto simp: run_safe_def)

lemma evm_run_safe:
  assumes lp: "loop_safe lp" and s: "sound (w_db w)" "0 \<le> value' c"
  shows "run_safe w (with_dests clr (evm_run env lp c input) w)"
proof -
  have int: "run_safe w (interpreter_Run lp c input w)" if "sound (w_db w)" for w
  proof (cases "Code c = []")
    case False
    let ?w = "w\<lparr>w_depth := w_depth w + 1, w_returnData := []\<rparr>"
      and ?f = "\<lparr>f_pc = 0, f_contract = c\<lparr>Input := input\<rparr>, f_mem = NewMemory, f_stack = newstack\<rparr>"
    have "run_safe ?w (lp ?w ?f)" using that s(2) lp by (simp add: loop_safe_def typed_def newstack_def)
    then show ?thesis using False by (cases "lp ?w ?f") (auto simp: interpreter_Run_def Let_def run_safe_def)
  qed (use that in \<open>simp add: interpreter_Run_def Let_def run_safe_def\<close>)
  have "run_safe w (case r of (Ok ret, c) \<Rightarrow> Ok (ret, None, c, w) | (Err e, c) \<Rightarrow> Ok ([], Some e, c, w) | (Panic, c) \<Rightarrow> Panic)"
    if "sound (w_db w)" for w and r :: "(vm_error, byte list) outcome \<times> Contract"
    using that by (cases r; cases "fst r") (auto simp: run_safe_def)
  then have "run_safe w (evm_run env lp c input w)" if "sound (w_db w)" for w
    using int that by (auto simp: evm_run_def split: option.split)
  then have "run_safe (w\<lparr>w_dests := d\<rparr>) (evm_run env lp c input (w\<lparr>w_dests := d\<rparr>))" "run_safe w (evm_run env lp c input w)" for d
    using s(1) by (simp_all del: run_safe_dests)
  then show ?thesis by (auto simp: with_dests_def split: contract_ref.split)
qed

text \<open>After a call either what the callee has done stands, or everything is as it was.\<close>

lemma settle_safe:
  assumes s0: "sound s0" "Snapshot s0 = (snap, s1)" "keeps (bk env) s1 s2" "total s0 \<le> T"
    and r: "run_ok env n gas (w\<lparr>w_db := s2, w_readOnly := ro\<rparr>) r"
    and safe: "\<And>ret err c w3. r = Ok (ret, err, c, w3) \<Longrightarrow> sound (w_db w3) \<and> total (w_db w3) \<le> T"
    and res: "bind_outcome r (settle snap) = Ok (ret, g, err, w')"
  shows "sound (w_db w') \<and> total (w_db w') \<le> T"
proof (cases err)
  case None
  obtain ret1 err1 c w3 where t: "r = Ok (ret1, err1, c, w3)" "settle snap (ret1, err1, c, w3) = Ok (ret, g, None, w')"
    using res None by (auto simp: bind_outcome_Ok_iff)
  then have "w' = w3" by (cases "RevertToSnapshot snap (w_db w3)") (auto simp: settle_def Let_def split: if_splits)
  then show ?thesis using safe t(1) by simp
next
  case (Some e)
  have "restored env s0 (w_db w')"
    using settle_restores [OF _ _ s0(2,3) r res [unfolded Some]] s0(1) by (simp add: sound_def)
  then show ?thesis using restored_guards s0(1,4) by fastforce
qed

lemma settle_run:
  assumes lp: "loop_safe (run_loop env n)"
    and s: "sound s" "Snapshot s = (snap, s1)" "keeps (bk env) s1 t" "sound t" "total t \<le> total s" "0 \<le> value' c"
    and res: "bind_outcome (with_dests clr (evm_run env (run_loop env n) c input) (w\<lparr>w_db := t, w_readOnly := ro\<rparr>)) (settle snap)
      = Ok (ret, g, err, w')"
  shows "sound (w_db w') \<and> total (w_db w') \<le> total s"
proof -
  let ?w = "w\<lparr>w_db := t, w_readOnly := ro\<rparr>"
  have "run_safe ?w (with_dests clr (evm_run env (run_loop env n) c input) ?w)" using s by (intro evm_run_safe [OF lp]) simp_all
  moreover have "run_ok env n (Gas c) ?w (with_dests clr (evm_run env (run_loop env n) c input) ?w)"
    by (intro with_dests_ok run_loop_run_ok)
  ultimately show ?thesis
    using s(5) by (intro settle_safe [OF s(1-3) order_refl _ _ res]) (fastforce simp: run_safe_def)+
qed

lemma settle_run_plain:
  assumes lp: "loop_safe (run_loop env n)"
    and s: "sound s" "Snapshot s = (snap, s1)" "keeps (bk env) s1 t" "sound t" "total t \<le> total s" "0 \<le> value' c"
    and res: "bind_outcome (with_dests clr (evm_run env (run_loop env n) c input) (w\<lparr>w_db := t\<rparr>)) (settle snap) = Ok (ret, g, err, w')"
  shows "sound (w_db w') \<and> total (w_db w') \<le> total s"
proof -
  have "w\<lparr>w_db := t, w_readOnly := w_readOnly w\<rparr> = w\<lparr>w_db := t\<rparr>" by simp
  then show ?thesis using settle_run [OF lp s, where clr = clr and input = input and w = w and ro = "w_readOnly w"] res by (simp only:)
qed

lemma load_code_safe:
  assumes "load_code env addr c s = (c', s')"
  shows "value' c' = value' c" "guards s s'"
proof -
  obtain h t where h: "GetCodeHash addr s = (h, t)" by fastforce
  obtain code u where u: "GetCode (bk env) addr t = (code, u)" by fastforce
  show "value' c' = value' c" "guards s s'"
    using assms h u guards_trans [OF guards_query(6) [OF h] guards_query(8) [OF u]]
    by (auto simp: load_code_def code_of_def SetCallCode_def)
qed

text \<open>The money that the sender has is still there when it is transferred.\<close>

lemma CanTransfer_bal:
  assumes "CanTransfer a v s = (can, t)"
  shows "can \<longleftrightarrow> v \<le> bal s a" "idle s t"
proof -
  show "can \<longleftrightarrow> v \<le> bal s a" using assms by (auto simp: CanTransfer_def bal_def split: prod.splits)
  show "idle s t" using idle_lookup [of s a] query_state(8) [of a v s] assms by simp
qed

lemma idle_trans: "idle s t \<Longrightarrow> idle t u \<Longrightarrow> idle s u"
  by (simp add: idle_def)

lemma evm_Call_safe:
  assumes lp: "loop_safe (run_loop env n)" and v: "0 \<le> val"
  shows "call_safe w (evm_Call env (run_loop env n) clr addr input gas val w)"
proof -
  let ?b = "bk env" and ?from = "ref_Address clr"
  obtain can s where can: "CanTransfer ?from val (w_db w) = (can, s)" by fastforce
  obtain snap s1 where snap: "Snapshot s = (snap, s1)" by fastforce
  obtain ex s2 where ex: "Exist addr s1 = (ex, s2)" by fastforce
  define s3 where "s3 = (if ex then s2 else CreateAccount ?b addr s2)"
  define s4 where "s4 = Transfer ?b ?from addr val s3"
  obtain c s5 where lc: "load_code env addr (NewContract clr (AccountRef addr) val gas) s4 = (c, s5)" by fastforce
  have g: "guards (w_db w) s" "guards s s1" "guards s1 s2" "guards s2 s3"
    using guards_query(7) [OF can] guards_query(10) [OF snap] guards_query(1) [OF ex] by (auto simp: s3_def guarding)
  have k: "keeps ?b s1 s5"
    using keeps_query(1) [OF ex] load_code_ok(2) [OF lc] keeps_Transfer [of ?b s3 ?from addr val] keeps_changes(7) [of ?b s2 addr]
    by (auto simp: s3_def s4_def intro: keeps_trans split: if_splits)
  have c: "value' c = val" using load_code_safe(1) [OF lc] by (simp add: NewContract_def)
  have "sound (w_db w') \<and> total (w_db w') \<le> total s"
    if s: "sound (w_db w)" and can': "val \<le> bal (w_db w) ?from"
      and res: "bind_outcome (with_dests clr (evm_run env (run_loop env n) c input) (w\<lparr>w_db := s5\<rparr>)) (settle snap) = Ok (ret, g, err, w')"
    for ret g err w'
  proof -
    have so: "sound s" "sound s1" "sound s2" "sound s3" using s g by (auto simp: guards_def)
    have "idle s2 s3" using so(3) bal_CreateAccount [of s2] by (auto simp: s3_def sound_def idle_def)
    moreover have "idle s1 s2" "idle s s1" using idle_lookup [of s1 addr] query_state(1) [of addr s1] ex idle_others(1) [of s] snap by simp_all
    ultimately have "idle (w_db w) s3" using CanTransfer_bal(2) [OF can] by (blast intro: idle_trans)
    then have "guards s3 s4" unfolding s4_def using v can' by (intro guards_Transfer) (simp_all add: idle_def)
    then have "guards s s5" using g load_code_safe(2) [OF lc] by (meson guards_trans)
    then have s5: "sound s5" "total s5 \<le> total s" using so(1) by (auto simp: guards_def)
    show ?thesis by (rule settle_run_plain [OF lp so(1) snap k s5 _ res]) (simp add: c v)
  qed
  then show ?thesis
    using can snap ex lc g CanTransfer_bal [OF can]
    by (auto simp: evm_Call_def call_safe_def Let_def guards_def s3_def s4_def split: outcome.split)
qed

lemma evm_CallCode_safe:
  assumes lp: "loop_safe (run_loop env n)" and v: "0 \<le> val"
  shows "call_safe w (evm_CallCode env (run_loop env n) clr addr input gas val w)"
proof -
  obtain can s where can: "CanTransfer (ref_Address clr) val (w_db w) = (can, s)" by fastforce
  obtain snap s1 where snap: "Snapshot s = (snap, s1)" by fastforce
  obtain c s5 where lc: "load_code env addr (NewContract clr (AccountRef (ref_Address clr)) val gas) s1 = (c, s5)" by fastforce
  have g: "guards (w_db w) s" "guards s s5"
    using guards_query(7) [OF can] guards_trans [OF guards_query(10) [OF snap] load_code_safe(2) [OF lc]] by auto
  have c: "value' c = val" using load_code_safe(1) [OF lc] by (simp add: NewContract_def)
  have "sound (w_db w') \<and> total (w_db w') \<le> total s"
    if "sound s" and res: "bind_outcome (with_dests clr (evm_run env (run_loop env n) c input) (w\<lparr>w_db := s5\<rparr>)) (settle snap) = Ok (ret, g, err, w')"
    for ret g err w'
  proof -
    have "sound s5" "total s5 \<le> total s" using g(2) that(1) by (auto simp: guards_def)
    then show ?thesis by (rule settle_run_plain [OF lp that(1) snap load_code_ok(2) [OF lc] _ _ _ res]) (simp add: c v)
  qed
  then show ?thesis
    using can snap lc g by (fastforce simp: evm_CallCode_def call_safe_def guards_def split: outcome.split)
qed

lemma evm_DelegateCall_safe:
  assumes lp: "loop_safe (run_loop env n)" and v: "ref_typed clr"
  shows "call_safe w (evm_DelegateCall env (run_loop env n) clr addr input gas w)"
proof (cases clr)
  case (AccountRef a)
  then show ?thesis by (cases "Snapshot (w_db w)") (simp add: evm_DelegateCall_def AsDelegate_def NewContract_def call_safe_def)
next
  case (ContractRef a ca x)
  obtain snap s1 where snap: "Snapshot (w_db w) = (snap, s1)" by fastforce
  obtain c0 where c0: "AsDelegate (NewContract clr (AccountRef (ref_Address clr)) 0 gas) = Ok c0" "value' c0 = x"
    using ContractRef by (simp add: AsDelegate_def NewContract_def)
  obtain c s5 where lc: "load_code env addr c0 s1 = (c, s5)" by fastforce
  have g: "guards (w_db w) s5" using guards_trans [OF guards_query(10) [OF snap] load_code_safe(2) [OF lc]] .
  have c: "0 \<le> value' c" using load_code_safe(1) [OF lc] c0(2) v ContractRef by (simp add: ref_typed_def)
  have "sound (w_db w') \<and> total (w_db w') \<le> total (w_db w)"
    if "sound (w_db w)" and res: "bind_outcome (with_dests clr (evm_run env (run_loop env n) c input) (w\<lparr>w_db := s5\<rparr>)) (settle snap) = Ok (ret, g, err, w')"
    for ret g err w'
  proof -
    have "sound s5" "total s5 \<le> total (w_db w)" using g that(1) by (auto simp: guards_def)
    then show ?thesis by (rule settle_run_plain [OF lp that(1) snap load_code_ok(2) [OF lc] _ _ c res])
  qed
  then show ?thesis
    using snap lc c0 by (fastforce simp: evm_DelegateCall_def call_safe_def guards_def split: outcome.split)
qed

lemma evm_StaticCall_safe:
  assumes lp: "loop_safe (run_loop env n)"
  shows "call_safe w (evm_StaticCall env (run_loop env n) clr addr input gas w)"
proof -
  obtain snap s1 where snap: "Snapshot (w_db w) = (snap, s1)" by fastforce
  obtain c s5 where lc: "load_code env addr (NewContract clr (AccountRef addr) 0 gas) s1 = (c, s5)" by fastforce
  have g: "guards (w_db w) s5" using guards_trans [OF guards_query(10) [OF snap] load_code_safe(2) [OF lc]] .
  have c: "0 \<le> value' c" using load_code_safe(1) [OF lc] by (simp add: NewContract_def)
  have "sound (w_db w') \<and> total (w_db w') \<le> total (w_db w)"
    if "sound (w_db w)" and res: "bind_outcome (with_dests clr (evm_run env (run_loop env n) c input) (w\<lparr>w_db := s5, w_readOnly := True\<rparr>)) (settle snap)
      = Ok (ret, g, err, w')" for ret g err w'
    using settle_run [OF lp that(1) snap load_code_ok(2) [OF lc] _ _ c res] g that(1) by (auto simp: guards_def)
  then show ?thesis
    using snap lc by (fastforce simp: evm_StaticCall_def call_safe_def guards_def bind_outcome_Ok_iff split: outcome.split)
qed

lemma reverted:
  fixes env :: evm_env
  assumes "sound s0" "Snapshot s0 = (snap, s1)" "keeps (bk env) s1 u" "RevertToSnapshot snap u = Ok s'"
  shows "sound s' \<and> total s' \<le> total s0"
proof -
  have "since (bk env) snap s0 u"
    using since_start [of s0 snap s1] assms(1-3) by (auto simp: keeps_def sound_def)
  then have "restored env s0 s'" using revert_since [of "bk env" snap s0 u] assms(4) by (auto simp: restored_def)
  then show ?thesis using restored_guards assms(1) by fastforce
qed

lemma finish_create_safe:
  assumes lp: "loop_safe (run_loop env n)"
    and s: "sound s" "Snapshot s = (snap, s1)" "keeps (bk env) s1 t" "sound t" "total t \<le> total s" "0 \<le> value' c"
    and res: "bind_outcome (with_dests clr (evm_run env (run_loop env n) c input) (w\<lparr>w_db := t\<rparr>)) (finish_create env snap addr)
      = Ok (ret, a, g, err, w')"
  shows "sound (w_db w') \<and> total (w_db w') \<le> total s"
proof -
  let ?r = "with_dests clr (evm_run env (run_loop env n) c input) (w\<lparr>w_db := t\<rparr>)"
  obtain ret1 err1 c1 w3 where r: "?r = Ok (ret1, err1, c1, w3)" "finish_create env snap addr (ret1, err1, c1, w3) = Ok (ret, a, g, err, w')"
    using res by (auto simp: bind_outcome_Ok_iff)
  have "run_safe (w\<lparr>w_db := t\<rparr>) ?r" using s by (intro evm_run_safe [OF lp]) simp_all
  then have w3: "sound (w_db w3)" "total (w_db w3) \<le> total s" using s(5) by (auto simp: r run_safe_def)
  have "run_ok env n (Gas c) (w\<lparr>w_db := t\<rparr>) ?r" by (intro with_dests_ok run_loop_run_ok)
  then have k3: "keeps (bk env) t (w_db w3)" by (simp add: r same_world_def)
  obtain err2 c2 w4 where sc: "store_code env addr ret1 err1 c1 w3 = (err2, c2, w4)" by (cases "store_code env addr ret1 err1 c1 w3") auto
  have "guards (w_db w3) (w_db w4)"
    using sc by (auto simp: store_code_def case_prod_unfold guarding split: if_splits)
  then have w4: "sound (w_db w4)" "total (w_db w4) \<le> total s" using w3 by (auto simp: guards_def)
  have "keeps (bk env) (w_db w3) (w_db w4)" using store_code_ok(1) [OF sc] by (simp add: same_world_def)
  then have "keeps (bk env) s1 (w_db w4)" using s(3) k3 keeps_trans by blast
  note rv = reverted [OF s(1,2) this]
  show ?thesis
    using r(2) w4 rv by (cases "RevertToSnapshot snap (w_db w4)") (auto simp: finish_create_def sc Let_def split: if_splits)
qed

lemma evm_Create_safe:
  assumes lp: "loop_safe (run_loop env n)" and v: "0 \<le> val"
  shows "create_safe w (evm_Create env (run_loop env n) clr code gas val w)"
proof -
  let ?b = "bk env" and ?from = "ref_Address clr"
  obtain can s where can: "CanTransfer ?from val (w_db w) = (can, s)" by fastforce
  obtain nonce s1 where nonce: "GetNonce ?from s = (nonce, s1)" by fastforce
  define addr where "addr = CreateAddress ?b ?from nonce"
  define s2 where "s2 = SetNonce ?b ?from (nonce + 1) s1"
  obtain h s3 where h: "GetCodeHash addr s2 = (h, s3)" by fastforce
  obtain m s4 where m: "GetNonce addr s3 = (m, s4)" by fastforce
  obtain snap s5 where snap: "Snapshot s4 = (snap, s5)" by fastforce
  define s6 where "s6 = CreateAccount ?b addr s5"
  define s7 where "s7 = (if IsEIP158 (chainConfig env) (BlockNumber (ctx env)) then SetNonce ?b addr 1 s6 else s6)"
  define s8 where "s8 = Transfer ?b ?from addr val s7"
  define c where "c = SetCallCode addr (Keccak256Hash ?b code) code (NewContract clr (AccountRef addr) val gas)"
  have g: "guards (w_db w) s" "guards s s1" "guards s1 s2" "guards s2 s3" "guards s3 s4" "guards s4 s5" "guards s5 s6" "guards s6 s7"
    using guards_query(7) [OF can] guards_query(4) [OF nonce] guards_query(6) [OF h] guards_query(4) [OF m] guards_query(10) [OF snap]
    by (simp_all add: s2_def s6_def s7_def guarding)
  have k8: "keeps ?b s5 s8"
    using keeps_changes(7) [of ?b s5 addr] keeps_changes(3) [of ?b s6 addr 1] keeps_Transfer [of ?b s7 ?from addr val]
    by (auto simp: s6_def s7_def s8_def intro: keeps_trans split: if_splits)
  have c: "0 \<le> value' c" using v by (simp add: c_def SetCallCode_def NewContract_def)
  have main: "sound (w_db w') \<and> total (w_db w') \<le> total s4"
    if s: "sound (w_db w)" and can': "val \<le> bal (w_db w) ?from"
      and res: "bind_outcome (with_dests clr (evm_run env (run_loop env n) c []) (w\<lparr>w_db := s8\<rparr>)) (finish_create env snap addr)
        = Ok (ret, a, gl, err, w')" for ret a gl err w'
  proof -
    have so: "sound s" "sound s1" "sound s2" "sound s3" "sound s4" "sound s5" "sound s6" "sound s7" using s g by (auto simp: guards_def)
    then have "idle s1 s2" "idle s5 s6" "idle s6 s7"
      using bal_changes(5) [of s1] bal_CreateAccount [of s5] bal_changes(5) [of s6] by (auto simp: s2_def s6_def s7_def sound_def idle_def)
    moreover have "idle s s1" "idle s2 s3" "idle s3 s4" "idle s4 s5"
      using idle_lookup [of s ?from] idle_lookup [of s2 addr] idle_lookup [of s3 addr] query_state(4,6) nonce h m idle_others(1) [of s4] snap
      by (metis snd_conv)+
    ultimately have "idle (w_db w) s7" using CanTransfer_bal(2) [OF can] by (meson idle_trans)
    then have "guards s7 s8" unfolding s8_def using v can' by (intro guards_Transfer) (simp_all add: idle_def)
    then have "guards s4 s8" using g by (meson guards_trans)
    then have s8: "sound s8" "total s8 \<le> total s4" using so(5) by (auto simp: guards_def)
    show ?thesis by (rule finish_create_safe [OF lp so(5) snap k8 s8 c res])
  qed
  have s4: "guards (w_db w) s4" using g by (meson guards_trans)
  show ?thesis
    using can nonce h m snap s4 main g(1) CanTransfer_bal(1) [OF can]
    by (cases "IsEIP158 (chainConfig env) (BlockNumber (ctx env))")
      (auto simp: evm_Create_def create_safe_def guards_def Let_def s7_def s8_def simp flip: addr_def s2_def s6_def c_def split: outcome.split)
qed

section \<open>All runs\<close>

lemma custodians_evm:
  assumes "fair env \<Longrightarrow> loop_safe (run_loop env n)"
  shows "custodians env (evm_calls env (run_loop env n))"
  by unfold_locales
    (simp_all add: evm_calls_def evm_Call_safe evm_CallCode_safe evm_DelegateCall_safe evm_StaticCall_safe evm_Create_safe assms)

lemma run_loop_safe: "fair env \<Longrightarrow> loop_safe (run_loop env n)"
proof (induction n)
  case 0
  then show ?case by (simp add: loop_safe_def run_safe_def)
next
  case (Suc n)
  have "run_safe w (run_loop env (Suc n) w f)" if s: "sound (w_db w)" "typed f" for w f
  proof -
    let ?b = "loop_body env (evm_calls env (run_loop env n)) w f"
    have b: "body_safe w ?b" using Suc s by (intro custodians.loop_body_safe [OF custodians_evm])
    show ?thesis
    proof (cases ?b)
      case (Ok r)
      show ?thesis
      proof (cases r)
        case (Continue w1 f1)
        then have c: "sound (w_db w1)" "total (w_db w1) \<le> total (w_db w)" "typed f1" using b by (simp_all add: Ok body_safe_def)
        then have "run_safe w1 (run_loop env n w1 f1)" using Suc by (simp add: loop_safe_def)
        then show ?thesis using c(2) by (cases "run_loop env n w1 f1") (auto simp: run_safe_def Ok Continue)
      qed (use b in \<open>simp add: Ok body_safe_def run_safe_def\<close>)
    qed (simp_all add: run_safe_def)
  qed
  then show ?case by (simp add: loop_safe_def)
qed

interpretation evm_money: custodians env "evm_calls env (run_loop env n)" for env n
  by (rule custodians_evm [OF run_loop_safe])

section \<open>Property\<close>

lemma sample_sound: "sound (w_db (sample_world code))"
proof -
  let ?b = "bk sample_env" and ?s = "AddBalance (bk sample_env) 1 100 empty_statedb"
  have e: "wf_objects empty_statedb" by (simp add: empty_statedb_def wf_objects_def)
  have s: "bal ?s = (bal empty_statedb)(1 := bal empty_statedb 1 + 100)" "refund ?s = refund empty_statedb" using bal_changes(1,2) [OF e] by auto
  have "wf_objects ?s" using extends_changes(1) [OF e] by (rule extends_wf)
  then have "idle ?s (db_SetCode ?b 100 code ?s)" by (rule bal_changes(6))
  then have "bal (w_db (sample_world code)) = bal ?s" "refund (w_db (sample_world code)) = refund ?s" by (simp_all add: sample_world_def idle_def)
  moreover have "bal empty_statedb a = 0" "refund empty_statedb = 0" for a by (simp_all add: bal_eq empty_statedb_def)
  ultimately show ?thesis using sample_world_ok [of code] s by (simp add: sound_def)
qed

text \<open>C3: No execution creates money: when a call or a creation with a value that is not negative returns, whether it succeeds or fails and however
  deep it nests, no balance is negative and the sum of all balances is at most what it was before.\<close>

theorem supply_never_grows:
  assumes "sound (w_db w)" "fair env" "0 \<le> val"
  shows "(case Call n env (AccountRef sender) addr input gas val w of
        Ok (ret, g, err, w') \<Rightarrow> total (w_db w') \<le> total (w_db w) \<and> (\<forall>a. 0 \<le> bal (w_db w') a)
      | _ \<Rightarrow> True) \<and>
    (case Create n env (AccountRef sender) code gas val w of
        Ok (ret, a, g, err, w') \<Rightarrow> total (w_db w') \<le> total (w_db w) \<and> (\<forall>a. 0 \<le> bal (w_db w') a)
      | _ \<Rightarrow> True)"
proof -
  have r: "ref_typed (AccountRef sender)" by (simp add: ref_typed_def)
  have "call_safe w (Call n env (AccountRef sender) addr input gas val w)" "create_safe w (Create n env (AccountRef sender) code gas val w)"
    using evm_money.Call_safe [OF assms(2) r assms(3)] evm_money.Create_safe [OF assms(2) r assms(3)]
    by (simp_all add: Call_def Create_def evm_calls_def)
  then show ?thesis
    using assms(1) by (auto simp: call_safe_def create_safe_def guards_def sound_def split: outcome.splits)
qed

theorem supply_never_grows_witness:
  "case Call 50 sample_env (AccountRef 1) 4 [7] 500 5 (sample_world [0x00]) of
     Ok (ret, g, err, w') \<Rightarrow> total (w_db w') \<le> total (w_db (sample_world [0x00])) \<and> (\<forall>a. 0 \<le> bal (w_db w') a)
   | _ \<Rightarrow> True"
proof -
  have "fair sample_env" by (simp add: fair_def sample_env_def)
  then show ?thesis by (rule supply_never_grows [OF sample_sound, THEN conjunct1]) simp
qed

text \<open>C26: The stack stays well typed: from a sound state, one round of the interpreter's loop, with all the calls that it makes, leaves no negative
  number on the stack and in the value of the contract when there was none before.\<close>

theorem stack_stays_typed:
  assumes "sound (w_db w)" "fair env" "typed f"
  shows "case loop_body env (evm_calls env (run_loop env n)) w f of
      Ok r \<Rightarrow> (case r of Continue w' f' \<Rightarrow> typed f' | Return ret err w' f' \<Rightarrow> True)
    | Err e \<Rightarrow> True
    | Panic \<Rightarrow> True"
  using evm_money.loop_body_safe [OF assms(2,1,3), of n] by (auto simp: body_safe_def split: outcome.split loop_result.split)

theorem stack_stays_typed_witness:
  "case loop_body sample_env (evm_calls sample_env (run_loop sample_env 10)) (sample_world [])
       \<lparr>f_pc = 0, f_contract = SetCallCode 100 0 [0x03] (NewContract (AccountRef 1) (AccountRef 100) 0 50), f_mem = NewMemory, f_stack = [5, 7]\<rparr> of
      Ok r \<Rightarrow> (case r of Continue w' f' \<Rightarrow> typed f' | Return ret err w' f' \<Rightarrow> True)
    | Err e \<Rightarrow> True
    | Panic \<Rightarrow> True"
proof (rule stack_stays_typed [OF sample_sound])
  show "fair sample_env" by (simp add: fair_def sample_env_def)
qed (simp add: typed_def SetCallCode_def NewContract_def)

end
