(* ===== verification/Transition.thy ===== *)
theory Transition
  imports Supply
begin

text \<open>
  \<open>core/state_transition.go\<close> and \<open>core/gaspool.go\<close>: a transaction is checked, pays for its gas, is executed as a call or a creation, gets
  part of the gas back and pays the miner. The methods change the transition in place, also when they return an error, so
  they return it together with the error. Logging is left out.
\<close>

section \<open>Messages and the gas pool\<close>

datatype tx_error =
    errVM vm_error
  | errInsufficientBalanceForGas
  | ErrGasLimitReached
  | errInvalidNonce uint64 uint64

record Message =
  From :: address
  To :: "address option"
  msg_GasPrice :: int
  msg_Gas :: int
  msg_Value :: int
  msg_Nonce :: uint64
  CheckNonce :: bool
  msg_Data :: "byte list"

definition AddGas :: "int \<Rightarrow> int \<Rightarrow> int" where
  "AddGas amount pool = pool + amount"

definition SubGas :: "int \<Rightarrow> int \<Rightarrow> tx_error option \<times> int" where
  "SubGas amount pool = (if pool < amount then (Some ErrGasLimitReached, pool) else (None, pool - amount))"

record StateTransition =
  st_gp :: int
  st_msg :: Message
  st_gas :: uint64
  st_gasPrice :: int
  st_initialGas :: int
  st_value :: int
  st_data :: "byte list"
  st_world :: world

abbreviation TxGas :: int where "TxGas \<equiv> 21000"
abbreviation TxGasContractCreation :: int where "TxGasContractCreation \<equiv> 53000"
abbreviation TxDataZeroGas :: int where "TxDataZeroGas \<equiv> 4"
abbreviation TxDataNonZeroGas :: int where "TxDataNonZeroGas \<equiv> 68"

definition IntrinsicGas :: "byte list \<Rightarrow> bool \<Rightarrow> bool \<Rightarrow> int" where
  "IntrinsicGas data contractCreation homestead =
     (let igas = (if contractCreation \<and> homestead then TxGasContractCreation else TxGas)
      in if length data > 0 then
           let nz = int (length (filter (\<lambda>byt. byt \<noteq> 0) data));
               igas = igas + nz * TxDataNonZeroGas
           in igas + (int (length data) - nz) * TxDataZeroGas
         else igas)"

definition NewStateTransition :: "Message \<Rightarrow> int \<Rightarrow> world \<Rightarrow> StateTransition" where
  "NewStateTransition msg pool w =
     \<lparr>st_gp = pool, st_msg = msg, st_gas = 0, st_gasPrice = msg_GasPrice msg, st_initialGas = 0, st_value = msg_Value msg,
      st_data = msg_Data msg, st_world = w\<rparr>"

section \<open>Accounts of the message\<close>

definition with_db :: "StateTransition \<Rightarrow> StateDB \<Rightarrow> StateTransition" where
  "with_db st s = st\<lparr>st_world := (st_world st)\<lparr>w_db := s\<rparr>\<rparr>"

text \<open>An account that does not exist is created.\<close>

definition ensure_account :: "evm_env \<Rightarrow> address \<Rightarrow> StateTransition \<Rightarrow> StateTransition" where
  "ensure_account env a st =
     (case Exist a (w_db (st_world st)) of
        (e, s) \<Rightarrow> with_db st (if e then s else CreateAccount (bk env) a s))"

definition st_from :: "evm_env \<Rightarrow> StateTransition \<Rightarrow> address \<times> StateTransition" where
  "st_from env st = (let f = From (st_msg st) in (f, ensure_account env f st))"

definition st_to :: "evm_env \<Rightarrow> StateTransition \<Rightarrow> address \<times> StateTransition" where
  "st_to env st =
     (case To (st_msg st) of
        None \<Rightarrow> (0, st)
      | Some to \<Rightarrow> (to, ensure_account env to st))"

section \<open>Gas\<close>

definition useGas :: "uint64 \<Rightarrow> StateTransition \<Rightarrow> tx_error option \<times> StateTransition" where
  "useGas amount st =
     (if st_gas st < amount then (Some (errVM ErrOutOfGas), st) else (None, st\<lparr>st_gas := st_gas st - amount\<rparr>))"

definition gasUsed :: "StateTransition \<Rightarrow> int" where
  "gasUsed st = st_initialGas st - uint (st_gas st)"

definition buyGas :: "evm_env \<Rightarrow> StateTransition \<Rightarrow> tx_error option \<times> StateTransition" where
  "buyGas env st =
     (let mgas = msg_Gas (st_msg st)
      in if big_BitLen mgas > 64 then (Some (errVM ErrOutOfGas), st)
         else
           let mgval = mgas * st_gasPrice st
           in case st_from env st of
                (sender, st) \<Rightarrow>
                  (case GetBalance sender (w_db (st_world st)) of
                     (balance, s) \<Rightarrow>
                       let st = with_db st s
                       in if balance < mgval then (Some errInsufficientBalanceForGas, st)
                          else case SubGas mgas (st_gp st) of
                            (Some e, pool) \<Rightarrow> (Some e, st)
                          | (None, pool) \<Rightarrow>
                              (None, with_db (st\<lparr>st_gp := pool, st_gas := st_gas st + big_Uint64 mgas, st_initialGas := mgas\<rparr>)
                                 (SubBalance (bk env) sender mgval s))))"

definition preCheck :: "evm_env \<Rightarrow> StateTransition \<Rightarrow> tx_error option \<times> StateTransition" where
  "preCheck env st =
     (case st_from env st of
        (sender, st) \<Rightarrow>
          if CheckNonce (st_msg st) then
            (case GetNonce sender (w_db (st_world st)) of
               (n, s) \<Rightarrow>
                 let st = with_db st s
                 in if n \<noteq> msg_Nonce (st_msg st) then (Some (errInvalidNonce (msg_Nonce (st_msg st)) n), st)
                    else buyGas env st)
          else buyGas env st)"

text \<open>
  \<open>BigMin\<close> returns one of its arguments, so when the refund counter is the smaller one, the multiplication by the price
  writes to the counter of the state.
\<close>

definition refundGas :: "evm_env \<Rightarrow> StateTransition \<Rightarrow> StateTransition" where
  "refundGas env st =
     (case st_from env st of
        (sender, st) \<Rightarrow>
          let remaining = uint (st_gas st) * st_gasPrice st;
              s = AddBalance (bk env) sender remaining (w_db (st_world st));
              uhalf = big_Div (gasUsed st) 2;
              refund' = BigMin uhalf (GetRefund s);
              st = st\<lparr>st_gas := st_gas st + big_Uint64 refund'\<rparr>;
              s = (if uhalf > GetRefund s then s\<lparr>refund := refund' * st_gasPrice st\<rparr> else s);
              s = AddBalance (bk env) sender (refund' * st_gasPrice st) s
          in with_db (st\<lparr>st_gp := AddGas (uint (st_gas st)) (st_gp st)\<rparr>) s)"

section \<open>The transition\<close>

type_synonym tx_result = "byte list \<times> int option \<times> int option \<times> bool \<times> tx_error option \<times> StateTransition"

definition tx_fail :: "tx_error option \<Rightarrow> StateTransition \<Rightarrow> tx_result vm" where
  "tx_fail err st = Ok ([], None, None, False, err, st)"

text \<open>The execution: the returned data, the error of the virtual machine and the transition with the gas that is left.\<close>

definition tx_execute :: "nat \<Rightarrow> evm_env \<Rightarrow> address \<Rightarrow> StateTransition \<Rightarrow> (byte list \<times> vm_error option \<times> StateTransition) vm" where
  "tx_execute n env sender st =
     (if To (st_msg st) = None then
        bind_outcome (Create n env (AccountRef sender) (st_data st) (st_gas st) (st_value st) (st_world st))
          (\<lambda>(ret, addr, gas, vmerr, w). Ok (ret, vmerr, st\<lparr>st_gas := gas, st_world := w\<rparr>))
      else
        case GetNonce sender (w_db (st_world st)) of
          (nonce, s) \<Rightarrow>
            let st = with_db st (SetNonce (bk env) sender (nonce + 1) s)
            in case st_to env st of
                 (to, st) \<Rightarrow>
                   bind_outcome (Call n env (AccountRef sender) to (st_data st) (st_gas st) (st_value st) (st_world st))
                     (\<lambda>(ret, gas, vmerr, w). Ok (ret, vmerr, st\<lparr>st_gas := gas, st_world := w\<rparr>)))"

definition tx_finish :: "evm_env \<Rightarrow> byte list \<Rightarrow> vm_error option \<Rightarrow> StateTransition \<Rightarrow> tx_result vm" where
  "tx_finish env ret vmerr st =
     (let requiredGas = gasUsed st;
          st = refundGas env st;
          st = with_db st (AddBalance (bk env) (Coinbase (ctx env)) (gasUsed st * st_gasPrice st) (w_db (st_world st)))
      in Ok (ret, Some requiredGas, Some (gasUsed st), vmerr \<noteq> None, None, st))"

definition TransitionDb :: "nat \<Rightarrow> evm_env \<Rightarrow> StateTransition \<Rightarrow> tx_result vm" where
  "TransitionDb n env st =
     (case preCheck env st of
        (Some e, st) \<Rightarrow> tx_fail (Some e) st
      | (None, st) \<Rightarrow>
          (case st_from env st of
             (sender, st) \<Rightarrow>
               let homestead = IsHomestead (chainConfig env) (BlockNumber (ctx env));
                   contractCreation = (To (st_msg st) = None);
                   intrinsicGas = IntrinsicGas (st_data st) contractCreation homestead
               in if big_BitLen intrinsicGas > 64 then tx_fail (Some (errVM ErrOutOfGas)) st
                  else case useGas (big_Uint64 intrinsicGas) st of
                    (Some e, st) \<Rightarrow> tx_fail (Some e) st
                  | (None, st) \<Rightarrow>
                      bind_outcome (tx_execute n env sender st) (\<lambda>(ret, vmerr, st).
                        if vmerr = Some ErrInsufficientBalance then tx_fail (Some (errVM ErrInsufficientBalance)) st
                        else tx_finish env ret vmerr st)))"

definition ApplyMessage :: "nat \<Rightarrow> evm_env \<Rightarrow> Message \<Rightarrow> int \<Rightarrow> world \<Rightarrow> (byte list \<times> int option \<times> bool \<times> tx_error option \<times> StateTransition) vm" where
  "ApplyMessage n env msg pool w =
     bind_outcome (TransitionDb n env (NewStateTransition msg pool w)) (\<lambda>(ret, _, gasUsed, failed, err, st).
       Ok (ret, gasUsed, failed, err, st))"

section \<open>Accounting\<close>

abbreviation db :: "StateTransition \<Rightarrow> StateDB" where
  "db st \<equiv> w_db (st_world st)"

lemma with_db_simps [simp]:
  "db (with_db st s) = s" "st_gp (with_db st s) = st_gp st" "st_msg (with_db st s) = st_msg st" "st_gas (with_db st s) = st_gas st"
  "st_gasPrice (with_db st s) = st_gasPrice st" "st_initialGas (with_db st s) = st_initialGas st" "st_value (with_db st s) = st_value st"
  "st_data (with_db st s) = st_data st" "w_depth (st_world (with_db st s)) = w_depth (st_world st)"
  by (simp_all add: with_db_def)

text \<open>The message and its price.\<close>

definition same_msg :: "StateTransition \<Rightarrow> StateTransition \<Rightarrow> bool" where
  "same_msg st t \<longleftrightarrow> st_msg t = st_msg st \<and> st_gasPrice t = st_gasPrice st \<and> st_value t = st_value st \<and> st_data t = st_data st"

text \<open>Nothing but lookups, new accounts without money and nonces.\<close>

definition at_rest :: "StateTransition \<Rightarrow> StateTransition \<Rightarrow> bool" where
  "at_rest st t \<longleftrightarrow> same_msg st t \<and> st_gp t = st_gp st \<and> st_gas t = st_gas st \<and> st_initialGas t = st_initialGas st \<and>
     w_depth (st_world t) = w_depth (st_world st) \<and> (sound (db st) \<longrightarrow> sound (db t) \<and> bal (db t) = bal (db st))"

lemma at_rest_trans: "at_rest st t \<Longrightarrow> at_rest t u \<Longrightarrow> at_rest st u"
  by (simp add: at_rest_def same_msg_def)

lemma at_rest_db: "guards (db st) s \<Longrightarrow> (wf_objects (db st) \<Longrightarrow> bal s = bal (db st)) \<Longrightarrow> at_rest st (with_db st s)"
  by (auto simp: at_rest_def same_msg_def guards_def sound_def)

lemma total_bal: "bal t = bal s \<Longrightarrow> total t = total s"
  by (simp add: total_def)

lemma ensure_at_rest: "at_rest st (ensure_account env a st)"
proof -
  obtain e s where e: "Exist a (db st) = (e, s)" by fastforce
  have s: "guards (db st) s" "idle (db st) s"
    using guards_query(1) [OF e] idle_lookup [of "db st" a] query_state(1) [of a "db st"] e by simp_all
  show ?thesis
  proof (cases e)
    case True
    then show ?thesis using s e by (auto simp: ensure_account_def idle_def intro!: at_rest_db)
  next
    case False
    have g: "guards (db st) (CreateAccount (bk env) a s)" by (rule guards_trans [OF s(1) guards_changes(4)])
    have "wf_objects s" if "wf_objects (db st)" using wf_getStateObject [OF that, of a] query_state(1) [of a "db st"] e by simp
    then show ?thesis
      using False g s(2) e bal_CreateAccount [of s "bk env" a] by (auto simp: ensure_account_def idle_def intro!: at_rest_db)
  qed
qed

lemma from_at_rest: "st_from env st = (a, t) \<Longrightarrow> a = From (st_msg st) \<and> at_rest st t"
  using ensure_at_rest by (auto simp: st_from_def Let_def)

lemma to_at_rest: "st_to env st = (a, t) \<Longrightarrow> at_rest st t"
  using ensure_at_rest by (auto simp: st_to_def at_rest_def same_msg_def split: option.splits)

lemma Uint64_fits:
  assumes "0 \<le> x" "\<not> 64 < big_BitLen x"
  shows "uint (big_Uint64 x) = x"
proof -
  have "x < 2 ^ 64" using assms nat_bitlen_le_iff [of "nat x" 64] by (simp add: big_BitLen_def nat_less_iff)
  then show ?thesis using assms(1) by (simp add: big_Uint64_def uint_word_of_int)
qed

lemma SubBalance_sound:
  assumes "sound s" "0 \<le> x" "x \<le> bal s a"
  shows "sound (SubBalance b a x s)" "total (SubBalance b a x s) = total s - x"
proof -
  have wf: "wf_objects s" "revisions_ok s" using assms(1) by (simp_all add: sound_def)
  have "wf_objects (SubBalance b a x s) \<and> revisions_ok (SubBalance b a x s)" by (rule extends_ok [OF extends_changes(2) [OF wf(1)] wf(2)])
  moreover note b = bal_changes(3) [OF wf(1), of b a x] bal_changes(4) [OF wf(1), of b a x]
  ultimately show "sound (SubBalance b a x s)" using assms by (simp add: sound_def)
  show "total (SubBalance b a x s) = total s - x" using total_upd [OF b(1)] by simp
qed

lemma AddBalance_sound:
  assumes "sound s" "0 \<le> x"
  shows "sound (AddBalance b a x s)" "total (AddBalance b a x s) = total s + x" "refund (AddBalance b a x s) = refund s"
proof -
  have wf: "wf_objects s" "revisions_ok s" using assms(1) by (simp_all add: sound_def)
  have "wf_objects (AddBalance b a x s) \<and> revisions_ok (AddBalance b a x s)" by (rule extends_ok [OF extends_changes(1) [OF wf(1)] wf(2)])
  moreover note b = bal_changes(1) [OF wf(1), of b a x] bal_changes(2) [OF wf(1), of b a x]
  ultimately show "sound (AddBalance b a x s)" using assms by (simp add: sound_def)
  show "total (AddBalance b a x s) = total s + x" using total_upd [OF b(1)] by simp
  show "refund (AddBalance b a x s) = refund s" by (rule b(2))
qed

text \<open>What is paid in advance.\<close>

definition bought :: "StateTransition \<Rightarrow> StateTransition \<Rightarrow> bool" where
  "bought st t \<longleftrightarrow> same_msg st t \<and> sound (db t) \<and> total (db t) = total (db st) - msg_Gas (st_msg st) * st_gasPrice st \<and>
     st_gp t = st_gp st - msg_Gas (st_msg st) \<and> uint (st_gas t) = msg_Gas (st_msg st) \<and> st_initialGas t = msg_Gas (st_msg st) \<and>
     w_depth (st_world t) = w_depth (st_world st)"

lemma buyGas_bought:
  assumes "buyGas env st = (None, t)" "sound (db st)" "0 \<le> msg_Gas (st_msg st)" "0 \<le> st_gasPrice st" "st_gas st = 0"
  shows "bought st t"
proof -
  let ?g = "msg_Gas (st_msg st)"
  obtain a st1 where f: "st_from env st = (a, st1)" by fastforce
  obtain x s where x: "GetBalance a (db st1) = (x, s)" by fastforce
  have r: "a = From (st_msg st)" "at_rest st st1" using from_at_rest [OF f] by auto
  have s1: "sound (db st1)" "bal (db st1) = bal (db st)" "st_gp st1 = st_gp st" "st_gas st1 = 0" "same_msg st st1"
    "w_depth (st_world st1) = w_depth (st_world st)"
    using r(2) assms(2,5) by (auto simp: at_rest_def)
  have len: "\<not> 64 < big_BitLen ?g" using assms(1) by (auto simp: buyGas_def Let_def split: if_splits)
  have "x = bal (db st1) a" using x by (simp add: bal_def)
  then have s: "sound s" "bal s = bal (db st)" "x = bal s a"
    using guards_query(3) [OF x] s1 idle_lookup [of "db st1" a] query_state(3) [of a "db st1"] x by (auto simp: guards_def idle_def)
  have t: "?g * st_gasPrice st \<le> x" "\<not> st_gp st < ?g"
    "t = with_db (st1\<lparr>st_gp := st_gp st - ?g, st_gas := big_Uint64 ?g, st_initialGas := ?g\<rparr>) (SubBalance (bk env) a (?g * st_gasPrice st) s)"
    using assms(1) f x len s1 by (auto simp: buyGas_def Let_def SubGas_def same_msg_def with_db_def split: if_splits)
  have "0 \<le> ?g * st_gasPrice st" using assms(3,4) by simp
  then show ?thesis
    using SubBalance_sound [OF s(1), of "?g * st_gasPrice st" a "bk env"] t s total_bal [OF s(2)] s1(5,6) Uint64_fits [OF assms(3) len]
    by (auto simp: bought_def same_msg_def)
qed

lemma preCheck_bought:
  assumes "preCheck env st = (None, t)" "sound (db st)" "0 \<le> msg_Gas (st_msg st)" "0 \<le> st_gasPrice st" "st_gas st = 0"
  shows "bought st t"
proof -
  obtain a st1 where f: "st_from env st = (a, st1)" by fastforce
  obtain x s where x: "GetNonce a (db st1) = (x, s)" by fastforce
  have r1: "at_rest st1 (with_db st1 s)"
    using guards_query(4) [OF x] idle_lookup [of "db st1" a] query_state(4) [of a "db st1"] x by (intro at_rest_db) (auto simp: idle_def)
  have r: "at_rest st st1" using from_at_rest [OF f] by simp
  define st2 where "st2 = (if CheckNonce (st_msg st1) then with_db st1 s else st1)"
  have st2: "at_rest st st2" "buyGas env st2 = (None, t)"
    using r at_rest_trans [OF r r1] assms(1) f x by (simp_all add: st2_def preCheck_def Let_def split: if_splits)
  then have "bought st2 t" using assms by (intro buyGas_bought) (auto simp: at_rest_def same_msg_def)
  then show ?thesis using st2(1) assms(2) total_bal [of "db st2" "db st"] by (auto simp: at_rest_def bought_def same_msg_def)
qed

lemma Call_facts:
  assumes "metered env" "fair env" "0 \<le> val"
  shows "case Call n env (AccountRef a) addr input gas val w of
      Ok (ret, g, err, w') \<Rightarrow> g \<le> gas \<and> guards (w_db w) (w_db w') | Err e \<Rightarrow> n \<le> unat gas | Panic \<Rightarrow> True"
    "case Create n env (AccountRef a) input gas val w of
      Ok (ret, addr, g, err, w') \<Rightarrow> g \<le> gas \<and> guards (w_db w) (w_db w') | Err e \<Rightarrow> n \<le> unat gas | Panic \<Rightarrow> True"
proof -
  have r: "ref_typed (AccountRef a)" by (simp add: ref_typed_def)
  have "call_ok env n gas w (Call n env (AccountRef a) addr input gas val w)" "call_safe w (Call n env (AccountRef a) addr input gas val w)"
    using evm.Call_ok [of env n gas w "AccountRef a" addr input val] evm_money.Call_safe [OF assms(2) r assms(3)]
    by (simp_all add: Call_def evm_calls_def)
  then show "case Call n env (AccountRef a) addr input gas val w of
      Ok (ret, g, err, w') \<Rightarrow> g \<le> gas \<and> guards (w_db w) (w_db w') | Err e \<Rightarrow> n \<le> unat gas | Panic \<Rightarrow> True"
    using assms(1) by (auto simp: call_ok_def call_safe_def split: outcome.splits)
  have "create_ok env n gas w (Create n env (AccountRef a) input gas val w)" "create_safe w (Create n env (AccountRef a) input gas val w)"
    using evm.Create_ok [of env n gas w "AccountRef a" input val] evm_money.Create_safe [OF assms(2) r assms(3)]
    by (simp_all add: Create_def evm_calls_def)
  then show "case Create n env (AccountRef a) input gas val w of
      Ok (ret, addr, g, err, w') \<Rightarrow> g \<le> gas \<and> guards (w_db w) (w_db w') | Err e \<Rightarrow> n \<le> unat gas | Panic \<Rightarrow> True"
    using assms(1) by (auto simp: create_ok_def create_safe_def split: outcome.splits)
qed

definition executed :: "nat \<Rightarrow> StateTransition \<Rightarrow> (byte list \<times> vm_error option \<times> StateTransition) vm \<Rightarrow> bool" where
  "executed n st r \<longleftrightarrow>
     (case r of
        Ok (ret, vmerr, t) \<Rightarrow> same_msg st t \<and> st_gp t = st_gp st \<and> st_initialGas t = st_initialGas st \<and> st_gas t \<le> st_gas st \<and>
          sound (db t) \<and> total (db t) \<le> total (db st)
      | Err e \<Rightarrow> n \<le> unat (st_gas st)
      | Panic \<Rightarrow> True)"

lemma tx_execute_ok:
  assumes "metered env" "fair env" "sound (db st)" "0 \<le> st_value st"
  shows "executed n st (tx_execute n env sender st)"
proof (cases "To (st_msg st)")
  case None
  show ?thesis
    using Call_facts(2) [OF assms(1,2,4), where n = n and a = sender and input = "st_data st" and gas = "st_gas st" and w = "st_world st"] assms(3)
    by (cases "Create n env (AccountRef sender) (st_data st) (st_gas st) (st_value st) (st_world st)")
      (auto simp: tx_execute_def None executed_def same_msg_def guards_def)
next
  case (Some to)
  obtain x s where x: "GetNonce sender (db st) = (x, s)" by fastforce
  let ?st1 = "with_db st (SetNonce (bk env) sender (x + 1) s)"
  obtain a st2 where a: "st_to env ?st1 = (a, st2)" by fastforce
  have s: "guards (db st) s" "idle (db st) s"
    using guards_query(4) [OF x] idle_lookup [of "db st" sender] query_state(4) [of sender "db st"] x by simp_all
  have "wf_objects s" using s(1) assms(3) by (simp add: guards_def sound_def)
  then have "at_rest st ?st1"
    using guards_trans [OF s(1) guards_changes(1)] s(2) bal_changes(5) [of s "bk env" sender "x + 1"]
    by (intro at_rest_db) (auto simp: idle_def)
  then have r: "at_rest st st2" using to_at_rest [OF a] at_rest_trans by blast
  then have st2: "sound (db st2)" "total (db st2) = total (db st)" "0 \<le> st_value st2" "st_gas st2 = st_gas st"
    using assms(3,4) total_bal [of "db st2" "db st"] by (auto simp: at_rest_def same_msg_def)
  have "tx_execute n env sender st = bind_outcome (Call n env (AccountRef sender) a (st_data st2) (st_gas st2) (st_value st2) (st_world st2))
      (\<lambda>(ret, gas, vmerr, w). Ok (ret, vmerr, st2\<lparr>st_gas := gas, st_world := w\<rparr>))"
    using Some x a by (simp add: tx_execute_def Let_def)
  then show ?thesis
    using Call_facts(1) [OF assms(1,2) st2(3), where n = n and a = sender and addr = a and input = "st_data st2" and gas = "st_gas st2" and w = "st_world st2"] st2 r
    by (cases "Call n env (AccountRef sender) a (st_data st2) (st_gas st2) (st_value st2) (st_world st2)")
      (auto simp: executed_def at_rest_def same_msg_def guards_def)
qed

lemma refund_field: "bal (s\<lparr>refund := r\<rparr>) = bal s" "total (s\<lparr>refund := r\<rparr>) = total s" "sound s \<Longrightarrow> 0 \<le> r \<Longrightarrow> sound (s\<lparr>refund := r\<rparr>)"
proof -
  show b: "bal (s\<lparr>refund := r\<rparr>) = bal s" by (auto simp: fun_eq_iff bal_eq cong: option.case_cong)
  show "total (s\<lparr>refund := r\<rparr>) = total s" "sound s \<Longrightarrow> 0 \<le> r \<Longrightarrow> sound (s\<lparr>refund := r\<rparr>)"
    using b by (simp_all add: total_def sound_def revisions_ok_def)
qed

text \<open>What is given back, and the fee that is left for the miner.\<close>

lemma refundGas_ok:
  fixes env :: evm_env
  assumes "sound (db st)" "0 \<le> st_gasPrice st" "uint (st_gas st) \<le> st_initialGas st" "st_initialGas st < 2 ^ 64"
  defines "t \<equiv> refundGas env st" and "r \<equiv> min (gasUsed st div 2) (refund (db (snd (st_from env st))))"
  shows "0 \<le> r" "same_msg st t" "uint (st_gas t) = uint (st_gas st) + r" "st_initialGas t = st_initialGas st" "sound (db t)"
    "total (db t) = total (db st) + uint (st_gas t) * st_gasPrice st" "st_gp t = st_gp st + uint (st_gas t)"
proof -
  obtain a st1 where f: "st_from env st = (a, st1)" by fastforce
  have r1: "at_rest st st1" using from_at_rest [OF f] by simp
  then have st1: "sound (db st1)" "total (db st1) = total (db st)" "st_gas st1 = st_gas st" "st_initialGas st1 = st_initialGas st"
    "st_gasPrice st1 = st_gasPrice st" "st_gp st1 = st_gp st" "same_msg st st1"
    using assms(1) total_bal [of "db st1" "db st"] by (auto simp: at_rest_def same_msg_def)
  let ?rem = "uint (st_gas st) * st_gasPrice st" and ?b = "bk env"
  define s2 where "s2 = AddBalance ?b a ?rem (db st1)"
  note s2 = AddBalance_sound [OF st1(1), of ?rem ?b a, folded s2_def]
  have s2': "sound s2" "total s2 = total (db st) + ?rem" "refund s2 = refund (db st1)" using s2 assms(2) st1(2) by simp_all
  have r: "r = min (gasUsed st div 2) (refund (db st1))" by (simp add: r_def f)
  have gu: "0 \<le> gasUsed st" using assms(3) by (simp add: gasUsed_def)
  show r0: "0 \<le> r" using st1(1) gu by (simp add: r sound_def)
  have r2: "uint (st_gas st) + r \<le> st_initialGas st" using gu by (auto simp: r gasUsed_def min_def)
  have bm: "BigMin (big_Div (gasUsed st1) 2) (GetRefund s2) = r" "big_Div (gasUsed st1) 2 = gasUsed st div 2"
    using st1 s2'(3) by (auto simp: BigMin_def big_Div_def GetRefund_def r gasUsed_def min_def)
  define s3 where "s3 = (if gasUsed st div 2 > GetRefund s2 then s2\<lparr>refund := r * st_gasPrice st\<rparr> else s2)"
  have s3: "sound s3" "total s3 = total s2" using refund_field [where s = s2 and r = "r * st_gasPrice st"] s2'(1) r0 assms(2) by (auto simp: s3_def)
  define s4 where "s4 = AddBalance ?b a (r * st_gasPrice st) s3"
  note s4 = AddBalance_sound [OF s3(1), of "r * st_gasPrice st" ?b a, folded s4_def]
  have t: "t = with_db (st1\<lparr>st_gas := st_gas st + big_Uint64 r, st_gp := st_gp st + uint (st_gas st + big_Uint64 r)\<rparr>) s4"
    using bm by (simp add: t_def refundGas_def f Let_def AddGas_def st1 flip: s2_def s3_def s4_def) (simp add: s4_def s3_def)
  have "r < 2 ^ 64" using r2 assms(4) uint_ge_0 [of "st_gas st"] by linarith
  then have "uint (big_Uint64 r) = r" using r0 by (simp add: big_Uint64_def uint_word_of_int)
  then show g: "uint (st_gas t) = uint (st_gas st) + r" using r2 assms(4) r0 by (simp add: t uint_word_ariths)
  show "same_msg st t" "st_initialGas t = st_initialGas st" "st_gp t = st_gp st + uint (st_gas t)"
    using st1 by (simp_all add: t same_msg_def)
  show "sound (db t)" "total (db t) = total (db st) + uint (st_gas t) * st_gasPrice st"
    using s4 s3 s2' r0 assms(2) g by (simp_all add: t algebra_simps)
qed

lemma IntrinsicGas_nonneg: "0 \<le> IntrinsicGas data c h"
  using length_filter_le [of "\<lambda>byt. byt \<noteq> 0" data]
  by (simp add: IntrinsicGas_def Let_def)

text \<open>The books of a transaction that bought \<open>mgas\<close> gas out of \<open>pool\<close> for \<open>price\<close> each.\<close>

definition settled :: "int \<Rightarrow> int \<Rightarrow> int \<Rightarrow> int \<Rightarrow> tx_result vm \<Rightarrow> bool" where
  "settled pool mgas igas supply r \<longleftrightarrow>
     (case r of
        Ok (ret, Some required, Some used, failed, None, t) \<Rightarrow>
          igas \<le> required \<and> required \<le> mgas \<and> used \<le> required \<and> required \<le> 2 * used \<and> st_gp t = pool - used \<and>
          total (db t) \<le> supply \<and> (\<forall>a. 0 \<le> bal (db t) a)
      | Ok (ret, required, used, failed, err, t) \<Rightarrow> required = None \<and> used = None \<and> err \<noteq> None
      | Err e \<Rightarrow> False
      | Panic \<Rightarrow> True)"

lemma settled_fail [simp]: "settled pool mgas igas supply (tx_fail (Some e) st)"
  by (simp add: settled_def tx_fail_def)

lemma tx_finish_settled:
  assumes "sound (db st)" "0 \<le> st_gasPrice st" "uint (st_gas st) + igas \<le> st_initialGas st" "st_initialGas st < 2 ^ 64" "0 \<le> igas"
  shows "settled (st_gp st + st_initialGas st) (st_initialGas st) igas (total (db st) + st_initialGas st * st_gasPrice st) (tx_finish env ret vmerr st)"
proof -
  let ?t = "refundGas env st"
  have le: "uint (st_gas st) \<le> st_initialGas st" using assms(3,5) by linarith
  note r = refundGas_ok [OF assms(1,2) le assms(4), of env]
  have half: "min (gasUsed st div 2) (refund (db (snd (st_from env st)))) \<le> gasUsed st div 2" by simp
  have u: "gasUsed ?t = gasUsed st - min (gasUsed st div 2) (refund (db (snd (st_from env st))))"
    using r(3,4) by (simp add: gasUsed_def)
  have g0: "0 \<le> gasUsed ?t" using u half le by (simp add: gasUsed_def)
  have p: "st_gasPrice ?t = st_gasPrice st" using r(2) by (simp add: same_msg_def)
  have fee: "0 \<le> gasUsed ?t * st_gasPrice st" using g0 assms(2) by simp
  note c = AddBalance_sound [OF r(5) fee, of "bk env" "Coinbase (ctx env)"]
  have "total (db st) + uint (st_gas ?t) * st_gasPrice st + gasUsed ?t * st_gasPrice st = total (db st) + st_initialGas st * st_gasPrice st"
    using r(4) by (simp add: gasUsed_def algebra_simps)
  then show ?thesis
    using c r(1,6,7) u half assms(3) p r(4)
    by (auto simp: settled_def tx_finish_def Let_def sound_def gasUsed_def)
qed

lemma TransitionDb_settled:
  assumes env: "metered env" "fair env" and s: "sound (w_db w)"
    and msg: "0 \<le> msg_Gas msg" "0 \<le> msg_GasPrice msg" "0 \<le> msg_Value msg" "nat (msg_Gas msg) < n"
  shows "settled pool (msg_Gas msg) (IntrinsicGas (msg_Data msg) (To msg = None) (IsHomestead (chainConfig env) (BlockNumber (ctx env))))
    (total (w_db w)) (TransitionDb n env (NewStateTransition msg pool w))"
proof -
  let ?st = "NewStateTransition msg pool w" and ?g = "msg_Gas msg"
  let ?ig = "IntrinsicGas (msg_Data msg) (To msg = None) (IsHomestead (chainConfig env) (BlockNumber (ctx env)))"
  have st: "st_msg ?st = msg" "st_gas ?st = 0" "st_gasPrice ?st = msg_GasPrice msg" "st_value ?st = msg_Value msg" "st_data ?st = msg_Data msg"
    "st_gp ?st = pool" "db ?st = w_db w"
    by (simp_all add: NewStateTransition_def)
  obtain e st1 where pc: "preCheck env ?st = (e, st1)" by fastforce
  obtain sender st2 where f: "st_from env st1 = (sender, st2)" by fastforce
  obtain e' st3 where u: "useGas (big_Uint64 ?ig) st2 = (e', st3)" by fastforce
  show ?thesis
  proof (cases "e = None \<and> e' = None \<and> \<not> 64 < big_BitLen ?ig")
    case False
    have "st_data st2 = msg_Data msg \<and> st_msg st2 = msg" if "e = None"
      using preCheck_bought [of env ?st st1] pc that s msg from_at_rest [OF f] by (auto simp: bought_def at_rest_def same_msg_def st)
    then show ?thesis using False pc f u by (cases e; cases e') (auto simp: TransitionDb_def Let_def)
  next
    case True
    then have "bought ?st st1" using pc s msg by (intro preCheck_bought) (simp_all add: st)
    then have b: "same_msg ?st st2" "sound (db st2)" "total (db st2) = total (w_db w) - ?g * msg_GasPrice msg" "st_gp st2 = pool - ?g"
      "uint (st_gas st2) = ?g" "st_initialGas st2 = ?g"
      using from_at_rest [OF f] total_bal [of "db st2" "db st1"] by (auto simp: bought_def at_rest_def same_msg_def st)
    have igv: "uint (big_Uint64 ?ig) = ?ig" using True IntrinsicGas_nonneg by (intro Uint64_fits) auto
    have st3: "st3 = st2\<lparr>st_gas := st_gas st2 - big_Uint64 ?ig\<rparr>" "\<not> st_gas st2 < big_Uint64 ?ig"
      using u True by (auto simp: useGas_def split: if_splits)
    then have g3: "uint (st_gas st3) = ?g - ?ig" using b(5) igv by (simp add: uint_sub_lem [THEN iffD1] word_le_def not_less)
    have lt: "?g < 2 ^ 64" using b(5) uint_lt2p [of "st_gas st2"] by simp
    have "nat (?g - ?ig) \<le> nat ?g" using IntrinsicGas_nonneg by (intro nat_mono) simp
    then have "unat (st_gas st3) < n" using g3 msg(4) by (simp add: unat_eq_nat_uint)
    moreover have "executed n st3 (tx_execute n env sender st3)"
      using b st3(1) msg(3) by (intro tx_execute_ok env) (simp_all add: same_msg_def st)
    moreover have "TransitionDb n env ?st = bind_outcome (tx_execute n env sender st3) (\<lambda>(ret, vmerr, st).
        if vmerr = Some ErrInsufficientBalance then tx_fail (Some (errVM ErrInsufficientBalance)) st else tx_finish env ret vmerr st)"
      using True pc f u b(1) by (simp add: TransitionDb_def Let_def same_msg_def st)
    moreover have "settled pool ?g ?ig (total (w_db w)) (tx_finish env ret vmerr t)"
      if "executed n st3 (Ok (ret, vmerr, t))" for ret vmerr t
    proof -
      have t: "same_msg st3 t" "st_gp t = pool - ?g" "st_initialGas t = ?g" "uint (st_gas t) \<le> ?g - ?ig" "sound (db t)"
        "total (db t) \<le> total (w_db w) - ?g * msg_GasPrice msg"
        using that b g3 by (auto simp: executed_def st3(1) word_le_def)
      have p: "st_gasPrice t = msg_GasPrice msg" using t(1) b(1) by (simp add: same_msg_def st3(1) st)
      have "settled (st_gp t + st_initialGas t) (st_initialGas t) ?ig (total (db t) + st_initialGas t * st_gasPrice t) (tx_finish env ret vmerr t)"
        using t p msg lt IntrinsicGas_nonneg by (intro tx_finish_settled) simp_all
      then show ?thesis
        using t p by (auto simp: settled_def tx_finish_def Let_def)
    qed
    ultimately show ?thesis
      by (cases "tx_execute n env sender st3") (auto simp: executed_def settled_def tx_fail_def)
  qed
qed

section \<open>A transaction to the range proof contract\<close>

text \<open>A call from outside of the range proof contract with input that the validator accepts.\<close>

lemma Call_range_contract:
  assumes "sound (w_db w)" "w_depth w = 0" "IsMetropolis (chainConfig env) (BlockNumber (ctx env))"
    and run: "Run (prm env) zkpRangeProof input = Ok true32Byte" and gas: "180000 \<le> gas"
  shows "\<exists>w'. Call n env (AccountRef a) 9 input gas 0 w = Ok (true32Byte, gas - 180000, None, w')"
proof -
  let ?b = "bk env"
  obtain can s where can: "CanTransfer a 0 (w_db w) = (can, s)" by fastforce
  obtain snap s1 where snap: "Snapshot s = (snap, s1)" by fastforce
  obtain ex s2 where ex: "Exist 9 s1 = (ex, s2)" by fastforce
  define s3 where "s3 = Transfer ?b a 9 0 (if ex then s2 else CreateAccount ?b 9 s2)"
  obtain c s4 where lc: "load_code env 9 (NewContract (AccountRef a) (AccountRef 9) 0 gas) s3 = (c, s4)" by fastforce
  have c: "Gas c = gas" "CodeAddr c = Some 9"
    using lc by (auto simp: load_code_def code_of_def SetCallCode_def NewContract_def split: prod.splits)
  have can': can using CanTransfer_bal(1) [OF can] assms(1) by (simp add: sound_def)
  have p: "precompiles env 9 = Some zkpRangeProof"
    using assms(3) range_contract_address by (simp add: precompiles_def)
  have r: "RunPrecompiledContract (prm env) zkpRangeProof input c = (Ok true32Byte, c\<lparr>Gas := gas - 180000\<rparr>)"
    using range_contract_runs [OF run, of c] gas c(1) by simp
  have "bind_outcome (with_dests (AccountRef a) (evm_run env (run_loop env n) c input) (w\<lparr>w_db := s4\<rparr>)) (settle snap)
      = Ok (true32Byte, gas - 180000, None, w\<lparr>w_db := s4, w_dests := Map.empty\<rparr>)"
    by (simp add: with_dests_def evm_run_def c p r settle_def)
  then show ?thesis
    using can can' snap ex lc p assms(2) by (auto simp: Call_def evm_Call_def Let_def s3_def)
qed

lemma nonce_observe: "fst (GetNonce a s) = (case ob_account (observe b s) a of None \<Rightarrow> 0 | Some c \<Rightarrow> a_nonce c)"
  by (auto simp: GetNonce_def observe_def acct_of_def split: prod.split option.split)

lemma ensure_nonce:
  assumes "sound (db st)"
  shows "fst (GetNonce a (db (ensure_account env a st))) = fst (GetNonce a (db st))"
proof -
  have wf: "wf_objects (db st)" using assms by (simp add: sound_def)
  obtain r s where r: "getStateObject a (db st) = (r, s)" by fastforce
  have s: "observe (bk env) s = observe (bk env) (db st)" using getStateObject_same(1) [of "bk env" a "db st"] r by simp
  show ?thesis
  proof (cases r)
    case None
    obtain c prev t where t: "createObject (bk env) a s = (c, prev, t)" by (cases "createObject (bk env) a s") auto
    have n: "s = db st" "ob_account (observe (bk env) (db st)) a = None" using getStateObject_None [of a "db st" s] r None by auto
    then have "prev = None" using createObject_bal(6) [OF t] r None by simp
    moreover have "live (bk env) t a c" "Nonce (so_data c) = 0"
      using createObject_extends(1,3) [OF _ t] wf n(1) by (simp_all add: zeroAccount_def)
    ultimately have "fst (GetNonce a (CreateAccount (bk env) a s)) = 0"
      using t by (simp add: CreateAccount_def nonce_observe [where b = "bk env"] live_def acct_of_def)
    then show ?thesis
      using r None n by (simp add: ensure_account_def Exist_def nonce_observe [where b = "bk env"])
  next
    case (Some so)
    then show ?thesis using r s by (simp add: ensure_account_def Exist_def nonce_observe [where b = "bk env"])
  qed
qed

lemma buyGas_succeeds:
  assumes "sound (db st)" "\<not> 64 < big_BitLen (msg_Gas (st_msg st))" "msg_Gas (st_msg st) * st_gasPrice st \<le> bal (db st) (From (st_msg st))"
    "msg_Gas (st_msg st) \<le> st_gp st"
  shows "\<exists>t. buyGas env st = (None, t)"
proof -
  obtain a st1 where f: "st_from env st = (a, st1)" by fastforce
  obtain x s where x: "GetBalance a (db st1) = (x, s)" by fastforce
  have r: "a = From (st_msg st)" "at_rest st st1" using from_at_rest [OF f] by auto
  have "x = bal (db st1) a" using x by (simp add: bal_def)
  then have "x = bal (db st) a" "st_gp st1 = st_gp st" using r(2) assms(1) by (auto simp: at_rest_def)
  then show ?thesis using assms f x r(1) by (simp add: buyGas_def Let_def SubGas_def)
qed

lemma preCheck_succeeds:
  assumes "sound (db st)" "\<not> 64 < big_BitLen (msg_Gas (st_msg st))" "msg_Gas (st_msg st) * st_gasPrice st \<le> bal (db st) (From (st_msg st))"
    "msg_Gas (st_msg st) \<le> st_gp st" "CheckNonce (st_msg st) \<longrightarrow> msg_Nonce (st_msg st) = fst (GetNonce (From (st_msg st)) (db st))"
  shows "\<exists>t. preCheck env st = (None, t)"
proof -
  let ?a = "From (st_msg st)"
  define st1 where "st1 = ensure_account env ?a st"
  have f: "st_from env st = (?a, st1)" by (simp add: st_from_def st1_def Let_def)
  obtain x s where x: "GetNonce ?a (db st1) = (x, s)" by fastforce
  have r1: "at_rest st1 (with_db st1 s)"
    using guards_query(4) [OF x] idle_lookup [of "db st1" ?a] query_state(4) [of ?a "db st1"] x by (intro at_rest_db) (auto simp: idle_def)
  have r: "at_rest st st1" unfolding st1_def by (rule ensure_at_rest)
  have n: "x = fst (GetNonce ?a (db st))" using ensure_nonce [OF assms(1), of ?a env] x by (simp add: st1_def)
  have "\<exists>t. buyGas env st2 = (None, t)" if "at_rest st st2" for st2
    using that assms by (intro buyGas_succeeds) (auto simp: at_rest_def same_msg_def)
  then have "\<exists>t. buyGas env st1 = (None, t)" "\<exists>t. buyGas env (with_db st1 s) = (None, t)"
    using r at_rest_trans [OF r r1] by blast+
  moreover have "st_msg st1 = st_msg st" using r by (simp add: at_rest_def same_msg_def)
  ultimately show ?thesis using f x n assms(5) by (simp add: preCheck_def Let_def)
qed

lemma tx_execute_range:
  assumes "sound (db st)" "w_depth (st_world st) = 0" "To (st_msg st) = Some 9" "st_value st = 0" "180000 \<le> st_gas st"
    and "IsMetropolis (chainConfig env) (BlockNumber (ctx env))" "Run (prm env) zkpRangeProof (st_data st) = Ok true32Byte"
  shows "\<exists>t. tx_execute n env sender st = Ok (true32Byte, None, t) \<and> st_gas t = st_gas st - 180000 \<and> st_initialGas t = st_initialGas st"
proof -
  obtain x s where x: "GetNonce sender (db st) = (x, s)" by fastforce
  let ?st1 = "with_db st (SetNonce (bk env) sender (x + 1) s)"
  obtain a st2 where a: "st_to env ?st1 = (a, st2)" by fastforce
  have s: "guards (db st) s" "idle (db st) s"
    using guards_query(4) [OF x] idle_lookup [of "db st" sender] query_state(4) [of sender "db st"] x by simp_all
  have "wf_objects s" using s(1) assms(1) by (simp add: guards_def sound_def)
  then have "at_rest st ?st1"
    using guards_trans [OF s(1) guards_changes(1)] s(2) bal_changes(5) [of s "bk env" sender "x + 1"]
    by (intro at_rest_db) (auto simp: idle_def)
  then have r: "at_rest st st2" using to_at_rest [OF a] at_rest_trans by blast
  have a9: "a = 9" using a assms(3) by (simp add: st_to_def)
  have st2: "sound (db st2)" "w_depth (st_world st2) = 0" "st_gas st2 = st_gas st" "st_value st2 = 0" "st_data st2 = st_data st"
    "st_initialGas st2 = st_initialGas st"
    using r assms by (auto simp: at_rest_def same_msg_def)
  obtain w' where "Call n env (AccountRef sender) 9 (st_data st) (st_gas st) 0 (st_world st2) = Ok (true32Byte, st_gas st - 180000, None, w')"
    using Call_range_contract [OF st2(1,2) assms(6,7,5)] by blast
  then show ?thesis using x a a9 assms(3) st2 by (simp add: tx_execute_def Let_def)
qed

lemma IntrinsicGas_bound: "IntrinsicGas data c h \<le> 53000 + 68 * int (length data)"
proof -
  define nz where "nz = int (length (filter (\<lambda>byt. byt \<noteq> 0) data))"
  have "nz \<le> int (length data)" by (simp add: nz_def)
  then show ?thesis
    by (simp add: IntrinsicGas_def Let_def flip: nz_def)
qed

lemma TransitionDb_range:
  assumes run: "Run (prm env) zkpRangeProof (msg_Data msg) = Ok true32Byte"
    and metro: "IsMetropolis (chainConfig env) (BlockNumber (ctx env))"
    and w: "sound (w_db w)" "w_depth w = 0"
    and msg: "To msg = Some 9" "msg_Value msg = 0" "0 \<le> msg_GasPrice msg" "CheckNonce msg \<longrightarrow> msg_Nonce msg = fst (GetNonce (From msg) (w_db w))"
      "igas = IntrinsicGas (msg_Data msg) False (IsHomestead (chainConfig env) (BlockNumber (ctx env)))"
      "igas + 180000 \<le> msg_Gas msg" "msg_Gas msg < 2 ^ 64" "msg_Gas msg \<le> pool" "msg_Gas msg * msg_GasPrice msg \<le> bal (w_db w) (From msg)"
  shows "\<exists>used st. TransitionDb n env (NewStateTransition msg pool w) = Ok (true32Byte, Some (igas + 180000), Some used, False, None, st)"
proof -
  let ?st = "NewStateTransition msg pool w"
  have st: "st_msg ?st = msg" "st_gas ?st = 0" "st_gasPrice ?st = msg_GasPrice msg" "st_value ?st = 0" "st_data ?st = msg_Data msg"
    "st_gp ?st = pool" "db ?st = w_db w" "w_depth (st_world ?st) = 0"
    by (simp_all add: NewStateTransition_def msg w)
  have ig0: "0 \<le> igas" using IntrinsicGas_nonneg msg(5) by simp
  have bl: "\<not> 64 < big_BitLen x" if "0 \<le> x" "x < 2 ^ 64" for x
    using that nat_bitlen_le_iff [of "nat x" 64] by (simp add: big_BitLen_def nat_less_iff)
  have g0: "0 \<le> msg_Gas msg" using ig0 msg(6) by linarith
  obtain st1 where pc: "preCheck env ?st = (None, st1)"
    using preCheck_succeeds [of ?st env] bl [OF g0 msg(7)] w msg st by auto
  obtain sender st2 where f: "st_from env st1 = (sender, st2)" by fastforce
  have "bought ?st st1" using pc w msg g0 by (intro preCheck_bought) (simp_all add: st)
  then have b: "same_msg ?st st2" "sound (db st2)" "uint (st_gas st2) = msg_Gas msg" "st_initialGas st2 = msg_Gas msg" "w_depth (st_world st2) = 0"
    using from_at_rest [OF f] by (auto simp: bought_def at_rest_def same_msg_def st)
  have igl: "igas < 2 ^ 64" using msg(6,7) by linarith
  have igv: "uint (big_Uint64 igas) = igas" using bl [OF ig0 igl] by (rule Uint64_fits [OF ig0])
  have le: "\<not> st_gas st2 < big_Uint64 igas" using b(3) igv msg(6) by (simp add: word_less_def)
  define st3 where "st3 = st2\<lparr>st_gas := st_gas st2 - big_Uint64 igas\<rparr>"
  have g3: "uint (st_gas st3) = msg_Gas msg - igas"
    using le b(3) igv by (simp add: st3_def uint_sub_lem [THEN iffD1] word_le_def not_less)
  have e: "180000 \<le> st_gas st3" using g3 msg(6) by (simp add: word_le_def)
  obtain t where t: "tx_execute n env sender st3 = Ok (true32Byte, None, t)" "st_gas t = st_gas st3 - 180000" "st_initialGas t = msg_Gas msg"
    using tx_execute_range [of st3 env n sender] b e run metro msg(1) st by (auto simp: st3_def same_msg_def)
  have "uint (st_gas t) = msg_Gas msg - igas - 180000" using t(2) g3 e by (simp add: uint_sub_lem [THEN iffD1] word_le_def)
  then have "gasUsed t = igas + 180000" using t(3) by (simp add: gasUsed_def)
  moreover have "TransitionDb n env ?st = tx_finish env true32Byte None t"
    using pc f le bl [OF ig0 igl] b(1) st msg(1) t(1)
    by (simp add: TransitionDb_def Let_def useGas_def same_msg_def st3_def flip: msg(5))
  ultimately show ?thesis by (simp add: tx_finish_def Let_def)
qed

text \<open>The counter of the state after \<open>refundGas\<close>: when it is below half of the used gas, it has been multiplied by the price.\<close>

lemma refund_counter_scaled:
  assumes "sound (db st)" "0 \<le> st_gasPrice st" "st_from env st = (From (st_msg st), st)" "refund (db st) < gasUsed st div 2"
  shows "GetRefund (db (refundGas env st)) = GetRefund (db st) * st_gasPrice st"
proof -
  define s2 where "s2 = AddBalance (bk env) (From (st_msg st)) (uint (st_gas st) * st_gasPrice st) (db st)"
  have s2: "sound s2" "refund s2 = refund (db st)"
    using AddBalance_sound [OF assms(1), of "uint (st_gas st) * st_gasPrice st" "bk env" "From (st_msg st)"] assms(2) by (simp_all add: s2_def)
  define s3 where "s3 = s2\<lparr>refund := refund (db st) * st_gasPrice st\<rparr>"
  have "0 \<le> refund (db st)" using assms(1) by (simp add: sound_def)
  then have "sound s3" unfolding s3_def using s2(1) assms(2) by (intro refund_field) simp_all
  then have "refund (AddBalance (bk env) (From (st_msg st)) (refund (db st) * st_gasPrice st) s3) = refund (db st) * st_gasPrice st"
    using AddBalance_sound(3) [of s3 "refund (db st) * st_gasPrice st"] \<open>0 \<le> refund (db st)\<close> assms(2) by (simp add: s3_def)
  then show ?thesis
    using assms(3,4) s2(2) by (simp add: refundGas_def Let_def BigMin_def GetRefund_def big_Div_def flip: s2_def s3_def)
qed

text \<open>The sample machine with a hash function whose digests have 32 bytes.\<close>

definition range_env :: evm_env where
  "range_env = sample_env\<lparr>prm := (prm sample_env)\<lparr>prim_sha256 := (\<lambda>bs. replicate 32 7)\<rparr>\<rparr>"

section \<open>Properties\<close>

text \<open>C4: The books of a transaction balance. With metering on and more fuel than gas, \<open>TransitionDb\<close> never runs out of fuel; when it does not panic and
  reports no error, the gas it required is at least the intrinsic gas and at most the gas of the message, the refund is at most
  half of it, the block's gas pool has paid for exactly the used gas, no balance is negative, and the sum of all
  balances (sender, recipients and miner included) has not grown. When it reports an error, it reports no gas.\<close>

theorem transaction_accounting:
  assumes "metered env" "fair env" "sound (w_db w)"
    "0 \<le> msg_Gas msg" "0 \<le> msg_GasPrice msg" "0 \<le> msg_Value msg" "nat (msg_Gas msg) < n"
  shows "case TransitionDb n env (NewStateTransition msg pool w) of
      Ok (ret, Some required, Some used, failed, None, t) \<Rightarrow>
        IntrinsicGas (msg_Data msg) (To msg = None) (IsHomestead (chainConfig env) (BlockNumber (ctx env))) \<le> required \<and>
        required \<le> msg_Gas msg \<and> used \<le> required \<and> required \<le> 2 * used \<and> st_gp t = pool - used \<and>
        total (w_db (st_world t)) \<le> total (w_db w) \<and> (\<forall>a. 0 \<le> bal (w_db (st_world t)) a)
    | Ok (ret, required, used, failed, err, t) \<Rightarrow> required = None \<and> used = None \<and> err \<noteq> None
    | Err e \<Rightarrow> False
    | Panic \<Rightarrow> True"
  using TransitionDb_settled [OF assms] unfolding settled_def .

theorem transaction_accounting_witness:
  "case TransitionDb 30001 sample_env (NewStateTransition
       \<lparr>From = 1, To = Some 100, msg_GasPrice = 0, msg_Gas = 30000, msg_Value = 7, msg_Nonce = 0, CheckNonce = True, msg_Data = [1, 0, 2]\<rparr>
       50000 (sample_world [0x5b, 0x60, 0, 0x56])) of
      Ok (ret, Some required, Some used, failed, None, t) \<Rightarrow>
        21140 \<le> required \<and> required \<le> 30000 \<and> used \<le> required \<and> required \<le> 2 * used \<and> st_gp t = 50000 - used \<and>
        total (w_db (st_world t)) \<le> total (w_db (sample_world [0x5b, 0x60, 0, 0x56])) \<and> (\<forall>a. 0 \<le> bal (w_db (st_world t)) a)
    | Ok (ret, required, used, failed, err, t) \<Rightarrow> required = None \<and> used = None \<and> err \<noteq> None
    | Err e \<Rightarrow> False
    | Panic \<Rightarrow> True"
proof -
  have f: "fair sample_env" by (simp add: fair_def sample_env_def)
  have ig: "IntrinsicGas [1, 0, 2] (Some (100 :: address) = None) h = 21140" for h by code_simp
  show ?thesis
    using transaction_accounting [OF metered_sample f sample_sound [of "[0x5b, 0x60, 0, 0x56]"], where n = 30001 and pool = 50000 and
        msg = "\<lparr>From = 1, To = Some 100, msg_GasPrice = 0, msg_Gas = 30000, msg_Value = 7, msg_Nonce = 0, CheckNonce = True, msg_Data = [1, 0, 2]\<rparr>"]
    unfolding Message.simps ig by simp
qed

text \<open>C1: From the prover to the transaction: for a committed number inside the range, the packet of the Java prover, put with the printed
  commitment into the input of a transaction without value to address 9 that offers at least 180000 gas more than its intrinsic
  gas, makes the transaction return the word 1, succeed, and require exactly 180000 gas besides the intrinsic gas. The sender must be able to pay and the
  input is shorter than \<open>2\<^sup>5\<^sup>6\<close> bytes.\<close>

theorem range_proof_transaction:
  assumes "random_fair rand" and "\<forall>bs. length (prim_sha256 (prm env) bs) = 32"
    and "1 < N" "coprime g N" "coprime h N" and "0 \<le> lo" "lo \<le> x" "x \<le> up" "up < 2 ^ 256"
    and "commit \<lparr>getN = N, getG = g, getH = h\<rparr> x y = Ok com"
    and "length sel = 4" "length wd = 32"
    and "IsMetropolis (chainConfig env) (BlockNumber (ctx env))" "sound (w_db w)" "w_depth w = 0"
    and "0 \<le> price" "0 \<le> spare" "spare < 2 ^ 32" "2 ^ 64 \<le> pool"
  shows "\<exists>packet n'.
    RangeproofPacket rand (prim_sha256 (prm env)) \<lparr>getCommitment = com, getX = x, getY = y\<rparr> \<lparr>getStart = lo, getEnd = up\<rparr> n
      = Some (Ok (packet, n')) \<and>
    (\<forall>pad pad'.
       let data = abi_input sel lo up wd (join_commas (map print_int [getCommitmentValue com, N, g, h])) pad packet pad';
           igas = IntrinsicGas data False (IsHomestead (chainConfig env) (BlockNumber (ctx env)));
           msg = \<lparr>From = sender, To = Some (BytesToAddress [9]), msg_GasPrice = price, msg_Gas = igas + 180000 + spare, msg_Value = 0,
                  msg_Nonce = fst (GetNonce sender (w_db w)), CheckNonce = True, msg_Data = data\<rparr>
       in 2 ^ 56 \<le> length data \<or> bal (w_db w) sender < msg_Gas msg * price \<or>
          (\<exists>used st. TransitionDb m env (NewStateTransition msg pool w) = Ok (true32Byte, Some (igas + 180000), Some used, False, None, st)))"
proof -
  obtain packet n' where
    pk: "RangeproofPacket rand (prim_sha256 (prm env)) \<lparr>getCommitment = com, getX = x, getY = y\<rparr> \<lparr>getStart = lo, getEnd = up\<rparr> n = Some (Ok (packet, n'))"
    and run: "\<And>inp pad pad'. inp = abi_input sel lo up wd (join_commas (map print_int [getCommitmentValue com, N, g, h])) pad packet pad' \<Longrightarrow>
      length inp < 2 ^ 62 \<Longrightarrow> Run (prm env) zkpRangeProof inp = Ok true32Byte"
    using honest_Run [OF assms(1-12), of n] by blast
  have "2 ^ 56 \<le> length data \<or> bal (w_db w) sender < msg_Gas msg * price \<or>
      (\<exists>used st. TransitionDb m env (NewStateTransition msg pool w) = Ok (true32Byte, Some (igas + 180000), Some used, False, None, st))"
    if data: "data = abi_input sel lo up wd (join_commas (map print_int [getCommitmentValue com, N, g, h])) pad packet pad'"
      and igas: "igas = IntrinsicGas data False (IsHomestead (chainConfig env) (BlockNumber (ctx env)))"
      and msg: "msg = \<lparr>From = sender, To = Some (BytesToAddress [9]), msg_GasPrice = price, msg_Gas = igas + 180000 + spare, msg_Value = 0,
          msg_Nonce = fst (GetNonce sender (w_db w)), CheckNonce = True, msg_Data = data\<rparr>" for data igas msg pad pad'
  proof -
    have "\<exists>used st. TransitionDb m env (NewStateTransition msg pool w) = Ok (true32Byte, Some (igas + 180000), Some used, False, None, st)"
      if "length data < 2 ^ 56" "msg_Gas msg * price \<le> bal (w_db w) sender"
    proof (rule TransitionDb_range)
      have "int (length data) \<le> 2 ^ 56" using that(1) by simp
      then have "igas \<le> 53000 + 68 * 2 ^ 56" using IntrinsicGas_bound [of data False] unfolding igas by (meson add_left_mono mult_left_mono order_trans zero_le_numeral)
      then show "msg_Gas msg < 2 ^ 64" "msg_Gas msg \<le> pool" using assms(18,19) by (simp_all add: msg)
      show "Run (prm env) zkpRangeProof (msg_Data msg) = Ok true32Byte" using run [OF data] that(1) by (simp add: msg del: Run.simps)
    qed (use assms that(2) igas range_contract_address(2) in \<open>simp_all add: msg\<close>)
    then show ?thesis by (meson not_le)
  qed
  note main = this [OF refl refl refl]
  show ?thesis
    by (intro exI conjI allI, rule pk) (unfold Let_def, rule main)
qed

theorem range_proof_transaction_witness:
  "\<exists>packet n'.
    RangeproofPacket (\<lambda>n lo hi. (lo + hi) div 2) (\<lambda>bs. replicate 32 7)
      \<lparr>getCommitment = \<lparr>getGroup = \<lparr>getN = 35, getG = 4, getH = 9\<rparr>, getCommitmentValue = 11\<rparr>, getX = 18, getY = 2\<rparr>
      \<lparr>getStart = 18, getEnd = 200\<rparr> 0 = Some (Ok (packet, n')) \<and>
    (\<forall>pad pad'.
       let data = abi_input [0, 0, 0, 0] 18 200 (replicate 32 0) (join_commas (map print_int [11, 35, 4, 9])) pad packet pad';
           igas = IntrinsicGas data False True;
           msg = \<lparr>From = 1, To = Some (BytesToAddress [9]), msg_GasPrice = 0, msg_Gas = igas + 180000 + 5, msg_Value = 0,
                  msg_Nonce = fst (GetNonce 1 (w_db (sample_world []))), CheckNonce = True, msg_Data = data\<rparr>
       in 2 ^ 56 \<le> length data \<or>
          (\<exists>used st. TransitionDb 3 range_env (NewStateTransition msg (2 ^ 64) (sample_world []))
             = Ok (true32Byte, Some (igas + 180000), Some used, False, None, st)))"
proof -
  let ?com = "\<lparr>getGroup = \<lparr>getN = 35, getG = 4, getH = 9\<rparr>, getCommitmentValue = 11\<rparr>"
  have fair: "random_fair (\<lambda>n lo hi. (lo + hi) div 2)" by (simp add: random_fair_def)
  have cop: "coprime (4 :: int) 35" "coprime (9 :: int) 35" by code_simp+
  have com: "commit \<lparr>getN = 35, getG = 4, getH = 9\<rparr> 18 2 = Ok ?com" by code_simp
  have m: "IsMetropolis (chainConfig range_env) (BlockNumber (ctx range_env))" by code_simp
  have h: "IsHomestead (chainConfig range_env) (BlockNumber (ctx range_env)) = True" by code_simp
  have sha: "\<forall>bs. length (prim_sha256 (prm range_env) bs) = 32" "prim_sha256 (prm range_env) = (\<lambda>bs. replicate 32 7)"
    by (simp_all add: range_env_def)
  have d: "w_depth (sample_world []) = 0" by (simp add: sample_world_def)
  have b: "\<not> bal (w_db (sample_world [])) 1 < 0" using sample_sound [of "[]"] by (simp add: sound_def not_less)
  show ?thesis
    using range_proof_transaction [OF fair sha(1) _ cop _ _ _ _ com _ _ m sample_sound [of "[]"] d,
        where lo = 18 and up = 200 and sel = "[0, 0, 0, 0]" and wd = "replicate 32 0" and price = 0 and spare = 5 and pool = "2 ^ 64" and n = 0
          and m = 3 and sender = 1]
    unfolding sha(2) h by (simp add: Let_def b)
qed

end
