(* ===== verification/ReadOnly.thy ===== *)
theory ReadOnly
  imports Supply
begin

text \<open>
  Static calls: an execution in the read-only mode of the interpreter changes no account, no log and not the refund. All it can do to the
  accounts is to create empty ones, as a call to an address without account or the transfer of nothing from one does. The calls of
  the interpreter enter through the locale \<open>observers\<close>. The mode is enforced before the height of the stack is tested, which makes a
  read-only \<open>CALL\<close> with a short stack panic.
\<close>

section \<open>Harmless changes of the accounts\<close>

text \<open>The account that \<open>createObject\<close> makes: no balance, no nonce and no code.\<close>

definition blank :: "backend \<Rightarrow> address \<Rightarrow> acct" where
  "blank b a = acct_of b (newObject a (zeroAccount b))"

definition same_accounts :: "backend \<Rightarrow> StateDB \<Rightarrow> StateDB \<Rightarrow> bool" where
  "same_accounts b s t \<longleftrightarrow>
     (\<forall>a. ob_account (observe b t) a = ob_account (observe b s) a \<or>
          ob_account (observe b s) a = None \<and> ob_account (observe b t) a = Some (blank b a)) \<and>
     refund t = refund s \<and> (\<forall>h. GetLogs h t = GetLogs h s)"

definition harmless :: "backend \<Rightarrow> StateDB \<Rightarrow> StateDB \<Rightarrow> bool" where
  "harmless b s t \<longleftrightarrow> (wf_objects s \<and> revisions_ok s \<longrightarrow> wf_objects t \<and> revisions_ok t \<and> same_accounts b s t)"

lemma blank_fields: "a_balance (blank b a) = 0" "a_nonce (blank b a) = 0" "a_code (blank b a) = None" "\<not> a_suicided (blank b a)"
  by (simp_all add: blank_def acct_of_eq newObject_def zeroAccount_def)

lemma same_accounts_refl [simp]: "same_accounts b s s"
  by (simp add: same_accounts_def)

lemma same_accounts_trans: "same_accounts b s t \<Longrightarrow> same_accounts b t u \<Longrightarrow> same_accounts b s u"
  unfolding same_accounts_def by (metis option.distinct(1))

lemma harmless_refl [simp, intro]: "harmless b s s"
  by (simp add: harmless_def)

lemma harmless_trans [trans]: "harmless b s t \<Longrightarrow> harmless b t u \<Longrightarrow> harmless b s u"
  using same_accounts_trans by (auto simp: harmless_def)

lemma same_observed: "observe b t = observe b s \<Longrightarrow> same_accounts b s t"
proof -
  assume o: "observe b t = observe b s"
  have "refund u = ob_refund (observe b u)" "GetLogs h u = ob_logs (observe b u) h" for u h by (simp_all add: observe_def)
  then show ?thesis using o by (simp add: same_accounts_def)
qed

lemma harmlessI: "(wf_objects s \<Longrightarrow> extends b s t) \<Longrightarrow> (wf_objects s \<Longrightarrow> same_accounts b s t) \<Longrightarrow> harmless b s t"
  using extends_ok [of b s t] by (auto simp: harmless_def)

named_theorems harmlessness \<open>operations that change no account\<close>

lemma harmless_queries [harmlessness]:
  "harmless b s (snd (getStateObject a s))" "harmless b s (snd (GetCode b a s))" "harmless b s (snd (GetState b a k s))"
proof -
  have "same_accounts b s (snd (GetCode b a s)) \<and> same_accounts b s (snd (GetState b a k s))" if "wf_objects s"
  proof (rule lookup_cases [OF that, of a b])
    fix c t assume c: "getStateObject a s = (Some c, t)" "so_address c = a" "\<not> deleted c"
      "ob_account (observe b s) a = Some (acct_of b c)" "observe b t = observe b s"
    obtain code c1 where c1: "obj_Code b c = (code, c1)" by fastforce
    obtain v c2 where c2: "obj_GetState b k c = (v, c2)" by fastforce
    show ?thesis
      using c c1 c2 obj_Code_acct [of b c] obj_GetState_acct [of b k c]
      by (auto simp: GetCode_def GetState_def observe_setStateObject fun_upd_idem intro!: same_observed)
  qed (simp add: GetCode_def GetState_def)
  then show "harmless b s (snd (getStateObject a s))" "harmless b s (snd (GetCode b a s))" "harmless b s (snd (GetState b a k s))"
    by (intro harmlessI; simp add: extends_queries same_observed getStateObject_same)+
qed

lemma harmless_Snapshot: "harmless b s (snd (Snapshot s))"
  using revisions_ok_Snapshot [of s] by (auto simp: harmless_def Snapshot_def Let_def intro!: same_observed)

lemma harmless_AddPreimage [harmlessness]: "harmless b s (AddPreimage h p s)"
proof (rule harmlessI [OF extends_AddPreimage])
  show "same_accounts b s (AddPreimage h p s)"
    by (auto simp: same_accounts_def AddPreimage_def append_journal_def observe_def getStateObject_def GetLogs_def Let_def setStateObject_def
        split: option.splits)
qed

lemma harmless_query [harmlessness]:
  "Exist a s = (e, t) \<Longrightarrow> harmless b s t" "Empty b' a s = (e, t) \<Longrightarrow> harmless b s t" "GetBalance a s = (x, t) \<Longrightarrow> harmless b s t"
  "GetNonce a s = (n, t) \<Longrightarrow> harmless b s t" "GetCodeSize b' a s = (z, t) \<Longrightarrow> harmless b s t"
  "GetCodeHash a s = (h, t) \<Longrightarrow> harmless b s t" "CanTransfer a x s = (e, t) \<Longrightarrow> harmless b s t"
  "GetCode b a s = (c, t) \<Longrightarrow> harmless b s t" "GetState b a k s = (v, t) \<Longrightarrow> harmless b s t" "Snapshot s = (i, t) \<Longrightarrow> harmless b s t"
  using harmless_queries [of b s a] query_state harmless_queries(3) [of b s a k] harmless_Snapshot [of b s]
  by (metis snd_conv)+

text \<open>A new account at an address that has none.\<close>

lemma createObject_same:
  assumes "wf_objects s" "createObject b a s = (c, prev, t)" "fst (getStateObject a s) = None"
  shows "same_accounts b s t" "ob_account (observe b t) a = Some (blank b a)" "acct_of b c = blank b a" "so_address c = a" "\<not> deleted c"
proof -
  have n: "getStateObject a s = (None, s)" "ob_account (observe b s) a = None"
    using assms(3) getStateObject_None [of a s _ b] by (cases "getStateObject a s"; simp)+
  have c: "c = (newObject a (zeroAccount b))\<lparr>onDirty := False\<rparr>" using createObject_extends(3) [OF assms(1,2)] .
  then show "acct_of b c = blank b a" "so_address c = a" "\<not> deleted c" by (simp_all add: blank_def)
  then have o: "observe b t = (observe b s)\<lparr>ob_account := (ob_account (observe b s))(a := Some (blank b a))\<rparr>"
    using assms(2) n by (auto simp: createObject_def Let_def observe_setStateObject MarkStateObjectDirty_def)
  have "refund u = ob_refund (observe b u)" "GetLogs h u = ob_logs (observe b u) h" for u h by (simp_all add: observe_def)
  then show "same_accounts b s t" "ob_account (observe b t) a = Some (blank b a)" using n(2) o by (auto simp: same_accounts_def)
qed

lemma harmless_CreateAccount:
  assumes "Exist a s = (False, t)"
  shows "harmless b t (CreateAccount b a t)"
proof (rule harmlessI [OF extends_CreateAccount])
  assume wf: "wf_objects t"
  have n: "fst (getStateObject a t) = None"
    using assms getStateObject_None [of a s t] by (cases "getStateObject a s") (auto simp: Exist_def)
  obtain c prev u where u: "createObject b a t = (c, prev, u)" by (cases "createObject b a t") auto
  then have "prev = None" using createObject_extends(4) [OF wf u] n by simp
  then show "same_accounts b t (CreateAccount b a t)" using createObject_same(1) [OF wf u n] u by (simp add: CreateAccount_def)
qed

lemma GetOrNew_same:
  assumes "wf_objects s" "GetOrNewStateObject b a s = (c, t)"
  shows "same_accounts b s t" "ob_account (observe b t) a = Some (acct_of b c)" "so_address c = a" "\<not> deleted c"
proof -
  have "same_accounts b s t \<and> ob_account (observe b t) a = Some (acct_of b c) \<and> so_address c = a \<and> \<not> deleted c"
  proof (rule lookup_cases [OF assms(1), of a b])
    assume n: "getStateObject a s = (None, s)"
    then obtain prev where "createObject b a s = (c, prev, t)" using assms(2) by (auto simp: GetOrNewStateObject_def split: prod.splits)
    then show ?thesis using createObject_same [OF assms(1)] n by simp
  qed (use assms(2) in \<open>auto simp: GetOrNewStateObject_def intro: same_observed\<close>)
  then show "same_accounts b s t" "ob_account (observe b t) a = Some (acct_of b c)" "so_address c = a" "\<not> deleted c" by simp_all
qed

lemma harmless_Transfer: "harmless b s (Transfer b x y 0 s)"
proof -
  have "same_accounts b s (SubBalance b a 0 s) \<and> same_accounts b s (AddBalance b a 0 s)" if wf: "wf_objects s" for a s
  proof -
    obtain c t where c: "GetOrNewStateObject b a s = (c, t)" by fastforce
    note g = GetOrNew_same [OF wf c]
    have "same_accounts b t (touch c t)"
      using g by (intro same_observed) (auto simp: touch_def observe_write_object fun_upd_idem)
    then show ?thesis using g(1) same_accounts_trans c by (auto simp: SubBalance_def AddBalance_def obj_SubBalance_def obj_AddBalance_def)
  qed
  then have "harmless b s (SubBalance b a 0 s)" "harmless b s (AddBalance b a 0 s)" for a s
    using extends_changes(1,2) by (auto intro!: harmlessI)
  then show ?thesis unfolding Transfer_def by (blast intro: harmless_trans)
qed

lemma restored_harmless: "restored env s t \<Longrightarrow> harmless (bk env) s t"
  using same_observed by (auto simp: restored_def harmless_def)

section \<open>Instructions\<close>

abbreviation calm :: "evm_env \<Rightarrow> world \<Rightarrow> world \<Rightarrow> bool" where
  "calm env w w' \<equiv> harmless (bk env) (w_db w) (w_db w') \<and> w_readOnly w' = w_readOnly w"

definition mutes :: "evm_env \<Rightarrow> world \<Rightarrow> exec_result \<Rightarrow> bool" where
  "mutes env w r \<longleftrightarrow>
     (case r of Ok (w', f', ret, err) \<Rightarrow> calm env w w' | _ \<Rightarrow> True)"

lemma mutes_simps [simp]:
  "mutes env w Panic" "mutes env w (Err e)"
  "mutes env w (Ok (w', f', ret, err)) \<longleftrightarrow> calm env w w'"
  "mutes env w (done_op w' f') \<longleftrightarrow> calm env w w'"
  by (simp_all add: mutes_def done_op_def)

lemma pool_mode [simp]: "w_readOnly (pool_get w) = w_readOnly w" "w_readOnly (pool_put is w) = w_readOnly w"
  by (simp_all add: pool_get_def pool_put_def)

lemma mutes_pop1: "(\<And>x f'. mutes env w (k x f')) \<Longrightarrow> mutes env w (pop1 f k)"
  by (cases "f_stack f") (auto simp: pop1_def)

lemma mutes_pop2: "(\<And>x y f'. mutes env w (k x y f')) \<Longrightarrow> mutes env w (pop2 f k)"
  by (auto simp: pop2_def intro!: mutes_pop1)

lemma mutes_pop3: "(\<And>x y z f'. mutes env w (k x y z f')) \<Longrightarrow> mutes env w (pop3 f k)"
  by (auto simp: pop3_def intro!: mutes_pop1 mutes_pop2)

lemma mutes_bind: "(\<And>x. m = Ok x \<Longrightarrow> mutes env w (k x)) \<Longrightarrow> mutes env w (bind_outcome m k)"
  by (cases m) auto

lemmas mutes_rules = mutes_pop1 mutes_pop2 mutes_pop3 mutes_bind

lemma mutes_arithmetic:
  "mutes env w (opStop env cs w f)" "mutes env w (opAdd env cs w f)" "mutes env w (opMul env cs w f)" "mutes env w (opSub env cs w f)"
  "mutes env w (opDiv env cs w f)" "mutes env w (opSdiv env cs w f)" "mutes env w (opMod env cs w f)" "mutes env w (opSmod env cs w f)"
  "mutes env w (opAddmod env cs w f)" "mutes env w (opMulmod env cs w f)" "mutes env w (opExp env cs w f)"
  "mutes env w (opSignExtend env cs w f)"
  by (auto simp: opStop_def opAdd_def opMul_def opSub_def opDiv_def opSdiv_def opMod_def opSmod_def opAddmod_def opMulmod_def opExp_def
      opSignExtend_def Let_def intro!: mutes_rules split: prod.split)

lemma mutes_comparisons:
  "mutes env w (opLt env cs w f)" "mutes env w (opGt env cs w f)" "mutes env w (opSlt env cs w f)" "mutes env w (opSgt env cs w f)"
  "mutes env w (opEq env cs w f)" "mutes env w (opIszero env cs w f)" "mutes env w (opAnd env cs w f)" "mutes env w (opOr env cs w f)"
  "mutes env w (opXor env cs w f)" "mutes env w (opNot env cs w f)" "mutes env w (opByte env cs w f)"
  by (auto simp: opLt_def opGt_def opSlt_def opSgt_def opEq_def opIszero_def opAnd_def opOr_def opXor_def opNot_def opByte_def
      push_bool_def Let_def intro!: mutes_rules split: prod.split if_splits)

lemma mutes_context:
  "mutes env w (opSha3 env cs w f)" "mutes env w (opAddress env cs w f)" "mutes env w (opBalance env cs w f)" "mutes env w (opOrigin env cs w f)"
  "mutes env w (opCaller env cs w f)" "mutes env w (opCallValue env cs w f)" "mutes env w (opCallDataLoad env cs w f)"
  "mutes env w (opCallDataSize env cs w f)" "mutes env w (opCallDataCopy env cs w f)" "mutes env w (opCodeSize env cs w f)"
  "mutes env w (opCodeCopy env cs w f)" "mutes env w (opGasprice env cs w f)" "mutes env w (opExtCodeSize env cs w f)"
  "mutes env w (opExtCodeCopy env cs w f)"
  by (auto simp: opSha3_def opAddress_def opBalance_def opOrigin_def opCaller_def opCallValue_def opCallDataLoad_def opCallDataSize_def
      opCallDataCopy_def opCodeSize_def opCodeCopy_def opGasprice_def opExtCodeSize_def opExtCodeCopy_def Let_def harmlessness
      intro!: mutes_rules split: prod.split)

lemma mutes_block:
  "mutes env w (opBlockhash env cs w f)" "mutes env w (opCoinbase env cs w f)" "mutes env w (opTimestamp env cs w f)"
  "mutes env w (opNumber env cs w f)" "mutes env w (opDifficulty env cs w f)" "mutes env w (opGasLimit env cs w f)"
  "mutes env w (opReturnDataSize env cs w f)" "mutes env w (opReturnDataCopy env cs w f)"
  by (auto simp: opBlockhash_def opCoinbase_def opTimestamp_def opNumber_def opDifficulty_def opGasLimit_def opReturnDataSize_def
      opReturnDataCopy_def Let_def intro!: mutes_rules)

lemma mutes_storage:
  "mutes env w (opPop env cs w f)" "mutes env w (opMload env cs w f)" "mutes env w (opMstore env cs w f)" "mutes env w (opMstore8 env cs w f)"
  "mutes env w (opSload env cs w f)" "mutes env w (opJump env cs w f)" "mutes env w (opJumpi env cs w f)"
  "mutes env w (opJumpdest env cs w f)" "mutes env w (opPc env cs w f)" "mutes env w (opMsize env cs w f)" "mutes env w (opGas env cs w f)"
  by (auto simp: opPop_def opMload_def opMstore_def opMstore8_def opSload_def opJump_def opJumpi_def opJumpdest_def opPc_def
      opMsize_def opGas_def Let_def harmlessness intro!: mutes_rules split: prod.split)

lemma mutes_families:
  "mutes env w (makePush s n env cs w f)" "mutes env w (makeDup n env cs w f)" "mutes env w (makeSwap n env cs w f)"
  "mutes env w (opReturn env cs w f)" "mutes env w (opRevert env cs w f)"
  by (auto simp: makePush_def makeDup_def makeSwap_def opReturn_def opRevert_def Let_def intro!: mutes_rules)

lemmas mutes_ops = mutes_arithmetic mutes_comparisons mutes_context mutes_block mutes_storage mutes_families

text \<open>A price function leaves the stack below the top, where the value of a call is, as it was.\<close>

definition silent :: "evm_env \<Rightarrow> gasFunc \<Rightarrow> bool" where
  "silent env g \<longleftrightarrow>
     (\<forall>m w f cost w' f'. g (gasTable env) env m w f = Ok (cost, w', f') \<longrightarrow>
        calm env w w' \<and>
        length (f_stack f') = length (f_stack f) \<and> tl (f_stack f') = tl (f_stack f))"

lemma silent_plain:
  "silent env (constGasFunc c)" "silent env gasBalance" "silent env gasExtCodeSize" "silent env gasSLoad" "silent env gasExp"
  "silent env gasPush" "silent env gasSwap" "silent env gasDup"
  by (auto simp: silent_def constGasFunc_def gasBalance_def gasExtCodeSize_def gasSLoad_def gasExp_def gasPush_def gasSwap_def gasDup_def
      bind_outcome_Ok_iff Let_def)

lemma silent_memory:
  "silent env gasCallDataCopy" "silent env gasReturnDataCopy" "silent env gasCodeCopy" "silent env gasExtCodeCopy"
  "silent env gasSha3" "silent env gasMLoad" "silent env gasMStore" "silent env gasMStore8" "silent env gasReturn" "silent env gasRevert"
  by (auto simp: silent_def gasCallDataCopy_def gasReturnDataCopy_def gasCodeCopy_def gasExtCodeCopy_def copy_gas_def gasSha3_def
      gasMLoad_def gasMStore_def gasMStore8_def mem_plus_def gasReturn_def gasRevert_def bind_outcome_Ok_iff dest!: mem_gas_contract)

lemma pay_call_stack: "pay_call gt gas w f = Ok (cost, w', f') \<Longrightarrow> w' = w \<and> length (f_stack f') = length (f_stack f) \<and> tl (f_stack f') = tl (f_stack f)"
  using pay_call_Ok [of gt gas w f cost w' f'] by auto

lemma silent_calls: "silent env gasCall" "silent env gasCallCode" "silent env gasDelegateCall" "silent env gasStaticCall"
proof -
  show "silent env gasCall"
    unfolding silent_def
  proof (intro allI impI)
    fix m w f cost w' f'
    assume "gasCall (gasTable env) env m w f = Ok (cost, w', f')"
    then show "calm env w w' \<and>
        length (f_stack f') = length (f_stack f) \<and> tl (f_stack f') = tl (f_stack f)"
      by (auto simp: gasCall_def bind_outcome_Ok_iff Let_def split: if_splits prod.splits dest!: pay_call_stack mem_gas_contract intro: harmless_query)
  qed
qed (auto simp: silent_def gasCallCode_def gasDelegateCall_def gasStaticCall_def bind_outcome_Ok_iff Let_def
    dest!: pay_call_stack mem_gas_contract)

lemmas silent_ops = silent_plain silent_memory silent_calls

section \<open>Calls of other contracts\<close>

abbreviation metropolis :: "evm_env \<Rightarrow> bool" where
  "metropolis env \<equiv> IsMetropolis (chainConfig env) (BlockNumber (ctx env))"

definition call_mute :: "evm_env \<Rightarrow> world \<Rightarrow> call_result \<Rightarrow> bool" where
  "call_mute env w r \<longleftrightarrow>
     (case r of Ok (ret, g, err, w') \<Rightarrow> calm env w w' | _ \<Rightarrow> True)"

lemma after_call_mutes: "call_mute env w r \<Longrightarrow> mutes env w (bind_outcome r (after_call puts o' l f))"
  by (cases r) (auto simp: call_mute_def after_call_def Let_def intro!: mutes_bind)

text \<open>In the read-only mode only calls without value are made.\<close>

locale observers =
  fixes env :: evm_env and cs :: calls
  assumes Call_mute: "metropolis env \<Longrightarrow> w_readOnly w \<Longrightarrow> call_mute env w (c_Call cs clr addr inp gas 0 w)"
    and CallCode_mute: "metropolis env \<Longrightarrow> w_readOnly w \<Longrightarrow> call_mute env w (c_CallCode cs clr addr inp gas val w)"
    and DelegateCall_mute: "metropolis env \<Longrightarrow> w_readOnly w \<Longrightarrow> call_mute env w (c_DelegateCall cs clr addr inp gas w)"
    and StaticCall_mute: "metropolis env \<Longrightarrow> call_mute env w (c_StaticCall cs clr addr inp gas w)"
begin

lemmas mute_rules = mutes_pop3 mutes_pop2 mutes_pop1 mutes_bind [of "memory_Get a b m" for a b m] after_call_mutes
  CallCode_mute DelegateCall_mute StaticCall_mute

lemma mutes_calls:
  assumes "metropolis env" "w_readOnly w"
  shows "mutes env w (opCallCode env cs w f)" "mutes env w (opDelegateCall env cs w f)" "mutes env w (opStaticCall env cs w f)"
  unfolding opCallCode_def opDelegateCall_def opStaticCall_def Let_def
  by (intro mute_rules; rule assms)+

lemma mutes_opCall:
  assumes "metropolis env" "w_readOnly w" "f_stack f = g # a # 0 # st"
  shows "mutes env w (opCall env cs w f)"
proof -
  have "U256 0 = 0" by (simp add: U256_mod)
  then have "opCall env cs w f = pop2 (f\<lparr>f_stack := st\<rparr>) (\<lambda>inOffset inSize f. pop2 f (\<lambda>retOffset retSize f.
     bind_outcome (memory_Get (big_Int64 inOffset) (big_Int64 inSize) (f_mem f)) (\<lambda>args.
       bind_outcome (c_Call cs (as_ref (f_contract f)) (BigToAddress a) args (big_Uint64 g) 0 w)
          (after_call [a, 0, inOffset, inSize, retOffset, retSize] retOffset retSize f))))"
    unfolding opCall_def pop3_def pop2_def [of f] by (simp add: pop1_def [of f] pop2_def pop1_def assms(3))
  then show ?thesis using assms(1,2) by (simp only:) (intro mute_rules Call_mute)
qed

end

section \<open>The loop\<close>

text \<open>What the loop relies on: an instruction that does not write is harmless when its call sends no value.\<close>

definition mute_op :: "evm_env \<Rightarrow> OpCode \<Rightarrow> operation \<Rightarrow> bool" where
  "mute_op env c oper \<longleftrightarrow> writes oper \<or>
     silent env (gasCost oper) \<and>
     (\<forall>cs w f. observers env cs \<longrightarrow> metropolis env \<longrightarrow> w_readOnly w \<longrightarrow> (c = CALL \<longrightarrow> (\<exists>g a st. f_stack f = g # a # 0 # st)) \<longrightarrow>
        mutes env w (execute oper env cs w f))"

lemma mute_plain:
  assumes "\<And>cs w f. mutes env w (execute oper env cs w f)" "silent env (gasCost oper)"
  shows "mute_op env c oper"
  using assms by (simp add: mute_op_def)

lemma mute_writes: "writes oper \<Longrightarrow> mute_op env c oper"
  by (simp add: mute_op_def)

lemma mute_tables:
  "\<forall>(c, oper) \<in> set arithmetic_ops. mute_op env c oper" "\<forall>(c, oper) \<in> set context_ops. mute_op env c oper"
  "\<forall>(c, oper) \<in> set block_ops. mute_op env c oper"
  by (auto simp only: arithmetic_ops_def context_ops_def block_ops_def set_simps prod.case ball_simps simp_thms
      intro!: mute_plain) (simp_all only: op_record operation.simps mutes_ops silent_ops)

lemma mute_storage: "\<forall>(c, oper) \<in> set storage_ops. mute_op env c oper"
proof -
  have "mute_op env c ((op_plain opSstore gasSStore v)\<lparr>writes := True\<rparr>)" for c v by (rule mute_writes) (simp add: op_record)
  then show ?thesis
    by (auto simp only: storage_ops_def set_simps prod.case ball_simps simp_thms intro!: mute_plain)
      (simp_all only: op_record operation.simps mutes_ops silent_ops)
qed

lemma mute_families:
  "\<forall>(c, oper) \<in> set push_ops. mute_op env c oper" "\<forall>(c, oper) \<in> set dup_ops. mute_op env c oper"
  "\<forall>(c, oper) \<in> set swap_ops. mute_op env c oper" "\<forall>(c, oper) \<in> set log_ops. mute_op env c oper"
proof -
  show "\<forall>(c, oper) \<in> set log_ops. mute_op env c oper" by (auto simp: log_ops_def op_record intro!: mute_writes)
qed (auto simp only: push_ops_def dup_ops_def swap_ops_def set_map prod.case op_record operation.simps mutes_ops silent_ops intro!: mute_plain)

lemma mute_rest:
  "mute_op env c ((op_mem opReturn gasReturn v m)\<lparr>halts := True\<rparr>)"
  "mute_op env c ((op_mem opRevert gasRevert v m)\<lparr>reverts := True, returns := True\<rparr>)"
  "mute_op env c (op_plain opReturnDataSize (constGasFunc GasQuickStep) v)" "mute_op env c (op_mem opReturnDataCopy gasReturnDataCopy v m)"
  by (rule mute_plain; simp only: op_record operation.simps mutes_ops silent_ops)+

lemma mute_calls:
  "mute_op env c ((op_mem opCreate gasCreate v m)\<lparr>writes := True, returns := True\<rparr>)"
  "mute_op env c ((op_plain opSuicide gasSuicide v)\<lparr>halts := True, writes := True\<rparr>)"
  "mute_op env CALL ((op_mem opCall gasCall v m)\<lparr>returns := True\<rparr>)" "mute_op env c ((op_mem opCallCode gasCallCode v m)\<lparr>returns := True\<rparr>)"
  "mute_op env c ((op_mem opDelegateCall gasDelegateCall v m)\<lparr>returns := True\<rparr>)"
  "mute_op env c ((op_mem opStaticCall gasStaticCall v m)\<lparr>returns := True\<rparr>)"
  by (auto simp: mute_op_def op_record silent_ops observers.mutes_calls observers.mutes_opCall)

lemma mute_table: "\<forall>(c, oper) \<in> set NewMetropolisInstructionSet. mute_op env c oper"
  using mute_tables [of env] mute_storage [of env] mute_families [of env]
  by (simp add: NewMetropolisInstructionSet_def NewHomesteadInstructionSet_def NewFrontierInstructionSet_def call_ops_def ball_Un mute_rest
      mute_calls)

lemma JumpTable_mute: "metropolis env \<Longrightarrow> JumpTable env c = Some oper \<Longrightarrow> mute_op env c oper"
  using mute_table [of env] by (auto simp: JumpTable_def dest!: map_of_SomeD)

definition body_mute :: "evm_env \<Rightarrow> world \<Rightarrow> loop_result vm \<Rightarrow> bool" where
  "body_mute env w r \<longleftrightarrow> (case r of Ok (Continue w' f') \<Rightarrow> calm env w w' | Ok (Return ret err w' f') \<Rightarrow> calm env w w' | _ \<Rightarrow> True)"

lemma body_mute_check:
  "(\<And>e. r = Err e \<Longrightarrow> body_mute env w (Ok (h e))) \<Longrightarrow> (\<And>x. r = Ok x \<Longrightarrow> body_mute env w (k x)) \<Longrightarrow> body_mute env w (check r h k)"
  by (cases r) (auto simp: body_mute_def)

lemma body_mute_stop: "body_mute env w (Ok (Return ret err w f))"
  by (simp add: body_mute_def)

lemma consume_gas_silent:
  assumes "silent env (gasCost oper)"
  shows "consume_gas env oper m w f = Ok (w1, f1) \<Longrightarrow> calm env w w1 \<and> length (f_stack f1) = length (f_stack f) \<and> tl (f_stack f1) = tl (f_stack f)"
    "consume_gas env oper m w f = Err (e, w1, f1) \<Longrightarrow> calm env w w1"
  using assms by (auto simp: consume_gas_def silent_def case_prod_unfold split: if_splits outcome.splits)

lemma finish_mute: "mutes env w1 r \<Longrightarrow> calm env w w1 \<Longrightarrow> body_mute env w (bind_outcome r (finish_op oper))"
  by (cases r) (auto simp: finish_op_def body_mute_def mutes_def Let_def split: if_splits prod.splits intro: harmless_trans)

text \<open>What the restrictions let pass.\<close>

lemma metropolis_rules: "metropolis env \<Longrightarrow> r_IsMetropolis (chainRules env)"
  by (simp add: chainRules_def config_Rules_def)

lemma enforced:
  assumes "metropolis env" "w_readOnly w" "enforceRestrictions env w c (Some oper) st = Ok ()"
  shows "\<not> writes oper" "c = CALL \<Longrightarrow> \<exists>g a st'. st = g # a # 0 # st'"
proof -
  show "\<not> writes oper" using assms metropolis_rules [of env] by (auto simp: enforceRestrictions_def)
  assume "c = CALL"
  have "nat_bitlen n = 0 \<longleftrightarrow> n = 0" for n by (subst nat_bitlen.simps) simp
  then have "2 < length st" "st ! 2 = 0"
    using \<open>c = CALL\<close> assms metropolis_rules [of env]
    by (auto simp: enforceRestrictions_def Back_def big_BitLen_def split: if_splits)
  then show "\<exists>g a st'. st = g # a # 0 # st'" by (cases st; cases "tl st"; cases "tl (tl st)"; simp)
qed

context observers
begin

lemma loop_body_mute:
  assumes "metropolis env" "w_readOnly w"
  shows "body_mute env w (loop_body env cs w f)"
proof (cases "JumpTable env (GetOp (f_contract f) (f_pc f))")
  case None
  then show ?thesis by (auto simp: loop_body_def Let_def intro!: body_mute_check body_mute_stop)
next
  case (Some oper)
  let ?c = "GetOp (f_contract f) (f_pc f)"
  have main: "body_mute env w (check (consume_gas env oper m w f) (\<lambda>(e, w, f). Return [] (Some e) w f) (\<lambda>(w, f).
      bind_outcome (execute oper env cs w (if 0 < m then f\<lparr>f_mem := Resize m (f_mem f)\<rparr> else f)) (finish_op oper)))"
    if r: "enforceRestrictions env w ?c (Some oper) (f_stack f) = Ok ()" for m
  proof -
    have h: "silent env (gasCost oper)"
      "\<And>w f. w_readOnly w \<Longrightarrow> (?c = CALL \<Longrightarrow> \<exists>g a st. f_stack f = g # a # 0 # st) \<Longrightarrow> mutes env w (execute oper env cs w f)"
      using JumpTable_mute [OF assms(1) Some] enforced(1) [OF assms r] assms(1) observers_axioms by (auto simp: mute_op_def)
    show ?thesis
    proof (rule body_mute_check)
      fix e assume "consume_gas env oper m w f = Err e"
      then show "body_mute env w (Ok (case e of (e, w, f) \<Rightarrow> Return [] (Some e) w f))"
        using consume_gas_silent(2) [OF h(1)] by (cases e) (auto simp: body_mute_def)
    next
      fix t assume t: "consume_gas env oper m w f = Ok t"
      obtain w1 f1 where t': "t = (w1, f1)" by (cases t) auto
      have c: "calm env w w1" "length (f_stack f1) = length (f_stack f)" "tl (f_stack f1) = tl (f_stack f)"
        using consume_gas_silent(1) [OF h(1), of m w f w1 f1] t t' by auto
      have "\<exists>g a st. f_stack f1 = g # a # 0 # st" if "?c = CALL"
        using enforced(2) [OF assms r that] c(2,3) by (cases "f_stack f1") auto
      then have "mutes env w1 (execute oper env cs w1 (if 0 < m then f1\<lparr>f_mem := Resize m (f_mem f1)\<rparr> else f1))"
        using c(1) assms(2) by (intro h(2)) auto
      then show "body_mute env w (case t of (w, f) \<Rightarrow>
          bind_outcome (execute oper env cs w (if 0 < m then f\<lparr>f_mem := Resize m (f_mem f)\<rparr> else f)) (finish_op oper))"
        using finish_mute c(1) by (simp only: t' prod.case)
    qed
  qed
  show ?thesis
  proof (cases "w_abort w")
    case False
    show ?thesis
      unfolding loop_body_def Let_def Some option.case if_not_P [OF False]
      by (rule body_mute_check, rule body_mute_stop)+ (rule main, simp)
  qed (simp add: loop_body_def body_mute_stop)
qed

end

section \<open>The calls of the interpreter\<close>

definition run_mute :: "evm_env \<Rightarrow> world \<Rightarrow> run_result \<Rightarrow> bool" where
  "run_mute env w r \<longleftrightarrow> (case r of Ok (ret, err, c, w') \<Rightarrow> calm env w w' | _ \<Rightarrow> True)"

definition loop_mute :: "evm_env \<Rightarrow> loop \<Rightarrow> bool" where
  "loop_mute env lp \<longleftrightarrow> (\<forall>w f. w_readOnly w \<longrightarrow> run_mute env w (lp w f))"

lemma run_mute_dests [simp]: "run_mute env (w\<lparr>w_dests := d\<rparr>) r = run_mute env w r"
  by (cases r) (auto simp: run_mute_def)

lemma evm_run_mute:
  assumes lp: "loop_mute env lp" and "w_readOnly w"
  shows "run_mute env w (with_dests clr (evm_run env lp c input) w)"
proof -
  have int: "run_mute env w (interpreter_Run lp c input w)" if "w_readOnly w" for w
  proof (cases "Code c = []")
    case False
    let ?w = "w\<lparr>w_depth := w_depth w + 1, w_returnData := []\<rparr>"
      and ?f = "\<lparr>f_pc = 0, f_contract = c\<lparr>Input := input\<rparr>, f_mem = NewMemory, f_stack = newstack\<rparr>"
    have "run_mute env ?w (lp ?w ?f)" using that lp by (simp add: loop_mute_def)
    then show ?thesis using False by (cases "lp ?w ?f") (auto simp: interpreter_Run_def Let_def run_mute_def)
  qed (simp add: interpreter_Run_def Let_def run_mute_def)
  have "run_mute env w (case r of (Ok ret, c) \<Rightarrow> Ok (ret, None, c, w) | (Err e, c) \<Rightarrow> Ok ([], Some e, c, w) | (Panic, c) \<Rightarrow> Panic)"
    for w and r :: "(vm_error, byte list) outcome \<times> Contract"
    by (cases r; cases "fst r") (auto simp: run_mute_def)
  then have "run_mute env w (evm_run env lp c input w)" if "w_readOnly w" for w
    using int that by (auto simp: evm_run_def split: option.split)
  then have "run_mute env (w\<lparr>w_dests := d\<rparr>) (evm_run env lp c input (w\<lparr>w_dests := d\<rparr>))" "run_mute env w (evm_run env lp c input w)" for d
    using assms(2) by (simp_all del: run_mute_dests)
  then show ?thesis by (auto simp: with_dests_def split: contract_ref.split)
qed

text \<open>A read-only run between a snapshot and its end.\<close>

lemma settle_mute:
  assumes lp: "loop_mute env (run_loop env n)"
    and s: "Snapshot s0 = (snap, s1)" "keeps (bk env) s1 t" "harmless (bk env) s0 t"
    and res: "bind_outcome (with_dests clr (evm_run env (run_loop env n) c input) (w\<lparr>w_db := t, w_readOnly := True\<rparr>)) (settle snap)
      = Ok (ret, g, err, w')"
  shows "harmless (bk env) s0 (w_db w') \<and> w_readOnly w'"
proof -
  let ?w = "w\<lparr>w_db := t, w_readOnly := True\<rparr>"
  let ?r = "with_dests clr (evm_run env (run_loop env n) c input) ?w"
  obtain ret1 err1 c1 w3 where r: "?r = Ok (ret1, err1, c1, w3)" "settle snap (ret1, err1, c1, w3) = Ok (ret, g, err, w')"
    using res by (auto simp: bind_outcome_Ok_iff)
  have "run_mute env ?w ?r" by (rule evm_run_mute [OF lp]) simp
  then have w3: "harmless (bk env) t (w_db w3)" "w_readOnly w3" by (simp_all add: r run_mute_def)
  have ok: "run_ok env n (Gas c) ?w ?r" by (intro with_dests_ok run_loop_run_ok)
  have m: "w_readOnly w' = w_readOnly w3" using r(2) by (auto simp: settle_def Let_def split: if_splits outcome.splits)
  show ?thesis
  proof (cases err)
    case None
    then have "w' = w3" using r(2) by (cases "RevertToSnapshot snap (w_db w3)") (auto simp: settle_def Let_def split: if_splits)
    then show ?thesis using w3 s(3) harmless_trans by blast
  next
    case (Some e)
    have "restored env s0 (w_db w')" if "wf_objects s0" "revisions_ok s0"
      using settle_restores [OF that s(1,2) ok res [unfolded Some]] by simp
    then show ?thesis using restored_harmless [of env s0 "w_db w'"] w3(2) m by (auto simp: harmless_def)
  qed
qed

lemma settle_mute_plain:
  assumes "loop_mute env (run_loop env n)" "w_readOnly w"
    and "Snapshot s0 = (snap, s1)" "keeps (bk env) s1 t" "harmless (bk env) s0 t" "harmless (bk env) (w_db w) s0"
  shows "call_mute env w (bind_outcome (with_dests clr (evm_run env (run_loop env n) c input) (w\<lparr>w_db := t\<rparr>)) (settle snap))"
proof -
  have w: "w\<lparr>w_db := t, w_readOnly := True\<rparr> = w\<lparr>w_db := t\<rparr>" using assms(2) by (cases w) simp
  show ?thesis
    using settle_mute [OF assms(1,3-5), where w = w, unfolded w] assms(2,6) harmless_trans
    by (fastforce simp: call_mute_def split: outcome.split)
qed

lemma load_code_harmless: "load_code env addr c s = (c', s') \<Longrightarrow> harmless (bk env) s s'"
proof -
  assume l: "load_code env addr c s = (c', s')"
  obtain h t where h: "GetCodeHash addr s = (h, t)" by fastforce
  obtain code u where u: "GetCode (bk env) addr t = (code, u)" by fastforce
  show ?thesis using l h u harmless_trans [OF harmless_query(6) [OF h] harmless_query(8) [OF u]] by (auto simp: load_code_def code_of_def)
qed

lemma call_mute_Ok [simp]: "call_mute env w (Ok (ret, g, err, w')) = calm env w w'" "call_mute env w Panic"
  by (simp_all add: call_mute_def)

lemma evm_Call_mute:
  assumes lp: "loop_mute env (run_loop env n)" "w_readOnly w"
  shows "call_mute env w (evm_Call env (run_loop env n) clr addr input gas 0 w)"
proof -
  let ?b = "bk env" and ?from = "ref_Address clr"
  obtain can s where can: "CanTransfer ?from 0 (w_db w) = (can, s)" by fastforce
  obtain snap s1 where snap: "Snapshot s = (snap, s1)" by fastforce
  obtain ex s2 where ex: "Exist addr s1 = (ex, s2)" by fastforce
  define s3 where "s3 = (if ex then s2 else CreateAccount ?b addr s2)"
  define s4 where "s4 = Transfer ?b ?from addr 0 s3"
  obtain c s5 where lc: "load_code env addr (NewContract clr (AccountRef addr) 0 gas) s4 = (c, s5)" by fastforce
  have g: "harmless ?b (w_db w) s" "harmless ?b s s1" "harmless ?b s1 s2" "harmless ?b s2 s3" "harmless ?b s3 s4" "harmless ?b s4 s5"
    using harmless_query(7) [OF can] harmless_query(10) [OF snap] harmless_query(1) [OF ex] harmless_CreateAccount [of addr s1 s2] ex
      harmless_Transfer load_code_harmless [OF lc] by (auto simp: s3_def s4_def)
  have k: "keeps ?b s1 s5"
    using keeps_query(1) [OF ex] load_code_ok(2) [OF lc] keeps_Transfer [of ?b s3 ?from addr 0] keeps_changes(7) [of ?b s2 addr]
    by (auto simp: s3_def s4_def intro: keeps_trans split: if_splits)
  have s5: "harmless ?b s s5" "harmless ?b (w_db w) s2" using g by (meson harmless_trans)+
  have "call_mute env w (bind_outcome (with_dests clr (evm_run env (run_loop env n) c input) (w\<lparr>w_db := s5\<rparr>)) (settle snap))"
    by (rule settle_mute_plain [OF lp snap k s5(1) g(1)])
  then show ?thesis
    using can snap ex lc g(1) s5(2) by (auto simp: evm_Call_def Let_def s3_def s4_def)
qed

lemma evm_CallCode_mute:
  assumes lp: "loop_mute env (run_loop env n)" "w_readOnly w"
  shows "call_mute env w (evm_CallCode env (run_loop env n) clr addr input gas val w)"
proof -
  obtain can s where can: "CanTransfer (ref_Address clr) val (w_db w) = (can, s)" by fastforce
  obtain snap s1 where snap: "Snapshot s = (snap, s1)" by fastforce
  obtain c s5 where lc: "load_code env addr (NewContract clr (AccountRef (ref_Address clr)) val gas) s1 = (c, s5)" by fastforce
  note g = harmless_query(7) [OF can, of "bk env"] harmless_trans [OF harmless_query(10) [OF snap] load_code_harmless [OF lc]]
  show ?thesis
    using settle_mute_plain [OF lp snap load_code_ok(2) [OF lc] g(2,1)] can snap lc g(1) by (simp add: evm_CallCode_def)
qed

lemma evm_DelegateCall_mute:
  assumes lp: "loop_mute env (run_loop env n)" "w_readOnly w"
  shows "call_mute env w (evm_DelegateCall env (run_loop env n) clr addr input gas w)"
proof (cases clr)
  case (AccountRef a)
  then show ?thesis by (cases "Snapshot (w_db w)") (simp add: evm_DelegateCall_def AsDelegate_def NewContract_def)
next
  case (ContractRef a ca x)
  obtain snap s1 where snap: "Snapshot (w_db w) = (snap, s1)" by fastforce
  obtain c0 where c0: "AsDelegate (NewContract clr (AccountRef (ref_Address clr)) 0 gas) = Ok c0"
    using ContractRef by (simp add: AsDelegate_def NewContract_def)
  obtain c s5 where lc: "load_code env addr c0 s1 = (c, s5)" by fastforce
  note g = harmless_trans [OF harmless_query(10) [OF snap] load_code_harmless [OF lc]]
  show ?thesis
    using settle_mute_plain [OF lp snap load_code_ok(2) [OF lc] g harmless_refl] snap lc c0 by (simp add: evm_DelegateCall_def)
qed

lemma evm_StaticCall_mute:
  assumes lp: "loop_mute env (run_loop env n)"
  shows "call_mute env w (evm_StaticCall env (run_loop env n) clr addr input gas w)"
proof -
  obtain snap s1 where snap: "Snapshot (w_db w) = (snap, s1)" by fastforce
  obtain c s5 where lc: "load_code env addr (NewContract clr (AccountRef addr) 0 gas) s1 = (c, s5)" by fastforce
  note g = harmless_trans [OF harmless_query(10) [OF snap] load_code_harmless [OF lc]]
  show ?thesis
    using settle_mute [OF lp snap load_code_ok(2) [OF lc] g, where w = w] snap lc
    by (fastforce simp: evm_StaticCall_def call_mute_def bind_outcome_Ok_iff split: outcome.split)
qed

section \<open>All runs\<close>

lemma observers_evm:
  assumes "metropolis env \<Longrightarrow> loop_mute env (run_loop env n)"
  shows "observers env (evm_calls env (run_loop env n))"
  by unfold_locales (simp_all add: evm_calls_def evm_Call_mute evm_CallCode_mute evm_DelegateCall_mute evm_StaticCall_mute assms)

lemma run_loop_mute: "metropolis env \<Longrightarrow> loop_mute env (run_loop env n)"
proof (induction n)
  case (Suc n)
  have "run_mute env w (run_loop env (Suc n) w f)" if ro: "w_readOnly w" for w f
  proof -
    let ?b = "loop_body env (evm_calls env (run_loop env n)) w f"
    have b: "body_mute env w ?b" using Suc ro by (intro observers.loop_body_mute [OF observers_evm])
    show ?thesis
    proof (cases ?b)
      case (Ok r)
      show ?thesis
      proof (cases r)
        case (Continue w1 f1)
        then have c: "calm env w w1" using b by (simp add: Ok body_mute_def)
        then have "run_mute env w1 (run_loop env n w1 f1)" using Suc ro by (simp add: loop_mute_def)
        then show ?thesis using c by (cases "run_loop env n w1 f1") (auto simp: run_mute_def Ok Continue intro: harmless_trans)
      qed (use b in \<open>simp add: Ok body_mute_def run_mute_def\<close>)
    qed (simp_all add: run_mute_def)
  qed
  then show ?case by (simp add: loop_mute_def)
qed (simp add: loop_mute_def run_mute_def)

interpretation evm_static: observers env "evm_calls env (run_loop env n)" for env n
  by (rule observers_evm [OF run_loop_mute])

section \<open>Properties\<close>

lemma families_no_CALL: "map_of push_ops CALL = None" "map_of dup_ops CALL = None" "map_of swap_ops CALL = None" "map_of log_ops CALL = None"
proof -
  have "\<not> List.member (map fst push_ops) CALL" "\<not> List.member (map fst dup_ops) CALL" "\<not> List.member (map fst swap_ops) CALL"
    "\<not> List.member (map fst log_ops) CALL" by code_simp+
  then show "map_of push_ops CALL = None" "map_of dup_ops CALL = None" "map_of swap_ops CALL = None" "map_of log_ops CALL = None"
    by (simp_all add: map_of_eq_None_iff)
qed

lemma JumpTable_CALL:
  assumes "metropolis env"
  obtains oper where "JumpTable env CALL = Some oper" "\<not> writes oper"
proof
  show "JumpTable env CALL = Some ((op_mem opCall gasCall (makeStackFunc 7 1) memoryCall)\<lparr>returns := True\<rparr>)"
    using assms
    by (simp add: JumpTable_def NewMetropolisInstructionSet_def NewHomesteadInstructionSet_def NewFrontierInstructionSet_def map_add_def
        families_no_CALL arithmetic_ops_def context_ops_def block_ops_def storage_ops_def call_ops_def JUMPDEST_def)
qed (simp add: op_record)

text \<open>C5: A static call changes nothing: whatever the code at the address does and calls, when it returns, every account that existed is as
  before (balance, nonce, code, storage and mark of destruction), an account that did not exist has been created empty at most, the
  logs and the refund are as before, and so is the mode of the interpreter.\<close>

theorem static_call_harmless:
  assumes "IsMetropolis (chainConfig env) (BlockNumber (ctx env))" "wf_objects (w_db w)" "revisions_ok (w_db w)"
  shows "case evm_StaticCall env (run_loop env n) clr addr input gas w of
      Ok (ret, g, err, w') \<Rightarrow>
        (\<forall>a. ob_account (observe (bk env) (w_db w')) a = ob_account (observe (bk env) (w_db w)) a \<or>
             ob_account (observe (bk env) (w_db w)) a = None \<and> ob_account (observe (bk env) (w_db w')) a = Some (blank (bk env) a)) \<and>
        refund (w_db w') = refund (w_db w) \<and> (\<forall>h. GetLogs h (w_db w') = GetLogs h (w_db w)) \<and> w_readOnly w' = w_readOnly w
    | Err e \<Rightarrow> True
    | Panic \<Rightarrow> True"
  using evm_static.StaticCall_mute [OF assms(1), where w = w and clr = clr and addr = addr and inp = input and gas = gas and n = n] assms(2,3)
  by (auto simp: evm_calls_def call_mute_def harmless_def same_accounts_def split: outcome.split)

theorem static_call_harmless_witness:
  "case evm_StaticCall sample_env (run_loop sample_env 50) (AccountRef 1) 100 [7] 500 (sample_world [0x60, 1, 0x60, 0, 0x55]) of
      Ok (ret, g, err, w') \<Rightarrow>
        refund (w_db w') = refund (w_db (sample_world [0x60, 1, 0x60, 0, 0x55])) \<and> w_readOnly w' = w_readOnly (sample_world [0x60, 1, 0x60, 0, 0x55])
    | Err e \<Rightarrow> True
    | Panic \<Rightarrow> True"
proof -
  have "IsMetropolis (chainConfig sample_env) (BlockNumber (ctx sample_env))" by code_simp
  then show ?thesis
    using static_call_harmless [of sample_env "sample_world [0x60, 1, 0x60, 0, 0x55]" 50 "AccountRef 1" 100 "[7]" 500] sample_world_ok
    by (auto split: outcome.split)
qed

text \<open>C25: The read-only mode is enforced before the height of the stack is tested: a \<open>CALL\<close> in a static call with fewer than three items on the
  stack panics, instead of ending the call with an underflow of the stack.\<close>

theorem static_call_panics:
  assumes "IsMetropolis (chainConfig env) (BlockNumber (ctx env))" "w_readOnly w" "\<not> w_abort w" "length (f_stack f) < 3"
    "GetOp (f_contract f) (f_pc f) = CALL"
  shows "loop_body env cs w f = Panic"
proof -
  obtain oper where "JumpTable env CALL = Some oper" "\<not> writes oper" by (rule JumpTable_CALL [OF assms(1)])
  then have "enforceRestrictions env w CALL (JumpTable env CALL) (f_stack f) = Panic"
    using assms(2,4) metropolis_rules [OF assms(1)] by (auto simp: enforceRestrictions_def Back_def)
  then show ?thesis using assms(3,5) by (simp add: loop_body_def Let_def)
qed

theorem static_call_panics_witness:
  "loop_body sample_env (evm_calls sample_env (run_loop sample_env 10)) ((sample_world [])\<lparr>w_readOnly := True\<rparr>)
     \<lparr>f_pc = 0, f_contract = SetCallCode 100 0 [0xf1] (NewContract (AccountRef 1) (AccountRef 100) 0 50), f_mem = NewMemory, f_stack = [5, 7]\<rparr>
     = Panic"
proof (rule static_call_panics)
  show "IsMetropolis (chainConfig sample_env) (BlockNumber (ctx sample_env))" by code_simp
qed (simp_all add: sample_world_def GetOp_def GetByte_def SetCallCode_def NewContract_def)

end
