(* ===== verification/WordArith.thy ===== *)
theory WordArith
  imports Instructions "HOL-Library.Signed_Division"
begin

text \<open>
  The arithmetic, comparison and bit instructions compute on \<open>*big.Int\<close> and cut the results to 256 bits. They implement the operations
  of words of 256 bits: the signed ones through the integers that the words stand for in two's complement.
\<close>

unbundle bit_operations_syntax

type_synonym u256_word = "256 word"

text \<open>With the words \<open>args\<close> on the stack, the instruction puts \<open>r\<close> in their place and changes nothing else but the pool of integers.\<close>

definition computes :: "executionFunc \<Rightarrow> u256_word list \<Rightarrow> u256_word \<Rightarrow> bool" where
  "computes oper args r \<longleftrightarrow>
     (\<forall>env cs w f st. \<exists>p. oper env cs w (f\<lparr>f_stack := map uint args @ st\<rparr>) = Ok (w\<lparr>w_pool := p\<rparr>, f\<lparr>f_stack := uint r # st\<rparr>, [], None))"

lemma done_computes:
  "\<exists>p'. done_op (pool_put is w) (push (uint r) (f\<lparr>f_stack := st\<rparr>)) = Ok (w\<lparr>w_pool := p'\<rparr>, f\<lparr>f_stack := uint r # st\<rparr>, [], None)"
  "\<exists>p'. done_op w (push (uint r) (f\<lparr>f_stack := st\<rparr>)) = Ok (w\<lparr>w_pool := p'\<rparr>, f\<lparr>f_stack := uint r # st\<rparr>, [], None)"
  "\<exists>p'. done_op (pool_put is (pool_get w)) (push (uint r) (f\<lparr>f_stack := st\<rparr>)) = Ok (w\<lparr>w_pool := p'\<rparr>, f\<lparr>f_stack := uint r # st\<rparr>, [], None)"
  by (simp_all add: done_op_def push_def stack_push_def pool_put_def pool_get_def) (metis world.surjective world.update_convs(5))+

lemma pops [simp]:
  "pop1 (f\<lparr>f_stack := x # st\<rparr>) k = k x (f\<lparr>f_stack := st\<rparr>)"
  "pop2 (f\<lparr>f_stack := x # y # st\<rparr>) k2 = k2 x y (f\<lparr>f_stack := st\<rparr>)"
  "pop3 (f\<lparr>f_stack := x # y # z # st\<rparr>) k3 = k3 x y z (f\<lparr>f_stack := st\<rparr>)"
  by (simp_all add: pop1_def pop2_def pop3_def)

section \<open>Numbers as words\<close>

lemma U256_word: "U256 x = uint (word_of_int x :: u256_word)"
  by (simp add: U256_mod uint_word_of_int take_bit_eq_mod)

lemma u256_uint: "u256 (uint (a :: u256_word))"
  using uint_nonnegative [of a] uint_bounded [of a] by (simp add: u256_def)

lemma S256_sint: "S256 (uint a) = sint (a :: u256_word)"
proof -
  note r = S256_range [OF u256_uint [of a]]
  have "uint (word_of_int (S256 (uint a)) :: u256_word) = uint a" using r U256_word by simp
  then have "(word_of_int (S256 (uint a)) :: u256_word) = a" by (rule word_uint_eq_iff [THEN iffD2])
  then have "sint a = signed_take_bit 255 (S256 (uint a))" using sint_sbintrunc' [where bin = "S256 (uint a)" and 'a = 256] by simp
  then show ?thesis using r by (simp add: signed_take_bit_int_eq_self)
qed

lemma S256_twice: "S256 (sint a) = sint (a :: u256_word)"
  using S256_range [OF u256_uint [of a], unfolded S256_sint] by (simp add: S256_def tt255_def)

section \<open>Instructions\<close>

lemma computes_ring:
  "computes opAdd [a, b] (a + b)" "computes opSub [a, b] (a - b)" "computes opMul [a, b] (a * b)" "computes opNot [a] (NOT a)"
proof -
  have "U256 (uint a + uint b) = uint (a + b)" "U256 (uint a - uint b) = uint (a - b)" "U256 (uint a * uint b) = uint (a * b)"
    "U256 (NOT (uint a)) = uint (NOT a)"
    by (simp_all add: U256_word of_int_not_eq)
  then show "computes opAdd [a, b] (a + b)" "computes opSub [a, b] (a - b)" "computes opMul [a, b] (a * b)" "computes opNot [a] (NOT a)"
    by (simp_all add: computes_def opAdd_def opSub_def opMul_def opNot_def done_computes)
qed

lemma computes_division:
  "computes opDiv [a, b] (a div b)" "computes opMod [a, b] (if b = 0 then 0 else a mod b)"
  "computes opSdiv [a, b] (word_of_int (sint a sdiv sint b))"
  "computes opSmod [a, b] (if b = 0 then 0 else word_of_int (sint a smod sint b))"
proof -
  have r: "U256 (uint c) = uint c" for c :: u256_word by (rule U256_id [OF u256_uint])
  have z: "uint b = 0 \<longleftrightarrow> b = 0" "sint b = 0 \<longleftrightarrow> b = 0" by (simp_all add: unsigned_eq_0_iff signed_eq_0_iff)
  have u: "0 < uint b" if "b \<noteq> 0" using that by (metis less_le uint_0_iff uint_nonnegative)
  have d: "U256 (big_Div (uint a) (uint b)) = uint (a div b)" "U256 (big_Mod (uint a) (uint b)) = uint (a mod b)" if "b \<noteq> 0"
    using u [OF that] that r [of "a div b"] r [of "a mod b"] by (simp_all add: big_Div_def big_Mod_def uint_div uint_mod)
  show "computes opDiv [a, b] (a div b)" "computes opMod [a, b] (if b = 0 then 0 else a mod b)"
    using d done_computes(1) [where r = "0 :: u256_word"]
    by (auto simp: computes_def opDiv_def opMod_def z done_computes)
  have q: "big_Div \<bar>x\<bar> \<bar>y\<bar> * (if x * y < 0 then - 1 else 1) = x sdiv y" if "y \<noteq> 0" for x y
    using that by (auto simp: big_Div_def signed_divide_int_def sgn_if mult_less_0_iff)
  have m: "big_Mod \<bar>x\<bar> \<bar>y\<bar> * (if x < 0 then - 1 else 1) = x smod y" if "y \<noteq> 0" for x y
    using that by (auto simp: big_Mod_def signed_modulo_int_def signed_divide_int_def sgn_if minus_mult_div_eq_mod algebra_simps)
  have s: "opSdiv env cs w (f\<lparr>f_stack := uint a # uint b # st\<rparr>) =
      done_op (pool_put [\<bar>sint b\<bar>] (pool_get w)) (push (U256 (sint a sdiv sint b)) (f\<lparr>f_stack := st\<rparr>))"
    "opSmod env cs w (f\<lparr>f_stack := uint a # uint b # st\<rparr>) =
      done_op (pool_put [\<bar>sint b\<bar>] w) (push (U256 (sint a smod sint b)) (f\<lparr>f_stack := st\<rparr>))" if "sint b \<noteq> 0" for env cs w f st
    by (simp_all only: opSdiv_def opSmod_def pops Let_def S256_sint if_not_P [OF that] q [OF that] m [OF that])
  have "computes opSdiv [a, b] (word_of_int (sint a sdiv sint b)) \<and>
    computes opSmod [a, b] (if b = 0 then 0 else word_of_int (sint a smod sint b))"
  proof (cases "b = 0")
    case True
    then show ?thesis
      using done_computes(1,2) [where r = "0 :: u256_word"] by (simp add: computes_def opSdiv_def opSmod_def S256_sint [of 0, simplified])
  qed (simp add: computes_def s z U256_word done_computes)
  then show "computes opSdiv [a, b] (word_of_int (sint a sdiv sint b))"
    "computes opSmod [a, b] (if b = 0 then 0 else word_of_int (sint a smod sint b))" by auto
qed

lemma computes_comparison:
  "computes opLt [a, b] (of_bool (a < b))" "computes opGt [a, b] (of_bool (a > b))" "computes opEq [a, b] (of_bool (a = b))"
  "computes opSlt [a, b] (of_bool (sint a < sint b))" "computes opSgt [a, b] (of_bool (sint a > sint b))" "computes opIszero [a] (of_bool (a = 0))"
proof -
  have b: "\<exists>p. (case push_bool c w (f\<lparr>f_stack := st\<rparr>) of (w, f) \<Rightarrow> done_op (pool_put is w) f) =
      Ok (w\<lparr>w_pool := p\<rparr>, f\<lparr>f_stack := uint (of_bool c :: u256_word) # st\<rparr>, [], None)" for c w f st "is"
    using done_computes(1) [where r = "0 :: u256_word"] done_computes(3) [where r = "1 :: u256_word"] by (simp add: push_bool_def)
  have "uint a > 0 \<longleftrightarrow> a \<noteq> 0" by (metis less_le uint_0_iff uint_nonnegative)
  then show "computes opLt [a, b] (of_bool (a < b))" "computes opGt [a, b] (of_bool (a > b))" "computes opEq [a, b] (of_bool (a = b))"
    "computes opSlt [a, b] (of_bool (sint a < sint b))" "computes opSgt [a, b] (of_bool (sint a > sint b))" "computes opIszero [a] (of_bool (a = 0))"
    using b by (simp_all add: computes_def opLt_def opGt_def opEq_def opSlt_def opSgt_def opIszero_def S256_sint S256_twice Let_def word_less_def
        word_uint_eq_iff)
qed

lemma computes_bits:
  "computes opAnd [a, b] (a AND b)" "computes opOr [a, b] (a OR b)" "computes opXor [a, b] (a XOR b)"
proof -
  have "uint a AND uint b = uint (a AND b)" "uint a OR uint b = uint (a OR b)" "uint a XOR uint b = uint (a XOR b)"
    by (simp_all add: uint_and uint_or uint_xor)
  then show "computes opAnd [a, b] (a AND b)" "computes opOr [a, b] (a OR b)" "computes opXor [a, b] (a XOR b)"
    by (simp_all add: computes_def opAnd_def opOr_def opXor_def done_computes)
qed

lemma computes_modular:
  "computes opAddmod [a, b, m] (if m = 0 then 0 else word_of_int ((uint a + uint b) mod uint m))"
  "computes opMulmod [a, b, m] (if m = 0 then 0 else word_of_int ((uint a * uint b) mod uint m))"
proof -
  have m: "uint m > 0 \<longleftrightarrow> m \<noteq> 0" by (metis less_le uint_0_iff uint_nonnegative)
  then show "computes opAddmod [a, b, m] (if m = 0 then 0 else word_of_int ((uint a + uint b) mod uint m))"
    "computes opMulmod [a, b, m] (if m = 0 then 0 else word_of_int ((uint a * uint b) mod uint m))"
    using done_computes(1) [where r = "0 :: u256_word"]
    by (auto simp: computes_def opAddmod_def opMulmod_def U256_word done_computes big_Mod_def)
qed

lemma computes_power: "computes opExp [a, b] (a ^ unat b)"
proof -
  have "fst (math_Exp (uint a) (uint b)) = uint (a ^ unat b)"
    using math_Exp_power(1) [OF u256_uint, of a "uint b"]
    by (simp add: U256_mod [symmetric] U256_word del: power_numeral)
  then show ?thesis
    using done_computes(1) by (auto simp: computes_def opExp_def split: prod.split)
qed

text \<open>Extension of the sign of the lowest \<open>k + 1\<close> bytes, and the byte \<open>k\<close> counted from the highest.\<close>

lemma computes_sign:
  "computes opSignExtend [k, a] (if k < 31 then word_of_int (signed_take_bit (8 * unat k + 7) (uint a)) else a)"
proof (cases "k < 31")
  case True
  let ?n = "8 * unat k + 7"
  have k: "uint k < 31" using True by (simp add: word_less_def)
  have k': "unat k < 31" using True by (simp add: word_less_nat_alt)
  have "uint (big_Uint64 (uint k)) = uint k" using k by (simp add: big_Uint64_def unsigned_ucast_eq take_bit_int_eq_self)
  then have "uint (big_Uint64 (uint k) * 8 + 7) = 8 * uint k + 7" using k
    by (simp add: uint_word_ariths)
  then have n: "unat (big_Uint64 (uint k) * 8 + 7) = ?n" by (simp only: unat_eq_nat_uint) (simp add: nat_add_distrib nat_mult_distrib)
  have p: "2 ^ ?n - 1 = (mask ?n :: int)" by (simp add: mask_eq_exp_minus_1)
  have o: "signed_take_bit ?n (uint a) = uint a OR NOT (mask ?n)" if "bit (uint a) ?n"
    by (rule bit_eqI) (use that in \<open>auto simp: bit_signed_take_bit_iff bit_or_iff bit_not_iff bit_mask_iff min_def\<close>)
  have t: "signed_take_bit ?n (uint a) = uint a AND mask ?n" if "\<not> bit (uint a) ?n"
    using that by (simp add: signed_take_bit_eq_if_positive take_bit_eq_mask)
  show ?thesis
    using True k o t by (auto simp: computes_def opSignExtend_def Let_def n p U256_word done_computes)
next
  case False
  then have "\<not> uint k < 31" by (simp add: word_less_def)
  then show ?thesis
    using False by (auto simp: computes_def opSignExtend_def done_op_def pool_put_def)
qed

lemma computes_byte: "computes opByte [k, a] (if k < 32 then take_bit 8 (drop_bit (8 * (31 - unat k)) a) else 0)"
proof (cases "k < 32")
  case True
  let ?m = "31 - unat k"
  have k: "uint k < 32" using True by (simp add: word_less_def)
  have k': "unat k < 32" using True by (simp add: word_less_nat_alt)
  have "sint (word_of_int (uint k) :: 64 word) = signed_take_bit (LENGTH(64) - 1) (uint k)" by (rule sint_sbintrunc')
  also have "\<dots> = uint k" using k uint_nonnegative [of k] by (intro signed_take_bit_int_eq_self) (simp_all add: order_trans [of _ 0])
  also have "word_of_int (uint k) = big_Int64 (uint k)" by (simp add: big_Int64_def not_less)
  finally have s: "nat (sint (big_Int64 (uint k))) = unat k" by (simp only: unat_eq_nat_uint)
  have u: "unat a < 2 ^ LENGTH(256)" by (rule unsigned_less)
  have "unat (math_Byte (uint a) 32 (unat k)) = unat a div 2 ^ (8 * ?m) mod 2 ^ 8"
    using k' unat_bigEndianByteAt [of "uint a" ?m] by (simp add: math_Byte_def power_mult flip: unat_eq_nat_uint)
  also have "\<dots> = unat (take_bit 8 (drop_bit (8 * ?m) a))"
    using u
    by (simp only: unsigned_take_bit_eq unsigned_drop_bit_eq) (simp add: take_bit_eq_mod drop_bit_eq_div)
  finally have "uint (math_Byte (uint a) 32 (unat k)) = uint (take_bit 8 (drop_bit (8 * ?m) a))" by (metis uint_nat)
  then show ?thesis using k True s by (simp add: computes_def opByte_def done_computes)
next
  case False
  then have "\<not> uint k < 32" by (simp add: word_less_def)
  then show ?thesis
    using False done_computes(1) [where r = "0 :: u256_word"] by (simp add: computes_def opByte_def)
qed

section \<open>Property\<close>

text \<open>C16: The arithmetic, comparison and bit instructions implement the words of 256 bits: with words on the stack they replace them by the
  word that the operation gives, without an error, and change nothing else but the pool of integers. Addition, subtraction and
  multiplication wrap around; division and remainder by zero give zero; the signed ones round towards zero, the
  remainder with the sign of the dividend; \<open>ADDMOD\<close> and \<open>MULMOD\<close> do not wrap around before the remainder is taken.\<close>

theorem instructions_compute_words:
  "computes opAdd [a, b] (a + b) \<and> computes opSub [a, b] (a - b) \<and> computes opMul [a, b] (a * b) \<and>
   computes opDiv [a, b] (a div b) \<and> computes opMod [a, b] (if b = 0 then 0 else a mod b) \<and>
   computes opSdiv [a, b] (word_of_int (sint a sdiv sint b)) \<and>
   computes opSmod [a, b] (if b = 0 then 0 else word_of_int (sint a smod sint b)) \<and>
   computes opAddmod [a, b, m] (if m = 0 then 0 else word_of_int ((uint a + uint b) mod uint m)) \<and>
   computes opMulmod [a, b, m] (if m = 0 then 0 else word_of_int ((uint a * uint b) mod uint m)) \<and>
   computes opExp [a, b] (a ^ unat b) \<and>
   computes opSignExtend [k, a] (if k < 31 then word_of_int (signed_take_bit (8 * unat k + 7) (uint a)) else a) \<and>
   computes opLt [a, b] (of_bool (a < b)) \<and> computes opGt [a, b] (of_bool (a > b)) \<and>
   computes opSlt [a, b] (of_bool (sint a < sint b)) \<and> computes opSgt [a, b] (of_bool (sint a > sint b)) \<and>
   computes opEq [a, b] (of_bool (a = b)) \<and> computes opIszero [a] (of_bool (a = 0)) \<and>
   computes opAnd [a, b] (a AND b) \<and> computes opOr [a, b] (a OR b) \<and> computes opXor [a, b] (a XOR b) \<and> computes opNot [a] (NOT a) \<and>
   computes opByte [k, a] (if k < 32 then take_bit 8 (drop_bit (8 * (31 - unat k)) a) else 0)"
  by (intro conjI computes_ring computes_division computes_modular computes_power computes_sign computes_comparison computes_bits computes_byte)

end
