(* ===== verification/Spec2Isabelle.thy ===== *)
theory Spec2Isabelle
  imports Transition ReadOnly WordArith
begin

text \<open>
  The repository adds zero-knowledge range proofs to an Ethereum node. A prover in Java
  (\<open>src/src/main/java/com/ing/blockchain/zk\<close>) commits to a number and proves that it lies in a range (Boudot's proof); a
  validator in Go (\<open>src/go-ethereum/zkrangeproof\<close>) checks such proofs; it is called as the precompiled contract at address 9 by
  programs of the Ethereum virtual machine (\<open>src/go-ethereum/core/vm\<close>), which runs on the accounts of \<open>core/state\<close>. This
  development follows that path from the prover to the transaction: the prover, the validator, the contract, the
  pairing curve behind the contracts 6 to 8, the virtual machine with all its instructions, and the journalled accounts.

  \<^bold>\<open>Conventions.\<close> A call of Go code has a value of type \<open>('e, 'a) outcome\<close>: a result, a returned error, or a panic (an index or
  slice out of range, a division by zero). A \<open>*big.Int\<close> is an \<open>int\<close>, a \<open>uint64\<close> or \<open>int64\<close> a word of 64 bits whose arithmetic wraps
  around, an address a word of 160 and a hash a word of 256 bits, a byte a word of 8 bits, a slice a list. Where code writes
  through a shared slice or a receiver that is also an operand, the definitions return what is there afterwards.

  \<^bold>\<open>Theories.\<close>

  \<^item> \<open>Prelude\<close>, \<open>GoBig\<close>, \<open>GoCommon\<close>: the result type, generic facts, the part of \<open>math/big\<close> that the code calls, and \<open>common\<close>,
    \<open>common/math\<close> and \<open>core/vm/common.go\<close>. \<open>GoCommon\<close> shows that \<open>math.Exp\<close> computes the power modulo \<open>2\<^sup>2\<^sup>5\<^sup>6\<close> although it
    overwrites its base, and for which sizes \<open>getData\<close> panics.

  \<^item> \<open>ByteConversion\<close>: package \<open>byteconversion\<close>. The two conversions are inverse to each other; the parser equals splitting at
    commas and converting the fields, and reads back every printed list.

  \<^item> \<open>ZKRangeProof\<close>: package \<open>zkrangeproof\<close>. The verdict of \<open>ValidateRangeProof\<close> as one formula; it returns for every modulus
    other than zero; its square root is exact; two CFT proofs that are accepted for different answers of the digest to the same bytes
    open the commitment (special soundness); and the proof that consists of zeros is accepted for every range.

  \<^item> \<open>RangeProver\<close>: the prover and the validators in Java, and the packet of the demo server. Every honest proof, printed
    and parsed, is accepted by the Go validator, and what the Java validator accepts the Go validator accepts.

  \<^item> \<open>BN256Field\<close>, \<open>GfP2\<close>, \<open>GfP6\<close>, \<open>GfP12\<close>, \<open>Jacobian\<close>, \<open>Curve\<close>, \<open>Twist\<close>, \<open>OptAte\<close>, \<open>BN256\<close>: package \<open>crypto/bn256\<close>. The field
    types are interpreted in the rings they stand for and every operation is the ring operation; inversion gives
    inverses; the Frobenius maps are endomorphisms. The locales \<open>power_ops\<close> (square and multiply), \<open>mod_group\<close> and \<open>jac_ops\<close> (Jacobian
    coordinates over a ring) are interpreted by the code of \<open>gfP2\<close>, \<open>gfP12\<close>, the integers modulo \<open>N\<close>, and the two curves, and
    give that the additions stay on the curve and follow the chord-and-tangent law. The Miller loop is the product
    of the lines along the digits of \<open>6u + 2\<close>, the final exponentiation is the power it should be, the encodings of points
    can be read back and only points of the curve are accepted.

  \<^item> \<open>Contract\<close>, \<open>Precompiles\<close>, \<open>StackMemory\<close>: \<open>core/vm/contract.go\<close>, \<open>analysis.go\<close>, \<open>contracts.go\<close>, \<open>stack.go\<close>, \<open>memory.go\<close>, \<open>intpool.go\<close>,
    \<open>memory_table.go\<close>. The jump test accepts exactly the \<open>JUMPDEST\<close>s that are instructions; the contract at address 9 accepts
    every honest packet, and panics for exactly the offsets that wrap around; the pairing contract gives a verdict on
    exactly the encodings of points of the two curves; the fee for memory is the difference of the prices of the sizes.

  \<^item> \<open>StateDB\<close>, \<open>Journal\<close>: \<open>core/state\<close>. After any sequence of changes, queries, snapshots and inner reverts,
    \<open>RevertToSnapshot\<close> restores what can be observed of the accounts, the refund, the logs and the preimages.

  \<^item> \<open>Rlp\<close>: \<open>rlp/encode.go\<close>, \<open>rlp/raw.go\<close>. The encoder with its buffer of headers implements the recursive definition of the
    encoding, \<open>Split\<close> takes every encoding apart, and panics for exactly one input.

  \<^item> \<open>Machine\<close>, \<open>Instructions\<close>, \<open>Interpreter\<close>: the chain rules and prices of \<open>params\<close>, \<open>core/evm.go\<close>, and \<open>core/vm\<close>: \<open>gas.go\<close>,
    \<open>gas_table.go\<close>, \<open>instructions.go\<close>, \<open>jump_table.go\<close>, \<open>interpreter.go\<close>, \<open>evm.go\<close>. The state of a run is a \<open>world\<close> (accounts, depth,
    read-only flag, return data, pool of integers, analysed jump destinations, abort flag) and a \<open>frame\<close> (program
    counter, contract, memory, stack). The interpreter and the calls are mutually recursive; the instructions get the
    calls as an argument of type \<open>calls\<close>, and \<open>run_loop\<close> ties the knot with a fuel.

  \<^item> \<open>Execution\<close>, \<open>Termination\<close>: the locale \<open>callees\<close> states what an instruction relies on when it calls; it is interpreted by the calls of the machine
    itself for every fuel, by induction on the fuel. It follows that every metered call ends, that it gives back at most its
    gas, and that a call that fails leaves the accounts as they were.

  \<^item> \<open>Supply\<close>: the locale \<open>custodians\<close> states what a call does with money, interpreted in the same way. No call and no creation
    makes a balance negative or lets the sum of all balances grow (self-destruction to oneself makes it shrink). The numbers on the stack stay non-negative.

  \<^item> \<open>ReadOnly\<close>: the locale \<open>observers\<close> states what a call does in the read-only mode. A static call changes no account, log or refund,
    whatever it calls; a read-only \<open>CALL\<close> with a short stack panics.

  \<^item> \<open>WordArith\<close>: the arithmetic, comparison and bit instructions, which compute on unbounded integers, implement the operations of
    words of 256 bits.

  \<^item> \<open>Transition\<close>: \<open>core/state_transition.go\<close>, \<open>core/gaspool.go\<close>. The transaction buys gas, runs as a call or a creation, is refunded and
    pays the miner; its books balance. The theorems on the prover, the contract and the transaction are put together: the
    packet of an honest prover, sent as a transaction to address 9, makes it succeed and return the word 1.

  \<^bold>\<open>Fuel.\<close> Only \<open>run_loop\<close> and the loops that read from a random source use fuel. One unit is one round of the interpreter's loop or one
    block of random bytes. Every instruction but the halting ones costs at least one unit of gas, and a nested call gets at
    most what its caller has paid for, so \<open>gas + 1\<close> units are enough (\<open>call_terminates\<close>) and more change nothing. All other
    loops are total functions.

  \<^bold>\<open>Parameters.\<close> SHA-256, RIPEMD-160, Keccak-256 and the recovery of signatures are functions given to the definitions; the
  database below the accounts is the record \<open>backend\<close>; random numbers come from a list of blocks or a function of the call number.

  \<^bold>\<open>Not modelled.\<close> The tries and databases, the peer-to-peer, consensus, mining and transaction pool packages, the RPC
  servers, wallets and command-line tools: they are services around the virtual machine, with goroutines, sockets and
  files, and no part of validating a range proof. In the modelled packages: tracing and logging (\<open>logger.go\<close>), the textual
  names of opcodes, the assembly versions of arithmetic, the reflection that finds the writer of a type
  (the values are a datatype instead) and the decoder of \<open>rlp/decode.go\<close>, and of the Java code the HTTP server and logging.
\<close>

end
